(* ===== verification/Prelude.thy ===== *)
theory Prelude
  imports Main "HOL-Library.Word" "HOL-Library.Monad_Syntax"
begin

text \<open>
  What every component shares: bytes, the clock, Go's slice expressions with their
  run-time panics, the byte orders of \<^verbatim>\<open>encoding/binary\<close>, and the collections of rewrite
  rules the component theories add to.

  A Go slice expression \<^verbatim>\<open>b[i:j]\<close> panics when the bounds are out of range. Code that reads
  bytes sent by a peer is modelled in the option monad, in which \<^term>\<open>None\<close> is the
  panic, so that the absence of panics is a theorem and not an assumption.
\<close>

unbundle bit_operations_syntax

type_synonym byte = "8 word"
type_synonym bytes = "byte list"

text \<open>
  \<^verbatim>\<open>time.Time\<close> and \<^verbatim>\<open>time.Duration\<close> are nanoseconds; the zero \<^verbatim>\<open>time.Time\<close> is \<open>0\<close>, and every
  value of \<^verbatim>\<open>time.Now()\<close> is positive. \<^verbatim>\<open>t.Before(u)\<close> is \<open>t < u\<close>, \<^verbatim>\<open>t.Add(d)\<close> is \<open>t + d\<close>
  and \<^verbatim>\<open>t.Sub(u)\<close> is \<open>t - u\<close>.
\<close>

type_synonym instant = int
type_synonym duration = int

abbreviation Millisecond :: duration where "Millisecond \<equiv> 1000000"
abbreviation Second :: duration where "Second \<equiv> 1000000000"
abbreviation Minute :: duration where "Minute \<equiv> 60000000000"
abbreviation Hour :: duration where "Hour \<equiv> 3600000000000"

named_theorems slice_simps "rewrite rules for slices and byte orders"
named_theorems framing_simps "rewrite rules for packet and record framing"

subsection \<open>Slices\<close>

text \<open>The slice \<^verbatim>\<open>b[i:j]\<close>, \<^term>\<open>None\<close> when Go panics, and the read \<^verbatim>\<open>b[i]\<close>.\<close>

definition slice :: "nat \<Rightarrow> nat \<Rightarrow> 'a list \<Rightarrow> 'a list" where
  "slice i j xs = take (j - i) (drop i xs)"

definition go_slice :: "nat \<Rightarrow> nat \<Rightarrow> 'a list \<Rightarrow> 'a list option" where
  "go_slice i j xs = (if i \<le> j \<and> j \<le> length xs then Some (slice i j xs) else None)"

definition go_index :: "nat \<Rightarrow> 'a list \<Rightarrow> 'a option" where
  "go_index i xs = (if i < length xs then Some (xs ! i) else None)"

text \<open>\<^verbatim>\<open>copy(dst[i:], src)\<close> when \<^verbatim>\<open>src\<close> fits: the bytes from \<open>i\<close> on are overwritten.\<close>

definition overwrite :: "nat \<Rightarrow> 'a list \<Rightarrow> 'a list \<Rightarrow> 'a list" where
  "overwrite i src dst = take i dst @ src @ drop (i + length src) dst"

text \<open>\<^verbatim>\<open>copy(dst, src)\<close>: as many elements as both slices have.\<close>

definition go_copy :: "'a list \<Rightarrow> 'a list \<Rightarrow> 'a list" where
  "go_copy dst src = take (length dst) src @ drop (length src) dst"

subsection \<open>Byte orders\<close>

text \<open>\<^verbatim>\<open>binary.BigEndian\<close> and \<^verbatim>\<open>binary.LittleEndian\<close>, reads and writes.\<close>

definition beUint16 :: "byte \<Rightarrow> byte \<Rightarrow> 16 word" where
  "beUint16 hi lo = (push_bit 8 (ucast hi)) OR ucast lo"

definition putBEUint16 :: "16 word \<Rightarrow> bytes" where
  "putBEUint16 w = [ucast (drop_bit 8 w), ucast w]"

definition leUint16 :: "byte \<Rightarrow> byte \<Rightarrow> 16 word" where
  "leUint16 lo hi = (push_bit 8 (ucast hi)) OR ucast lo"

definition putLEUint16 :: "16 word \<Rightarrow> bytes" where
  "putLEUint16 w = [ucast w, ucast (drop_bit 8 w)]"

definition leUint32 :: "byte \<Rightarrow> byte \<Rightarrow> byte \<Rightarrow> byte \<Rightarrow> 32 word" where
  "leUint32 b0 b1 b2 b3 =
     ucast b0 OR push_bit 8 (ucast b1) OR push_bit 16 (ucast b2) OR push_bit 24 (ucast b3)"

definition putLEUint32 :: "32 word \<Rightarrow> bytes" where
  "putLEUint32 w =
     [ucast w, ucast (drop_bit 8 w), ucast (drop_bit 16 w), ucast (drop_bit 24 w)]"

definition xorBytes :: "bytes \<Rightarrow> bytes \<Rightarrow> bytes" where
  "xorBytes xs ys = map2 (XOR) xs ys"

subsection \<open>Facts on slices\<close>

lemma length_slice [simp, slice_simps]:
  "j \<le> length xs \<Longrightarrow> length (slice i j xs) = j - i"
  by (simp add: slice_def)

lemma nth_slice [slice_simps]:
  "i + k < j \<Longrightarrow> j \<le> length xs \<Longrightarrow> slice i j xs ! k = xs ! (i + k)"
  by (simp add: slice_def)

lemma go_slice_Some [simp]:
  "i \<le> j \<Longrightarrow> j \<le> length xs \<Longrightarrow> go_slice i j xs = Some (slice i j xs)"
  by (simp add: go_slice_def)

lemma go_slice_eq_Some:
  "go_slice i j xs = Some ys \<longleftrightarrow> i \<le> j \<and> j \<le> length xs \<and> ys = slice i j xs"
  by (auto simp: go_slice_def)

lemma go_index_Some [simp]: "i < length xs \<Longrightarrow> go_index i xs = Some (xs ! i)"
  by (simp add: go_index_def)

lemma go_index_eq_Some: "go_index i xs = Some x \<longleftrightarrow> i < length xs \<and> x = xs ! i"
  by (auto simp: go_index_def)

lemma slice_append1 [slice_simps]: "j \<le> length xs \<Longrightarrow> slice i j (xs @ ys) = slice i j xs"
  by (simp add: slice_def)

lemma slice_append2 [slice_simps]:
  "length xs \<le> i \<Longrightarrow> slice i j (xs @ ys) = slice (i - length xs) (j - length xs) ys"
  by (simp add: slice_def)

lemma slice_all [simp]: "slice 0 (length xs) xs = xs"
  by (simp add: slice_def)

lemma slice_to_end: "j = length xs \<Longrightarrow> slice i j xs = drop i xs"
  by (simp add: slice_def)

lemma slice_0: "slice 0 j xs = take j xs"
  by (simp add: slice_def)

lemma slice_take: "j \<le> n \<Longrightarrow> slice i j (take n xs) = slice i j xs"
  by (simp add: slice_def drop_take min_def)

lemma take_slice_drop: "i \<le> j \<Longrightarrow> take i xs @ slice i j xs @ drop j xs = xs"
  by (metis append_take_drop_id le_add_diff_inverse slice_def take_add append.assoc)

lemma length_overwrite [simp]:
  "i + length src \<le> length dst \<Longrightarrow> length (overwrite i src dst) = length dst"
  by (simp add: overwrite_def)

lemma slice_overwrite_same:
  "i + length src \<le> length dst \<Longrightarrow> slice i (i + length src) (overwrite i src dst) = src"
  by (simp add: overwrite_def slice_def)

lemma go_copy_full [simp]: "length dst = length src \<Longrightarrow> go_copy dst src = src"
  by (simp add: go_copy_def)

lemma overwrite_overwrite:
  "length src = length src' \<Longrightarrow> i + length src \<le> length dst \<Longrightarrow>
   overwrite i src (overwrite i src' dst) = overwrite i src dst"
  by (simp add: overwrite_def)

lemma overwrite_slice_id:
  "i + n \<le> length dst \<Longrightarrow> overwrite i (slice i (i + n) dst) dst = dst"
  using take_slice_drop [of i "i + n" dst] by (simp add: overwrite_def)

lemma nth_overwrite_outside:
  assumes "i + length src \<le> length dst" and "k < i \<or> i + length src \<le> k" and "k < length dst"
  shows "overwrite i src dst ! k = dst ! k"
  using assms by (auto simp: overwrite_def nth_append)

subsection \<open>Facts on words\<close>

lemma unat_word_of_nat_small:
  "n < 2 ^ LENGTH('a) \<Longrightarrow> unat (word_of_nat n :: 'a::len word) = n"
  by (simp add: unsigned_of_nat take_bit_nat_eq_self)

lemma take_bit_word_of_nat:
  assumes "n < 2 ^ k" and "k \<le> LENGTH('a)"
  shows "take_bit k (word_of_nat n :: 'a::len word) = word_of_nat n"
proof -
  have "n < 2 ^ LENGTH('a)"
    using assms by (meson less_le_trans one_le_numeral power_increasing)
  then have "unat (take_bit k (word_of_nat n :: 'a word)) = unat (word_of_nat n :: 'a word)"
    using assms by (simp add: unsigned_take_bit_eq unat_word_of_nat_small take_bit_nat_eq_self)
  then show ?thesis by (rule unsigned_word_eqI)
qed

subsection \<open>Facts on byte orders\<close>

lemma unat_byte_less: "unat (b :: byte) < 256"
  using unsigned_less [of b] by simp

lemma unat_ucast_byte16 [simp]: "unat (ucast (b :: byte) :: 16 word) = unat b"
  using unat_byte_less [of b] by (simp add: unsigned_ucast_eq take_bit_eq_mod)

lemma unat_ucast_byte32 [simp]: "unat (ucast (b :: byte) :: 32 word) = unat b"
  using unat_byte_less [of b] by (simp add: unsigned_ucast_eq take_bit_eq_mod)

lemma unat_join8:
  fixes hi lo :: byte
  shows "unat ((push_bit 8 (ucast hi) :: 16 word) OR ucast lo) = 256 * unat hi + unat lo"
proof -
  have disj: "(push_bit 8 (ucast hi) :: 16 word) AND ucast lo = 0"
    by (rule bit_word_eqI) (auto simp: bit_simps dest: bit_imp_le_length)
  have hi: "unat (push_bit 8 (ucast hi) :: 16 word) = 256 * unat hi"
    using unat_byte_less [of hi] by (simp add: push_bit_eq_mult unat_word_ariths)
  have "(push_bit 8 (ucast hi) :: 16 word) OR ucast lo = push_bit 8 (ucast hi) + ucast lo"
    using disj by (simp add: disjunctive_add_eq_or)
  then show ?thesis
    using hi unat_byte_less [of hi] unat_byte_less [of lo] by (simp add: unat_word_ariths)
qed

lemma unat_beUint16 [slice_simps]: "unat (beUint16 hi lo) = 256 * unat hi + unat lo"
  by (simp add: beUint16_def unat_join8)

lemma unat_leUint16 [slice_simps]: "unat (leUint16 lo hi) = 256 * unat hi + unat lo"
  by (simp add: leUint16_def unat_join8)

lemma length_putBEUint16 [simp]: "length (putBEUint16 w) = 2"
  by (simp add: putBEUint16_def)

lemma length_putLEUint16 [simp]: "length (putLEUint16 w) = 2"
  by (simp add: putLEUint16_def)

lemma length_putLEUint32 [simp]: "length (putLEUint32 w) = 4"
  by (simp add: putLEUint32_def)

lemma beUint16_put [simp]: "beUint16 (ucast (drop_bit 8 w)) (ucast w) = w"
  by (rule bit_word_eqI) (auto simp: beUint16_def bit_simps)

lemma leUint16_put [simp]: "leUint16 (ucast w) (ucast (drop_bit 8 w)) = w"
  by (rule bit_word_eqI) (auto simp: leUint16_def bit_simps)

lemma leUint32_put [simp]:
  "leUint32 (ucast w) (ucast (drop_bit 8 w)) (ucast (drop_bit 16 w)) (ucast (drop_bit 24 w)) = w"
proof (rule bit_word_eqI)
  fix n assume "n < LENGTH(32)"
  then consider "n < 8" | "8 \<le> n \<and> n < 16" | "16 \<le> n \<and> n < 24" | "24 \<le> n \<and> n < 32"
    by fastforce
  then show "bit (leUint32 (ucast w) (ucast (drop_bit 8 w)) (ucast (drop_bit 16 w)) (ucast (drop_bit 24 w))) n = bit w n"
    by cases (auto simp: leUint32_def bit_simps)
qed

subsection \<open>Facts on exclusive or\<close>

lemma length_xorBytes [simp]: "length (xorBytes xs ys) = min (length xs) (length ys)"
  by (simp add: xorBytes_def)

lemma nth_xorBytes:
  "i < length xs \<Longrightarrow> i < length ys \<Longrightarrow> xorBytes xs ys ! i = xs ! i XOR ys ! i"
  by (simp add: xorBytes_def)

lemma xorBytes_cancel:
  "length xs \<le> length ks \<Longrightarrow> xorBytes (xorBytes xs ks) ks = xs"
  by (rule nth_equalityI) (simp_all add: nth_xorBytes xor.assoc)

lemma xorBytes_append:
  "length xs = length ks \<Longrightarrow> xorBytes (xs @ ys) (ks @ ls) = xorBytes xs ks @ xorBytes ys ls"
  by (simp add: xorBytes_def)

end
