(* ===== verification/GoCrypto.thy ===== *)
theory GoCrypto
  imports Prelude
begin

text \<open>
  The cryptographic functions of Go's standard library that the proxy calls:
  \<^verbatim>\<open>crypto/sha256\<close> (FIPS 180-4), \<^verbatim>\<open>crypto/hmac\<close> (RFC 2104), \<^verbatim>\<open>crypto/aes\<close> (FIPS 197)
  and the counter mode of \<^verbatim>\<open>crypto/cipher\<close>. They are defined in full, on machine words, so
  that nothing is assumed about them: the only facts the proxy's correctness rests on are
  lengths and the algebra of a keystream, and both are proved here.

  The locale \<open>stream_cipher\<close> is the interface \<^verbatim>\<open>cipher.Stream\<close> as the proxy uses it; its
  interpretation on the counter mode discharges the laws for the AES keystream.
\<close>

subsection \<open>SHA-256\<close>

text \<open>The constants of the standard, in decimal.\<close>

type_synonym word32 = "32 word"

definition sha256_K :: "word32 list" where
  "sha256_K =
     [1116352408, 1899447441, 3049323471, 3921009573, 961987163, 1508970993, 2453635748, 2870763221,
      3624381080, 310598401, 607225278, 1426881987, 1925078388, 2162078206, 2614888103, 3248222580,
      3835390401, 4022224774, 264347078, 604807628, 770255983, 1249150122, 1555081692, 1996064986,
      2554220882, 2821834349, 2952996808, 3210313671, 3336571891, 3584528711, 113926993, 338241895,
      666307205, 773529912, 1294757372, 1396182291, 1695183700, 1986661051, 2177026350, 2456956037,
      2730485921, 2820302411, 3259730800, 3345764771, 3516065817, 3600352804, 4094571909, 275423344,
      430227734, 506948616, 659060556, 883997877, 958139571, 1322822218, 1537002063, 1747873779,
      1955562222, 2024104815, 2227730452, 2361852424, 2428436474, 2756734187, 3204031479, 3329325298]"

definition sha256_H0 :: "word32 list" where
  "sha256_H0 =
     [1779033703, 3144134277, 1013904242, 2773480762,
      1359893119, 2600822924, 528734635, 1541459225]"

definition sha_Sigma0 :: "word32 \<Rightarrow> word32" where
  "sha_Sigma0 x = word_rotr 2 x XOR word_rotr 13 x XOR word_rotr 22 x"

definition sha_Sigma1 :: "word32 \<Rightarrow> word32" where
  "sha_Sigma1 x = word_rotr 6 x XOR word_rotr 11 x XOR word_rotr 25 x"

definition sha_sigma0 :: "word32 \<Rightarrow> word32" where
  "sha_sigma0 x = word_rotr 7 x XOR word_rotr 18 x XOR drop_bit 3 x"

definition sha_sigma1 :: "word32 \<Rightarrow> word32" where
  "sha_sigma1 x = word_rotr 17 x XOR word_rotr 19 x XOR drop_bit 10 x"

text \<open>The message schedule: each new word from four earlier ones.\<close>

fun sha_schedule :: "nat \<Rightarrow> word32 list \<Rightarrow> word32 list" where
  "sha_schedule 0 ws = ws"
| "sha_schedule (Suc n) ws =
     (let t = length ws
      in sha_schedule n
           (ws @ [sha_sigma1 (ws ! (t - 2)) + ws ! (t - 7) + sha_sigma0 (ws ! (t - 15)) + ws ! (t - 16)]))"

type_synonym sha_state = "word32 \<times> word32 \<times> word32 \<times> word32 \<times> word32 \<times> word32 \<times> word32 \<times> word32"

fun sha_round :: "word32 \<times> word32 \<Rightarrow> sha_state \<Rightarrow> sha_state" where
  "sha_round (k, w) (a, b, c, d, e, f, g, h) =
     (let t1 = h + sha_Sigma1 e + ((e AND f) XOR (NOT e AND g)) + k + w;
          t2 = sha_Sigma0 a + ((a AND b) XOR (a AND c) XOR (b AND c))
      in (t1 + t2, a, b, c, d + t1, e, f, g))"

fun sha_words :: "bytes \<Rightarrow> word32 list" where
  "sha_words (b0 # b1 # b2 # b3 # bs) = leUint32 b3 b2 b1 b0 # sha_words bs"
| "sha_words _ = []"

fun sha_block :: "sha_state \<Rightarrow> bytes \<Rightarrow> sha_state" where
  "sha_block (a, b, c, d, e, f, g, h) blk =
     (case fold sha_round (zip sha256_K (sha_schedule 48 (sha_words blk))) (a, b, c, d, e, f, g, h) of
        (a', b', c', d', e', f', g', h') \<Rightarrow>
          (a + a', b + b', c + c', d + d', e + e', f + f', g + g', h + h'))"

function sha_blocks :: "sha_state \<Rightarrow> bytes \<Rightarrow> sha_state" where
  "sha_blocks st bs = (if bs = [] then st else sha_blocks (sha_block st (take 64 bs)) (drop 64 bs))"
  by pat_completeness auto
termination
  by (relation "measure (\<lambda>(st, bs). length bs)") auto

declare sha_blocks.simps [simp del]

text \<open>A 64-bit big-endian number, the length field of the padding.\<close>

definition putBEUint64 :: "64 word \<Rightarrow> bytes" where
  "putBEUint64 w = map (\<lambda>i. ucast (drop_bit (8 * (7 - i)) w)) [0..<8]"

definition sha_pad :: "bytes \<Rightarrow> bytes" where
  "sha_pad m =
     m @ [0x80] @ replicate ((119 - length m mod 64) mod 64) 0
       @ putBEUint64 (8 * word_of_nat (length m))"

fun sha_digest :: "sha_state \<Rightarrow> bytes" where
  "sha_digest (a, b, c, d, e, f, g, h) =
     concat (map (rev \<circ> putLEUint32) [a, b, c, d, e, f, g, h])"

definition sha_init :: sha_state where
  "sha_init =
     (sha256_H0 ! 0, sha256_H0 ! 1, sha256_H0 ! 2, sha256_H0 ! 3,
      sha256_H0 ! 4, sha256_H0 ! 5, sha256_H0 ! 6, sha256_H0 ! 7)"

definition sha256_Sum256 :: "bytes \<Rightarrow> bytes" where
  "sha256_Sum256 m = sha_digest (sha_blocks sha_init (sha_pad m))"

subsection \<open>HMAC\<close>

definition hmac_key :: "bytes \<Rightarrow> bytes" where
  "hmac_key k =
     (let k0 = (if 64 < length k then sha256_Sum256 k else k)
      in k0 @ replicate (64 - length k0) 0)"

definition hmac_Sum :: "bytes \<Rightarrow> bytes \<Rightarrow> bytes" where
  "hmac_Sum key m =
     (let k = hmac_key key
      in sha256_Sum256 (map (\<lambda>b. b XOR 0x5c) k @ sha256_Sum256 (map (\<lambda>b. b XOR 0x36) k @ m)))"

subsection \<open>AES\<close>

definition aes_sbox :: "byte list" where
  "aes_sbox =
     [99, 124, 119, 123, 242, 107, 111, 197, 48, 1, 103, 43, 254, 215, 171, 118,
      202, 130, 201, 125, 250, 89, 71, 240, 173, 212, 162, 175, 156, 164, 114, 192,
      183, 253, 147, 38, 54, 63, 247, 204, 52, 165, 229, 241, 113, 216, 49, 21,
      4, 199, 35, 195, 24, 150, 5, 154, 7, 18, 128, 226, 235, 39, 178, 117,
      9, 131, 44, 26, 27, 110, 90, 160, 82, 59, 214, 179, 41, 227, 47, 132,
      83, 209, 0, 237, 32, 252, 177, 91, 106, 203, 190, 57, 74, 76, 88, 207,
      208, 239, 170, 251, 67, 77, 51, 133, 69, 249, 2, 127, 80, 60, 159, 168,
      81, 163, 64, 143, 146, 157, 56, 245, 188, 182, 218, 33, 16, 255, 243, 210,
      205, 12, 19, 236, 95, 151, 68, 23, 196, 167, 126, 61, 100, 93, 25, 115,
      96, 129, 79, 220, 34, 42, 144, 136, 70, 238, 184, 20, 222, 94, 11, 219,
      224, 50, 58, 10, 73, 6, 36, 92, 194, 211, 172, 98, 145, 149, 228, 121,
      231, 200, 55, 109, 141, 213, 78, 169, 108, 86, 244, 234, 101, 122, 174, 8,
      186, 120, 37, 46, 28, 166, 180, 198, 232, 221, 116, 31, 75, 189, 139, 138,
      112, 62, 181, 102, 72, 3, 246, 14, 97, 53, 87, 185, 134, 193, 29, 158,
      225, 248, 152, 17, 105, 217, 142, 148, 155, 30, 135, 233, 206, 85, 40, 223,
      140, 161, 137, 13, 191, 230, 66, 104, 65, 153, 45, 15, 176, 84, 187, 22]"

definition aes_sub :: "byte \<Rightarrow> byte" where
  "aes_sub b = aes_sbox ! unat b"

definition aes_xtime :: "byte \<Rightarrow> byte" where
  "aes_xtime b = (if bit b 7 then push_bit 1 b XOR 0x1b else push_bit 1 b)"

text \<open>The key schedule, on words of four bytes; \<open>nk\<close> is the number of words of the key.\<close>

definition aes_next_word :: "nat \<Rightarrow> bytes list \<Rightarrow> bytes" where
  "aes_next_word nk ws =
     (let i = length ws;
          prev = ws ! (i - 1);
          temp = (if i mod nk = 0
                  then xorBytes (map aes_sub (rotate1 prev)) [(aes_xtime ^^ (i div nk - 1)) 1, 0, 0, 0]
                  else if 6 < nk \<and> i mod nk = 4 then map aes_sub prev
                  else prev)
      in xorBytes (ws ! (i - nk)) temp)"

fun aes_expand :: "nat \<Rightarrow> nat \<Rightarrow> bytes list \<Rightarrow> bytes list" where
  "aes_expand nk 0 ws = ws"
| "aes_expand nk (Suc n) ws = aes_expand nk n (ws @ [aes_next_word nk ws])"

definition aes_key_words :: "bytes \<Rightarrow> bytes list" where
  "aes_key_words key = map (\<lambda>i. slice (4 * i) (4 * i + 4) key) [0..<length key div 4]"

definition aes_round_keys :: "bytes \<Rightarrow> bytes list" where
  "aes_round_keys key =
     (let nk = length key div 4;
          ws = aes_expand nk (4 * (nk + 7) - nk) (aes_key_words key)
      in map (\<lambda>r. concat (slice (4 * r) (4 * r + 4) ws)) [0..<nk + 7])"

definition aes_shift_rows :: "bytes \<Rightarrow> bytes" where
  "aes_shift_rows s = map (\<lambda>i. s ! i) [0, 5, 10, 15, 4, 9, 14, 3, 8, 13, 2, 7, 12, 1, 6, 11]"

fun aes_mix_column :: "bytes \<Rightarrow> bytes" where
  "aes_mix_column (a # b # c # d # rest) =
     [aes_xtime a XOR (aes_xtime b XOR b) XOR c XOR d,
      a XOR aes_xtime b XOR (aes_xtime c XOR c) XOR d,
      a XOR b XOR aes_xtime c XOR (aes_xtime d XOR d),
      (aes_xtime a XOR a) XOR b XOR c XOR aes_xtime d] @ aes_mix_column rest"
| "aes_mix_column _ = []"

definition aes_round :: "bytes \<Rightarrow> bytes \<Rightarrow> bytes" where
  "aes_round rk s = xorBytes (aes_mix_column (aes_shift_rows (map aes_sub s))) rk"

text \<open>\<^verbatim>\<open>block.Encrypt\<close>: the rounds in order, the last one without the column mix.\<close>

definition aes_encrypt :: "bytes \<Rightarrow> bytes \<Rightarrow> bytes" where
  "aes_encrypt key blk =
     (let rks = aes_round_keys key;
          s = fold aes_round (butlast (tl rks)) (xorBytes blk (hd rks))
      in xorBytes (aes_shift_rows (map aes_sub s)) (last rks))"

text \<open>\<^verbatim>\<open>aes.NewCipher\<close>: an error unless the key has 16, 24 or 32 bytes.\<close>

definition aes_NewCipher :: "bytes \<Rightarrow> bytes option" where
  "aes_NewCipher key = (if length key \<in> {16, 24, 32} then Some key else None)"

subsection \<open>Counter mode\<close>

definition ctr_value :: "bytes \<Rightarrow> 128 word" where
  "ctr_value iv = foldl (\<lambda>a b. 256 * a + ucast b) 0 iv"

definition ctr_block :: "bytes \<Rightarrow> nat \<Rightarrow> bytes" where
  "ctr_block iv n =
     map (\<lambda>i. ucast (drop_bit (8 * (15 - i)) (ctr_value iv + word_of_nat n))) [0..<16]"

definition ctr_byte :: "bytes \<Rightarrow> bytes \<Rightarrow> nat \<Rightarrow> byte" where
  "ctr_byte key iv n = aes_encrypt key (ctr_block iv (n div 16)) ! (n mod 16)"

definition ctr_keystream :: "bytes \<Rightarrow> bytes \<Rightarrow> nat \<Rightarrow> nat \<Rightarrow> bytes" where
  "ctr_keystream key iv pos n = map (ctr_byte key iv) [pos..<pos + n]"

text \<open>
  A \<^verbatim>\<open>cipher.Stream\<close> in counter mode: its key, its initial counter and the number of bytes
  it has produced. \<^verbatim>\<open>XORKeyStream(dst, src)\<close> returns the bytes written to \<^verbatim>\<open>dst\<close>.
\<close>

record stream =
  stream_key :: bytes
  stream_iv :: bytes
  stream_pos :: nat

definition NewCTR :: "bytes \<Rightarrow> bytes \<Rightarrow> stream" where
  "NewCTR key iv = \<lparr>stream_key = key, stream_iv = iv, stream_pos = 0\<rparr>"

definition XORKeyStream :: "stream \<Rightarrow> bytes \<Rightarrow> bytes \<times> stream" where
  "XORKeyStream s src =
     (xorBytes src (ctr_keystream (stream_key s) (stream_iv s) (stream_pos s) (length src)),
      s\<lparr>stream_pos := stream_pos s + length src\<rparr>)"

text \<open>A run of calls, one per chunk.\<close>

fun xor_chunks :: "('s \<Rightarrow> bytes \<Rightarrow> bytes \<times> 's) \<Rightarrow> 's \<Rightarrow> bytes list \<Rightarrow> bytes list \<times> 's" where
  "xor_chunks xks s [] = ([], s)"
| "xor_chunks xks s (c # cs) =
     (let (d, s') = xks s c; (ds, s'') = xor_chunks xks s' cs in (d # ds, s''))"

subsection \<open>Lengths\<close>

lemma length_sha256_Sum256 [simp]: "length (sha256_Sum256 m) = 32"
proof -
  have "length (sha_digest st) = 32" for st
    by (cases st rule: sha_digest.cases) simp
  then show ?thesis by (simp add: sha256_Sum256_def)
qed

lemma length_hmac_Sum [simp]: "length (hmac_Sum key m) = 32"
  by (simp add: hmac_Sum_def Let_def)

lemma length_ctr_keystream [simp]: "length (ctr_keystream key iv pos n) = n"
  by (simp add: ctr_keystream_def)

lemma ctr_keystream_append:
  "ctr_keystream key iv pos (m + n) = ctr_keystream key iv pos m @ ctr_keystream key iv (pos + m) n"
proof -
  have "[pos..<pos + (m + n)] = [pos..<pos + m] @ [pos + m..<pos + m + n]"
    using upt_add_eq_append [of pos "pos + m" n] by (simp add: add.assoc)
  then show ?thesis by (simp add: ctr_keystream_def)
qed

lemma ctr_keystream_nth [simp]:
  "i < n \<Longrightarrow> ctr_keystream key iv pos n ! i = ctr_byte key iv (pos + i)"
  by (simp add: ctr_keystream_def)

subsection \<open>The interface cipher.Stream\<close>

text \<open>
  What the proxy relies on: bytes are replaced one for one, a call on a longer input is the
  two calls on its parts, the state moves by the number of bytes only, and applying the same
  stream twice gives the input back.
\<close>

locale stream_cipher =
  fixes xks :: "'s \<Rightarrow> bytes \<Rightarrow> bytes \<times> 's"
  assumes xks_length: "length (fst (xks s xs)) = length xs"
    and xks_append: "xks s (xs @ ys) = (fst (xks s xs) @ fst (xks (snd (xks s xs)) ys), snd (xks (snd (xks s xs)) ys))"
    and xks_state: "length xs = length ys \<Longrightarrow> snd (xks s xs) = snd (xks s ys)"
    and xks_involutive: "fst (xks s (fst (xks s xs))) = xs"
begin

lemma xks_append_fst: "fst (xks s (xs @ ys)) = fst (xks s xs) @ fst (xks (snd (xks s xs)) ys)"
  by (simp add: xks_append)

lemma xks_append_snd: "snd (xks s (xs @ ys)) = snd (xks (snd (xks s xs)) ys)"
  by (simp add: xks_append)

lemma xks_state_fst: "snd (xks s (fst (xks s xs))) = snd (xks s xs)"
  by (rule xks_state) (simp add: xks_length)

text \<open>Chunking is invisible in the byte stream.\<close>

lemma xor_chunks_lengths: "map length (fst (xor_chunks xks s cs)) = map length cs"
  by (induction cs arbitrary: s) (simp_all add: xks_length split_beta)

lemma xor_chunks_concat:
  "cs \<noteq> [] \<Longrightarrow> concat (fst (xor_chunks xks s cs)) = fst (xks s (concat cs)) \<and>
     snd (xor_chunks xks s cs) = snd (xks s (concat cs))"
proof (induction cs arbitrary: s)
  case Nil
  then show ?case by simp
next
  case (Cons c cs)
  show ?case
  proof (cases "cs = []")
    case True
    then show ?thesis by (simp add: split_beta)
  next
    case False
    with Cons.IH [of "snd (xks s c)"] show ?thesis
      by (simp add: split_beta xks_append_fst xks_append_snd)
  qed
qed

end

lemma XORKeyStream_append:
  "XORKeyStream s (xs @ ys) =
     (fst (XORKeyStream s xs) @ fst (XORKeyStream (snd (XORKeyStream s xs)) ys),
      snd (XORKeyStream (snd (XORKeyStream s xs)) ys))"
  by (simp add: XORKeyStream_def ctr_keystream_append xorBytes_append add.assoc)

interpretation ctr: stream_cipher XORKeyStream
proof unfold_locales
  fix s xs ys
  show "length (fst (XORKeyStream s xs)) = length xs"
    by (simp add: XORKeyStream_def)
  show "XORKeyStream s (xs @ ys) =
      (fst (XORKeyStream s xs) @ fst (XORKeyStream (snd (XORKeyStream s xs)) ys),
       snd (XORKeyStream (snd (XORKeyStream s xs)) ys))"
    by (rule XORKeyStream_append)
  show "length xs = length ys \<Longrightarrow> snd (XORKeyStream s xs) = snd (XORKeyStream s ys)"
    by (simp add: XORKeyStream_def)
  show "fst (XORKeyStream s (fst (XORKeyStream s xs))) = xs"
    by (simp add: XORKeyStream_def xorBytes_cancel)
qed

lemma XORKeyStream_Nil [simp]: "XORKeyStream s [] = ([], s)"
  by (simp add: XORKeyStream_def xorBytes_def)

lemma XORKeyStream_nth:
  "i < length xs \<Longrightarrow> fst (XORKeyStream s xs) ! i =
     xs ! i XOR ctr_byte (stream_key s) (stream_iv s) (stream_pos s + i)"
  by (simp add: XORKeyStream_def nth_xorBytes)

end
