(* ===== verification/GoCryptoAnswers.thy ===== *)
theory GoCryptoAnswers
  imports GoCrypto
begin

text \<open>
  A known-answer test of \<open>GoCrypto\<close>: the published answer of FIPS 180-4 for the
  message \<^verbatim>\<open>abc\<close>, computed by the kernel from the definitions.
\<close>

lemma sha256_known_answer:
  "sha256_Sum256 [0x61, 0x62, 0x63] =
     [0xba, 0x78, 0x16, 0xbf, 0x8f, 0x01, 0xcf, 0xea, 0x41, 0x41, 0x40, 0xde, 0x5d, 0xae, 0x22, 0x23,
      0xb0, 0x03, 0x61, 0xa3, 0x96, 0x17, 0x7a, 0x9c, 0xb4, 0x10, 0xff, 0x61, 0xf2, 0x00, 0x15, 0xad]"
  by code_simp

end
