(* ===== verification/GoStrings.thy ===== *)
theory GoStrings
  imports Prelude
begin

text \<open>
  The functions of Go's \<^verbatim>\<open>strings\<close>, \<^verbatim>\<open>strconv\<close> and \<^verbatim>\<open>encoding/hex\<close> packages that the proxy
  calls. A Go string is a list of bytes and \<^verbatim>\<open>len\<close> counts bytes; here it is a list of
  characters of the same width. The functions that look at letters or white space
  (\<^verbatim>\<open>ToLower\<close>, \<^verbatim>\<open>TrimSpace\<close>, \<^verbatim>\<open>Fields\<close>) are modelled on ASCII text, which is what the
  configuration, the domain lists and \<^verbatim>\<open>/proc\<close> hold: bytes of other scripts are left as they
  are.
\<close>

subsection \<open>Characters\<close>

definition char_between :: "char \<Rightarrow> char \<Rightarrow> char \<Rightarrow> bool" where
  "char_between lo hi c \<longleftrightarrow> (of_char lo :: nat) \<le> of_char c \<and> (of_char c :: nat) \<le> of_char hi"

definition is_space :: "char \<Rightarrow> bool" where
  "is_space c \<longleftrightarrow> c = CHR '' '' \<or> char_between (CHR 0x09) (CHR 0x0D) c"

definition is_lower :: "char \<Rightarrow> bool" where
  "is_lower c = char_between (CHR ''a'') (CHR ''z'') c"

definition is_upper :: "char \<Rightarrow> bool" where
  "is_upper c = char_between (CHR ''A'') (CHR ''Z'') c"

definition is_digit :: "char \<Rightarrow> bool" where
  "is_digit c = char_between (CHR ''0'') (CHR ''9'') c"

definition lower_char :: "char \<Rightarrow> char" where
  "lower_char c = (if is_upper c then char_of ((of_char c :: nat) + 32) else c)"

subsection \<open>Strings\<close>

definition strings_ToLower :: "string \<Rightarrow> string" where
  "strings_ToLower s = map lower_char s"

definition trim_by :: "(char \<Rightarrow> bool) \<Rightarrow> string \<Rightarrow> string" where
  "trim_by P s = rev (dropWhile P (rev (dropWhile P s)))"

definition strings_TrimSpace :: "string \<Rightarrow> string" where
  "strings_TrimSpace s = trim_by is_space s"

text \<open>\<^verbatim>\<open>strings.Trim(s, c)\<close> for a one-character cutset.\<close>

definition strings_Trim :: "string \<Rightarrow> char \<Rightarrow> string" where
  "strings_Trim s c = trim_by (\<lambda>x. x = c) s"

definition strings_HasPrefix :: "string \<Rightarrow> string \<Rightarrow> bool" where
  "strings_HasPrefix s p \<longleftrightarrow> length p \<le> length s \<and> take (length p) s = p"

definition strings_HasSuffix :: "string \<Rightarrow> string \<Rightarrow> bool" where
  "strings_HasSuffix s p \<longleftrightarrow> length p \<le> length s \<and> drop (length s - length p) s = p"

definition strings_TrimSuffix :: "string \<Rightarrow> string \<Rightarrow> string" where
  "strings_TrimSuffix s p = (if strings_HasSuffix s p then take (length s - length p) s else s)"

definition strings_ContainsChar :: "string \<Rightarrow> char \<Rightarrow> bool" where
  "strings_ContainsChar s c \<longleftrightarrow> c \<in> set s"

text \<open>\<^verbatim>\<open>strings.Split(s, c)\<close> for a one-character separator, and \<^verbatim>\<open>strings.Join\<close>.\<close>

fun strings_Split :: "string \<Rightarrow> char \<Rightarrow> string list" where
  "strings_Split [] c = [[]]"
| "strings_Split (x # xs) c =
     (if x = c then [] # strings_Split xs c
      else (x # hd (strings_Split xs c)) # tl (strings_Split xs c))"

fun strings_Join :: "string list \<Rightarrow> string \<Rightarrow> string" where
  "strings_Join [] sep = []"
| "strings_Join [s] sep = s"
| "strings_Join (s # t # ss) sep = s @ sep @ strings_Join (t # ss) sep"

text \<open>\<^verbatim>\<open>strings.SplitN(s, c, 2)\<close>: at most one cut, at the first separator.\<close>

definition strings_SplitN2 :: "string \<Rightarrow> char \<Rightarrow> string list" where
  "strings_SplitN2 s c =
     (if c \<in> set s then [takeWhile (\<lambda>x. x \<noteq> c) s, tl (dropWhile (\<lambda>x. x \<noteq> c) s)] else [s])"

text \<open>\<^verbatim>\<open>strings.Fields\<close>: the maximal runs of characters that are not white space.\<close>

function strings_Fields :: "string \<Rightarrow> string list" where
  "strings_Fields s =
     (let t = dropWhile is_space s in
      if t = [] then []
      else takeWhile (\<lambda>c. \<not> is_space c) t # strings_Fields (dropWhile (\<lambda>c. \<not> is_space c) t))"
  by pat_completeness auto
termination
proof (relation "measure length")
  fix s t :: string
  assume t: "t = dropWhile is_space s" and "t \<noteq> []"
  then have "\<not> is_space (hd t)" by (metis hd_dropWhile)
  with \<open>t \<noteq> []\<close> have "length (dropWhile (\<lambda>c. \<not> is_space c) t) < length t"
    by (cases t) (simp_all add: le_imp_less_Suc length_dropWhile_le)
  also have "\<dots> \<le> length s" by (simp add: t length_dropWhile_le)
  finally show "(dropWhile (\<lambda>c. \<not> is_space c) t, s) \<in> measure length" by simp
qed simp

declare strings_Fields.simps [simp del]

subsection \<open>Numbers\<close>

fun nat_digits :: "nat \<Rightarrow> string" where
  "nat_digits n =
     (if n < 10 then [char_of (48 + n)] else nat_digits (n div 10) @ [char_of (48 + n mod 10)])"

declare nat_digits.simps [simp del]

definition strconv_Itoa :: "int \<Rightarrow> string" where
  "strconv_Itoa i = (if i < 0 then CHR ''-'' # nat_digits (nat (- i)) else nat_digits (nat i))"

definition digits_value :: "string \<Rightarrow> nat" where
  "digits_value s = foldl (\<lambda>v c. 10 * v + (of_char c - 48)) 0 s"

text \<open>
  \<^verbatim>\<open>strconv.ParseUint(s, 10, 64)\<close>: digits only, and \<^term>\<open>None\<close> for the syntax and range
  errors. \<^verbatim>\<open>strconv.Atoi\<close> takes one sign and the range of an \<^verbatim>\<open>int\<close> of the given width.
\<close>

definition strconv_ParseUint64 :: "string \<Rightarrow> nat option" where
  "strconv_ParseUint64 s =
     (if s \<noteq> [] \<and> list_all is_digit s \<and> digits_value s < 2 ^ 64 then Some (digits_value s) else None)"

definition strconv_Atoi :: "nat \<Rightarrow> string \<Rightarrow> int option" where
  "strconv_Atoi w s =
     (let neg = (s \<noteq> [] \<and> hd s = CHR ''-'');
          ds = (if s \<noteq> [] \<and> (hd s = CHR ''-'' \<or> hd s = CHR ''+'') then tl s else s);
          v = (if neg then - int (digits_value ds) else int (digits_value ds))
      in if ds \<noteq> [] \<and> list_all is_digit ds \<and> - (2 ^ (w - 1)) \<le> v \<and> v < 2 ^ (w - 1)
         then Some v else None)"

subsection \<open>Hexadecimal\<close>

definition hex_digit :: "nat \<Rightarrow> char" where
  "hex_digit n = (if n < 10 then char_of (48 + n) else char_of (87 + n))"

definition hex_EncodeToString :: "bytes \<Rightarrow> string" where
  "hex_EncodeToString bs = concat (map (\<lambda>b. [hex_digit (unat b div 16), hex_digit (unat b mod 16)]) bs)"

definition hex_value :: "char \<Rightarrow> nat option" where
  "hex_value c =
     (let v = of_char c :: nat
      in if 48 \<le> v \<and> v \<le> 57 then Some (v - 48)
         else if 97 \<le> v \<and> v \<le> 102 then Some (v - 87)
         else if 65 \<le> v \<and> v \<le> 70 then Some (v - 55)
         else None)"

fun hex_DecodeString :: "string \<Rightarrow> bytes option" where
  "hex_DecodeString [] = Some []"
| "hex_DecodeString [c] = None"
| "hex_DecodeString (c # d # s) =
     (case (hex_value c, hex_value d, hex_DecodeString s) of
        (Some a, Some b, Some bs) \<Rightarrow> Some (word_of_nat (16 * a + b) # bs)
      | _ \<Rightarrow> None)"

text \<open>\<^verbatim>\<open>[]byte(s)\<close>\<close>

definition string_bytes :: "string \<Rightarrow> bytes" where
  "string_bytes s = map (\<lambda>c. word_of_nat (of_char c)) s"

text \<open>\<^verbatim>\<open>net.JoinHostPort\<close>\<close>

definition net_JoinHostPort :: "string \<Rightarrow> string \<Rightarrow> string" where
  "net_JoinHostPort host port =
     (if CHR '':'' \<in> set host then ''['' @ host @ '']:'' @ port else host @ '':'' @ port)"

subsection \<open>Facts\<close>

lemma strings_Split_nonempty [simp]: "strings_Split s c \<noteq> []"
  by (cases s) auto

lemma strings_Join_Split: "strings_Join (strings_Split s c) [c] = s"
proof (induction s)
  case Nil
  then show ?case by simp
next
  case (Cons x xs)
  obtain p ps where split: "strings_Split xs c = p # ps"
    by (metis strings_Split_nonempty neq_Nil_conv)
  with Cons show ?case by (cases ps) auto
qed

lemma strings_Split_no_sep: "p \<in> set (strings_Split s c) \<Longrightarrow> c \<notin> set p"
proof (induction s arbitrary: p)
  case Nil
  then show ?case by simp
next
  case (Cons x xs)
  have "hd (strings_Split xs c) \<in> set (strings_Split xs c)" by simp
  with Cons show ?case by (auto split: if_splits dest: list.set_sel(2) [rotated])
qed

lemma set_strings_Split: "(\<Union>p\<in>set (strings_Split s c). set p) \<subseteq> set s"
proof (induction s)
  case Nil
  then show ?case by simp
next
  case (Cons x xs)
  obtain p ps where split: "strings_Split xs c = p # ps"
    by (metis strings_Split_nonempty neq_Nil_conv)
  with Cons show ?case by auto
qed

lemma set_trim_by: "set (trim_by P s) \<subseteq> set s"
  by (auto simp: trim_by_def dest!: set_dropWhileD)

lemma trim_by_hd: "trim_by P s \<noteq> [] \<Longrightarrow> \<not> P (hd (trim_by P s)) \<and> \<not> P (last (trim_by P s))"
proof -
  assume ne: "trim_by P s \<noteq> []"
  let ?t = "dropWhile P s" and ?u = "dropWhile P (rev (dropWhile P s))"
  have u: "?u \<noteq> []" using ne by (simp add: trim_by_def)
  then have last: "\<not> P (hd ?u)" by (metis hd_dropWhile)
  have t: "?t \<noteq> []" using u by (metis dropWhile.simps(1) rev.simps(1))
  then have "\<not> P (hd ?t)" by (metis hd_dropWhile)
  moreover have "hd (rev ?u) = hd ?t"
  proof -
    have "rev ?t = takeWhile P (rev ?t) @ ?u" by simp
    then have "?t = rev ?u @ rev (takeWhile P (rev ?t))" by (metis rev_append rev_rev_ident)
    then show ?thesis using u by (metis hd_append2 rev_is_Nil_conv)
  qed
  ultimately show ?thesis using last u by (simp add: trim_by_def last_rev)
qed

lemma trim_by_id: "s = [] \<or> (\<not> P (hd s) \<and> \<not> P (last s)) \<Longrightarrow> trim_by P s = s"
proof -
  have id: "t = [] \<or> \<not> P (hd t) \<Longrightarrow> dropWhile P t = t" for t by (cases t) auto
  assume "s = [] \<or> (\<not> P (hd s) \<and> \<not> P (last s))"
  then have "dropWhile P s = s" "dropWhile P (rev s) = rev s"
    by (auto intro!: id simp: hd_rev)
  then show ?thesis by (simp add: trim_by_def)
qed

lemma trim_by_idem [simp]: "trim_by P (trim_by P s) = trim_by P s"
  by (rule trim_by_id) (use trim_by_hd in blast)

lemma is_lower_lower_char: "is_upper c \<Longrightarrow> is_lower (lower_char c)"
  by (simp add: lower_char_def is_upper_def is_lower_def char_between_def)

lemma not_upper_lower_char [simp]: "\<not> is_upper (lower_char c)"
  using is_lower_lower_char [of c]
  by (cases "is_upper c") (auto simp: is_upper_def is_lower_def lower_char_def char_between_def)

lemma lower_char_idem [simp]: "lower_char (lower_char c) = lower_char c"
  by (subst lower_char_def) simp

lemma strings_ToLower_idem [simp]: "strings_ToLower (strings_ToLower s) = strings_ToLower s"
  by (simp add: strings_ToLower_def)

lemma length_hex_EncodeToString [simp]: "length (hex_EncodeToString bs) = 2 * length bs"
  by (induction bs) (simp_all add: hex_EncodeToString_def)

lemma hex_value_digit: "n < 16 \<Longrightarrow> hex_value (hex_digit n) = Some n"
  by (auto simp: hex_value_def hex_digit_def Let_def)

lemma hex_Decode_Encode: "hex_DecodeString (hex_EncodeToString bs) = Some bs"
proof (induction bs)
  case Nil
  then show ?case by (simp add: hex_EncodeToString_def)
next
  case (Cons b bs)
  have "unat b div 16 < 16" "unat b mod 16 < 16" using unat_byte_less [of b] by auto
  with Cons show ?case
    by (simp add: hex_EncodeToString_def hex_value_digit del: of_nat_add of_nat_mult)
qed

lemma digits_value_snoc: "digits_value (s @ [c]) = 10 * digits_value s + (of_char c - 48)"
  by (simp add: digits_value_def)

lemma digits_value_nat_digits: "digits_value (nat_digits n) = n"
proof (induction n rule: nat_digits.induct)
  case (1 n)
  have one: "digits_value [char_of (48 + k)] = k" if "k < 10" for k :: nat
    using that by (simp add: digits_value_def)
  show ?case
  proof (cases "n < 10")
    case True
    then show ?thesis using one by (subst nat_digits.simps) simp
  next
    case False
    then show ?thesis using 1 one [of "n mod 10"]
      by (subst nat_digits.simps) (simp add: digits_value_snoc digits_value_def)
  qed
qed

lemma nat_digits_inj [simp]: "nat_digits m = nat_digits n \<longleftrightarrow> m = n"
  by (metis digits_value_nat_digits)

lemma nat_digits_all: "list_all is_digit (nat_digits n) \<and> nat_digits n \<noteq> []"
proof (induction n rule: nat_digits.induct)
  case (1 n)
  have "is_digit (char_of (48 + k))" if "k < 10" for k :: nat
    using that by (simp add: is_digit_def char_between_def)
  then show ?case using 1 by (subst (1 2) nat_digits.simps) simp
qed

lemma nat_digits_form: "n \<noteq> 0 \<Longrightarrow> list_all is_digit (nat_digits n) \<and> nat_digits n \<noteq> [] \<and> hd (nat_digits n) \<noteq> CHR ''0''"
proof (induction n rule: nat_digits.induct)
  case (1 n)
  show ?case
  proof (cases "n < 10")
    case True
    then have "char_of (48 + n) \<noteq> CHR ''0''" using 1(2) by (auto dest: arg_cong [of _ _ "of_char :: char \<Rightarrow> nat"])
    then show ?thesis using True nat_digits_all [of n] by (simp add: nat_digits.simps [of n])
  next
    case False
    then have "hd (nat_digits (n div 10)) \<noteq> CHR ''0''" "nat_digits (n div 10) \<noteq> []" using 1(1) by auto
    then show ?thesis using False nat_digits_all [of n] by (simp add: nat_digits.simps [of n])
  qed
qed

end
