(* ===== verification/GoNet.thy ===== *)
theory GoNet
  imports Prelude
begin

text \<open>
  Go errors and connections. An error is what the code can ask of it: the answers of
  \<^verbatim>\<open>errors.Is\<close> and \<^verbatim>\<open>errors.As\<close> on its chain. A connection is the bytes that still arrive
  before it fails, the error it then reports, and the bytes written to it.
\<close>

subsection \<open>Errors\<close>

record goerror =
  isEOF :: bool
  isCanceled :: bool
  isDeadlineExceeded :: bool
  isOSDeadlineExceeded :: bool
  asNetTimeout :: bool
  isECONNRESET :: bool
  isWSAECONNRESET :: bool
  asDNSError :: bool
  errText :: string

definition newError :: "string \<Rightarrow> goerror" where
  "newError s =
     \<lparr>isEOF = False, isCanceled = False, isDeadlineExceeded = False, isOSDeadlineExceeded = False,
      asNetTimeout = False, isECONNRESET = False, isWSAECONNRESET = False, asDNSError = False, errText = s\<rparr>"

definition io_EOF :: goerror where
  "io_EOF = (newError ''EOF'')\<lparr>isEOF := True\<rparr>"

definition io_ErrUnexpectedEOF :: goerror where
  "io_ErrUnexpectedEOF = newError ''unexpected EOF''"

definition context_Canceled :: goerror where
  "context_Canceled = (newError ''context canceled'')\<lparr>isCanceled := True\<rparr>"

definition errNoDomains :: goerror where
  "errNoDomains = newError ''no domains to connect''"

definition isConnectionReset :: "bool \<Rightarrow> goerror option \<Rightarrow> bool" where
  "isConnectionReset windows err =
     (case err of None \<Rightarrow> False
      | Some e \<Rightarrow> (if windows then isWSAECONNRESET e \<or> isECONNRESET e else isECONNRESET e))"

definition isTimeoutError :: "goerror option \<Rightarrow> bool" where
  "isTimeoutError err =
     (case err of None \<Rightarrow> False
      | Some e \<Rightarrow> asNetTimeout e \<or> isDeadlineExceeded e \<or> isOSDeadlineExceeded e)"

definition isFrontingRetryError :: "bool \<Rightarrow> goerror option \<Rightarrow> bool" where
  "isFrontingRetryError windows err \<longleftrightarrow> isTimeoutError err \<or> isConnectionReset windows err"

definition isRedirect :: "int \<Rightarrow> bool" where
  "isRedirect code \<longleftrightarrow> code = 301 \<or> code = 302 \<or> code = 303 \<or> code = 307 \<or> code = 308"

subsection \<open>Connections\<close>

record netConn =
  inBytes :: bytes
  inErr :: goerror
  outBytes :: bytes
  outErr :: "goerror option"

text \<open>
  \<^verbatim>\<open>io.ReadFull(c, buf)\<close> for a buffer of \<open>n\<close> bytes, and \<^verbatim>\<open>io.CopyN(io.Discard, c, n)\<close>. Both
  are independent of how the network segments the bytes.
\<close>

definition io_ReadFull :: "netConn \<Rightarrow> nat \<Rightarrow> (goerror + bytes) \<times> netConn" where
  "io_ReadFull c n =
     (if n \<le> length (inBytes c)
      then (Inr (take n (inBytes c)), c\<lparr>inBytes := drop n (inBytes c)\<rparr>)
      else (Inl (if inBytes c = [] then inErr c
                 else if isEOF (inErr c) then io_ErrUnexpectedEOF else inErr c),
            c\<lparr>inBytes := []\<rparr>))"

definition io_DiscardN :: "netConn \<Rightarrow> nat \<Rightarrow> goerror option \<times> netConn" where
  "io_DiscardN c n =
     (if n \<le> length (inBytes c) then (None, c\<lparr>inBytes := drop n (inBytes c)\<rparr>)
      else (Some (inErr c), c\<lparr>inBytes := []\<rparr>))"

definition conn_Write :: "netConn \<Rightarrow> bytes \<Rightarrow> goerror option \<times> netConn" where
  "conn_Write c p =
     (case outErr c of None \<Rightarrow> (None, c\<lparr>outBytes := outBytes c @ p\<rparr>) | Some e \<Rightarrow> (Some e, c))"

subsection \<open>Reading from a byte stream\<close>

text \<open>
  What a client of \<^verbatim>\<open>io.ReadFull\<close> relies on, whether it reads a connection directly or through
  a layer that unwraps it: \<open>pending\<close> is the bytes that can still be read.
\<close>

locale full_reader =
  fixes readFull :: "'c \<Rightarrow> nat \<Rightarrow> (goerror + bytes) \<times> 'c"
    and pending :: "'c \<Rightarrow> bytes"
  assumes read_ok: "n \<le> length (pending c) \<Longrightarrow> fst (readFull c n) = Inr (take n (pending c))"
    and read_rest: "n \<le> length (pending c) \<Longrightarrow> pending (snd (readFull c n)) = drop n (pending c)"
    and read_short: "length (pending c) < n \<Longrightarrow> isl (fst (readFull c n))"
begin

lemma read_length: "fst (readFull c n) = Inr bs \<Longrightarrow> length bs = n"
  using read_ok [of n c] read_short [of c n] by (cases "n \<le> length (pending c)") auto

lemma read_prefix: "fst (readFull c n) = Inr bs \<Longrightarrow> pending c = bs @ pending (snd (readFull c n))"
  using read_ok [of n c] read_rest [of n c] read_short [of c n] by (cases "n \<le> length (pending c)") auto

lemma read_two:
  assumes "fst (readFull c m) = Inr xs" and "fst (readFull (snd (readFull c m)) n) = Inr ys"
  shows "take (m + n) (pending c) = xs @ ys"
  using read_prefix [OF assms(1)] read_prefix [OF assms(2)] read_length [OF assms(1)] read_length [OF assms(2)]
  by simp

end

interpretation raw: full_reader io_ReadFull inBytes
  by unfold_locales (simp_all add: io_ReadFull_def)

lemma io_ReadFull_decreases:
  "io_ReadFull c n = (Inr bs, c') \<Longrightarrow> length (inBytes c') + n = length (inBytes c)"
  by (auto simp: io_ReadFull_def split: if_splits)

lemma io_DiscardN_decreases:
  "io_DiscardN c n = (None, c') \<Longrightarrow> length (inBytes c') + n = length (inBytes c)"
  by (auto simp: io_DiscardN_def split: if_splits)

end
