(* ===== verification/ProxyTypes.thy ===== *)
theory ProxyTypes
  imports GoStrings GoNet
begin

text \<open>
  The data types of \<^verbatim>\<open>src/src/types.go\<close> and the constants of \<^verbatim>\<open>src/src/constants.go\<close> that several
  components use. The maps the program iterates over (\<^verbatim>\<open>DCMap\<close>, \<^verbatim>\<open>DCPool\<close>) are association
  lists in the order of one iteration; the others are maps, and a nil map is the empty one. A
  configuration has every field of the source's but the context, the lock and the floating
  point \<^verbatim>\<open>LogMaxMB\<close>.
\<close>

record fallbackDialKey =
  fdkDomain :: string
  fdkWorker :: bool

record Config =
  fakeTLSAppDataLen :: int
  Host :: string
  Port :: int
  SecretHex :: string
  GenSecret :: bool
  PrintLink :: bool
  FakeTLSDomain :: string
  DCMap :: "(int \<times> string) list"
  DCPool :: "(int \<times> string list) list"
  FallbackCFProxy :: bool
  FallbackCFProxyPriority :: bool
  FallbackCFProxyDomain :: string
  FallbackCFProxyUserDomain :: bool
  FallbackCFProxyRefresh :: bool
  FallbackCFProxyDomainsURL :: string
  FallbackCFProxyDomains :: "string list"
  FallbackCFProxyWorkerDomains :: "string list"
  FallbackCFProxyActive :: string
  FallbackCFProxyPerDCActive :: "int \<rightharpoonup> string"
  Verbose :: bool
  BufKB :: int
  PoolSize :: int
  MaxConns :: int
  LogFile :: string
  LogBackups :: int
  PprofListen :: string
  cfproxyFailUntil :: "string \<rightharpoonup> instant"
  cfworkerFailUntil :: "string \<rightharpoonup> instant"
  fallbackDials :: "fallbackDialKey \<rightharpoonup> int"

text \<open>\<^verbatim>\<open>&Config{}\<close>: every field has its zero value.\<close>

definition zeroConfig :: Config where
  "zeroConfig =
     \<lparr>fakeTLSAppDataLen = 0, Host = [], Port = 0, SecretHex = [], GenSecret = False, PrintLink = False,
      FakeTLSDomain = [], DCMap = [], DCPool = [], FallbackCFProxy = False, FallbackCFProxyPriority = False,
      FallbackCFProxyDomain = [], FallbackCFProxyUserDomain = False, FallbackCFProxyRefresh = False,
      FallbackCFProxyDomainsURL = [], FallbackCFProxyDomains = [], FallbackCFProxyWorkerDomains = [],
      FallbackCFProxyActive = [], FallbackCFProxyPerDCActive = Map.empty, Verbose = False, BufKB = 0,
      PoolSize = 0, MaxConns = 0, LogFile = [], LogBackups = 0, PprofListen = [], cfproxyFailUntil = Map.empty,
      cfworkerFailUntil = Map.empty, fallbackDials = Map.empty\<rparr>"

record Stats =
  connectionsTotal :: int
  connectionsActive :: int
  connectionsWS :: int
  connectionsTCP :: int
  connectionsCF :: int
  connectionsFront :: int
  connectionsBad :: int
  wsErrors :: int
  bytesUp :: int
  bytesDown :: int
  poolHits :: int
  poolMisses :: int
  workerPoolHits :: int
  workerPoolMisses :: int

definition zeroStats :: Stats where
  "zeroStats =
     \<lparr>connectionsTotal = 0, connectionsActive = 0, connectionsWS = 0, connectionsTCP = 0, connectionsCF = 0,
      connectionsFront = 0, connectionsBad = 0, wsErrors = 0, bytesUp = 0, bytesDown = 0, poolHits = 0,
      poolMisses = 0, workerPoolHits = 0, workerPoolMisses = 0\<rparr>"

record dcKey =
  dkDC :: int
  dkIsMedia :: bool

text \<open>\<^verbatim>\<open>m[k]\<close>: the zero value when the key is absent.\<close>

definition map_get :: "'v \<Rightarrow> ('k \<rightharpoonup> 'v) \<Rightarrow> 'k \<Rightarrow> 'v" where
  "map_get zero m k = (case m k of None \<Rightarrow> zero | Some v \<Rightarrow> v)"

lemma map_get_Some [simp]: "m k = Some v \<Longrightarrow> map_get z m k = v"
  and map_get_None [simp]: "m k = None \<Longrightarrow> map_get z m k = z"
  by (simp_all add: map_get_def)

lemma map_get_upd [simp]: "map_get z (m(k := v)) k' = (if k' = k then (case v of None \<Rightarrow> z | Some x \<Rightarrow> x) else map_get z m k')"
  by (simp add: map_get_def)

lemma map_get_empty [simp]: "map_get z Map.empty k = z"
  by (simp add: map_get_def)

subsection \<open>Constants\<close>

definition fallbackMaxDialsPerDomain :: int where "fallbackMaxDialsPerDomain = 4"
definition cfProxyMaxAttempts :: nat where "cfProxyMaxAttempts = 3"
definition cfProxyDNSFailCooldown :: duration where "cfProxyDNSFailCooldown = 5 * Minute"
definition cfProxyFailCooldown :: duration where "cfProxyFailCooldown = 1 * Minute"
definition defaultCFProxyRefreshMinValidDomains :: nat where "defaultCFProxyRefreshMinValidDomains = 3"
definition cfProxyKnownDCs :: "int list" where "cfProxyKnownDCs = [1, 2, 3, 4, 5, 203]"

definition cfProxyDefaultDomainPool :: "string list" where
  "cfProxyDefaultDomainPool =
     [''virkgj.com'', ''vmmzovy.com'', ''mkuosckvso.com'', ''zaewayzmplad.com'', ''twdmbzcm.com'',
      ''awzwsldi.com'', ''clngqrflngqin.com'', ''tjacxbqtj.com'', ''bxaxtxmrw.com'', ''dmohrsgmohcrwb.com'',
      ''vwbmtmoi.com'', ''khgrre.com'', ''ulihssf.com'', ''tmhqsdqmfpmk.com'', ''xwuwoqbm.com'',
      ''orgcnunpj.com'', ''zhkuldz.com'', ''zypoljnslxa.com'', ''efabnxaowuzs.com'', ''zaftuzsftqdq.com'']"

end
