(* ===== verification/ProxyState.thy ===== *)
theory ProxyState
  imports ProxyTypes
begin

text \<open>
  The global state of \<^verbatim>\<open>src/src/state.go\<close>: the time until which domain fronting is preferred,
  and the datacentre list in the order it is logged.
\<close>

definition frontingCooldown :: duration where "frontingCooldown = 30 * Minute"

text \<open>\<^verbatim>\<open>frontingUntil\<close> is an \<^typ>\<open>instant\<close>; the zero time is \<open>0\<close>.\<close>

definition setFrontingActive :: "instant \<Rightarrow> instant" where
  "setFrontingActive now = now + frontingCooldown"

definition clearFrontingActive :: instant where
  "clearFrontingActive = 0"

definition frontingActive :: "instant \<Rightarrow> instant \<Rightarrow> bool" where
  "frontingActive now frontingUntil \<longleftrightarrow> now < frontingUntil"

text \<open>
  \<^verbatim>\<open>sortedDCMap\<close>: the items of the map in the order of one iteration, sorted by datacentre. The
  keys are distinct, so that the unstable \<^verbatim>\<open>sort.Slice\<close> has only one result.
\<close>

definition sortedDCMap :: "(int \<times> string) list \<Rightarrow> (int \<times> string) list" where
  "sortedDCMap m = sort_key fst m"

lemma distinct_keys_value:
  assumes "distinct (map fst ys)" and "x \<in> set ys" and "y \<in> set ys" and "fst x = fst y"
  shows "x = y"
  using assms by (metis eq_key_imp_eq_value prod.collapse)

lemma sortedDCMap_order_irrelevant:
  assumes "distinct (map fst m)" and "distinct (map fst m')" and "set m = set m'"
  shows "sortedDCMap m = sortedDCMap m'"
proof -
  let ?a = "sortedDCMap m" and ?b = "sortedDCMap m'"
  have sorted: "sorted (map fst ?a)" "sorted (map fst ?b)" by (simp_all add: sortedDCMap_def)
  have dist: "distinct (map fst ?a)" "distinct (map fst ?b)" and set: "set ?a = set ?b"
    using assms by (simp_all add: sortedDCMap_def distinct_map)
  have keys: "map fst ?a = map fst ?b"
    using sorted dist set by (intro sorted_distinct_set_unique) auto
  show ?thesis
  proof (rule nth_equalityI)
    show len: "length ?a = length ?b" using keys by (metis length_map)
    fix i assume i: "i < length ?a"
    have "fst (?a ! i) = fst (?b ! i)" using keys i len by (metis nth_map)
    then show "?a ! i = ?b ! i"
      using distinct_keys_value [OF dist(2)] i len set by (metis nth_mem)
  qed
qed

end
