(* ===== verification/Splitter.thy ===== *)
theory Splitter
  imports Prelude
begin

text \<open>
  The message splitter of \<^verbatim>\<open>src/src/splitter.go\<close>. The decrypted byte stream of a client is
  cut into MTProto transport packets, so that each WebSocket message sent upstream holds
  exactly one of them. A header that does not parse disables the splitter, and from then on
  the bytes pass through as they arrive.

  The locale \<open>packet_framer\<close> states what the cutting loop needs from a length function;
  it is interpreted on the model's \<open>nextPacketLen\<close>.
\<close>

subsection \<open>Data\<close>

definition protoAbridgedInt :: "32 word" where "protoAbridgedInt = 0xEFEFEFEF"
definition protoIntermediateInt :: "32 word" where "protoIntermediateInt = 0xEEEEEEEE"
definition protoPaddedIntermediateInt :: "32 word" where "protoPaddedIntermediateInt = 0xDDDDDDDD"

definition maxSplitterPacketBytes :: nat where
  "maxSplitterPacketBytes = 8 * 1024 * 1024"

record msgSplitter =
  proto :: "32 word"
  plainBuf :: bytes
  disabled :: bool

text \<open>\<^verbatim>\<open>&msgSplitter{proto: p}\<close>\<close>

definition newSplitter :: "32 word \<Rightarrow> msgSplitter" where
  "newSplitter p = \<lparr>proto = p, plainBuf = [], disabled = False\<rparr>"

subsection \<open>Packet lengths\<close>

text \<open>
  The three length functions return \<open>-1\<close> for a packet that is not complete yet, \<open>0\<close> for a
  header that cannot be split, and the packet's length otherwise.
\<close>

fun nextAbridgedLen :: "bytes \<Rightarrow> int" where
  "nextAbridgedLen [] = -1"
| "nextAbridgedLen (first # rest) =
     (let buf = first # rest in
      if (first = 0x7F \<or> first = 0xFF) \<and> length buf < 4 then -1
      else
        let (headerLen, payloadLen) =
              (if first = 0x7F \<or> first = 0xFF
               then (4, uint (ucast (buf ! 1) OR push_bit 8 (ucast (buf ! 2))
                              OR push_bit 16 (ucast (buf ! 3)) :: 32 word) * 4)
               else (1, uint (first AND 0x7F) * 4));
            packetLen = headerLen + payloadLen
        in if payloadLen \<le> 0 then 0
           else if packetLen > int maxSplitterPacketBytes then 0
           else if int (length buf) < packetLen then -1
           else packetLen)"

fun nextIntermediateLen :: "bytes \<Rightarrow> int" where
  "nextIntermediateLen (b0 # b1 # b2 # b3 # rest) =
     (let payloadLen = leUint32 b0 b1 b2 b3 AND 0x7FFFFFFF;
          packetLen = 4 + uint payloadLen
      in if payloadLen = 0 \<or> uint payloadLen > int maxSplitterPacketBytes - 4 then 0
         else if int (length (b0 # b1 # b2 # b3 # rest)) < packetLen then -1
         else packetLen)"
| "nextIntermediateLen _ = -1"

definition nextPacketLen :: "32 word \<Rightarrow> bytes \<Rightarrow> int" where
  "nextPacketLen p buf =
     (if buf = [] then -1
      else if p = protoAbridgedInt then nextAbridgedLen buf
      else if p = protoIntermediateInt \<or> p = protoPaddedIntermediateInt then nextIntermediateLen buf
      else 0)"

subsection \<open>Splitting\<close>

text \<open>
  The loop of \<^verbatim>\<open>split\<close>: it takes one packet off the buffer per turn. The slice expressions
  \<^verbatim>\<open>m.plainBuf[:next]\<close> and \<^verbatim>\<open>m.plainBuf[next:]\<close> are in range by lemma \<open>nextPacketLen_le\<close>.
\<close>

function split_loop :: "msgSplitter \<Rightarrow> bytes list \<Rightarrow> bytes list \<times> msgSplitter" where
  "split_loop m parts =
     (if plainBuf m = [] then (parts, m)
      else
        let next = nextPacketLen (proto m) (plainBuf m) in
        if next < 0 then (parts, m)
        else if next = 0 then (parts @ [plainBuf m], m\<lparr>plainBuf := [], disabled := True\<rparr>)
        else split_loop (m\<lparr>plainBuf := drop (nat next) (plainBuf m)\<rparr>)
               (parts @ [take (nat next) (plainBuf m)]))"
  by pat_completeness auto
termination
  by (relation "measure (\<lambda>(m, parts). length (plainBuf m))") auto

declare split_loop.simps [simp del]

definition splitter_split :: "msgSplitter \<Rightarrow> bytes \<Rightarrow> bytes list \<times> msgSplitter" where
  "splitter_split m chunk =
     (if chunk = [] then ([], m)
      else if disabled m then ([chunk], m)
      else if length (plainBuf m) + length chunk > maxSplitterPacketBytes then
        ((if plainBuf m \<noteq> [] then [plainBuf m] else []) @ [chunk],
         m\<lparr>plainBuf := [], disabled := True\<rparr>)
      else split_loop (m\<lparr>plainBuf := plainBuf m @ chunk\<rparr>) [])"

definition splitter_flush :: "msgSplitter \<Rightarrow> bytes list \<times> msgSplitter" where
  "splitter_flush m =
     (if plainBuf m = [] then ([], m) else ([plainBuf m], m\<lparr>plainBuf := []\<rparr>))"

text \<open>The reads of a session, one call of \<^verbatim>\<open>split\<close> per chunk.\<close>

fun split_chunks :: "msgSplitter \<Rightarrow> bytes list \<Rightarrow> bytes list \<times> msgSplitter" where
  "split_chunks m [] = ([], m)"
| "split_chunks m (c # cs) =
     (let (ps, m1) = splitter_split m c; (qs, m2) = split_chunks m1 cs in (ps @ qs, m2))"

subsection \<open>The transport encodings\<close>

text \<open>
  What a client sends, from the MTProto transport documentation: the abridged header counts
  four-byte words in one byte or in three after \<open>0x7F\<close>, the intermediate header is the
  length in four little-endian bytes. The top bit of the header asks for a quick
  acknowledgement.
\<close>

definition encodeAbridged :: "bool \<Rightarrow> bytes \<Rightarrow> bytes" where
  "encodeAbridged ack payload =
     (let n = length payload div 4; top = (if ack then 0x80 else 0) :: byte
      in (if n < 0x7F then [top OR word_of_nat n]
          else (top OR 0x7F) # take 3 (putLEUint32 (word_of_nat n))) @ payload)"

definition encodeIntermediate :: "bool \<Rightarrow> bytes \<Rightarrow> bytes" where
  "encodeIntermediate ack payload =
     putLEUint32 (word_of_nat (length payload) OR (if ack then 0x80000000 else 0)) @ payload"

definition encodePacket :: "32 word \<Rightarrow> bool \<times> bytes \<Rightarrow> bytes" where
  "encodePacket p msg =
     (if p = protoAbridgedInt then encodeAbridged (fst msg) (snd msg)
      else encodeIntermediate (fst msg) (snd msg))"

text \<open>
  A message that fits: the abridged transport counts words, and a packet together with one
  read of the 64 KiB buffer stays within the splitter's limit.
\<close>

definition sendable :: "32 word \<Rightarrow> bool \<times> bytes \<Rightarrow> bool" where
  "sendable p msg \<longleftrightarrow>
     snd msg \<noteq> [] \<and> (p = protoAbridgedInt \<longrightarrow> 4 dvd length (snd msg)) \<and>
     length (snd msg) + 4 + 64 * 1024 \<le> maxSplitterPacketBytes"

subsection \<open>The invariant\<close>

definition splitter_ok :: "msgSplitter \<Rightarrow> bool" where
  "splitter_ok m \<longleftrightarrow>
     length (plainBuf m) \<le> maxSplitterPacketBytes \<and> (disabled m \<longrightarrow> plainBuf m = [])"

subsection \<open>Facts on packet lengths\<close>

lemma nextAbridgedLen_le: "nextAbridgedLen buf \<le> int (length buf)"
  by (cases buf) (auto simp: Let_def split: if_splits)

lemma nextIntermediateLen_le: "nextIntermediateLen buf \<le> int (length buf)"
  by (cases buf rule: nextIntermediateLen.cases) (auto simp: Let_def)

lemma nextPacketLen_le: "nextPacketLen p buf \<le> int (length buf)"
  by (simp add: nextPacketLen_def nextAbridgedLen_le nextIntermediateLen_le)

lemma nextAbridgedLen_append:
  "0 \<le> nextAbridgedLen buf \<Longrightarrow> nextAbridgedLen (buf @ tail) = nextAbridgedLen buf"
proof (cases buf)
  case (Cons first rest)
  assume nonneg: "0 \<le> nextAbridgedLen buf"
  show ?thesis
  proof (cases "first = 0x7F \<or> first = 0xFF")
    case True
    with nonneg Cons have "\<not> length buf < 4" by auto
    then obtain b1 b2 b3 r where "rest = b1 # b2 # b3 # r"
      using Cons by (auto simp: not_less numeral_eq_Suc Suc_le_length_iff)
    with True nonneg Cons show ?thesis
      by (simp add: Let_def split: if_split_asm)
  next
    case False
    with nonneg Cons show ?thesis by (simp add: Let_def split: if_split_asm)
  qed
qed simp

lemma nextIntermediateLen_append:
  "0 \<le> nextIntermediateLen buf \<Longrightarrow> nextIntermediateLen (buf @ tail) = nextIntermediateLen buf"
  by (cases buf rule: nextIntermediateLen.cases) (auto simp: Let_def split: if_splits)

lemma nextPacketLen_append:
  "0 \<le> nextPacketLen p buf \<Longrightarrow> nextPacketLen p (buf @ tail) = nextPacketLen p buf"
  by (auto simp: nextPacketLen_def nextAbridgedLen_append nextIntermediateLen_append split: if_splits)

subsection \<open>Cutting a stream with a length function\<close>

text \<open>
  The abstract splitter: cut the whole buffer with a length function; the result is the
  packets, the bytes left over and whether an unsplittable header was met.
\<close>

function cut_stream :: "(bytes \<Rightarrow> int) \<Rightarrow> bytes \<Rightarrow> bytes list \<times> bytes \<times> bool" where
  "cut_stream f buf =
     (if buf = [] \<or> f buf < 0 then ([], buf, False)
      else if f buf = 0 then ([buf], [], True)
      else let (ps, r, d) = cut_stream f (drop (nat (f buf)) buf)
           in (take (nat (f buf)) buf # ps, r, d))"
  by pat_completeness auto
termination
  by (relation "measure (\<lambda>(f, buf). length buf)") auto

declare cut_stream.simps [simp del]

lemma cut_stream_wait [framing_simps]:
  "buf = [] \<or> f buf < 0 \<Longrightarrow> cut_stream f buf = ([], buf, False)"
  by (subst cut_stream.simps) simp

lemma cut_stream_stop [framing_simps]:
  "buf \<noteq> [] \<Longrightarrow> f buf = 0 \<Longrightarrow> cut_stream f buf = ([buf], [], True)"
  by (subst cut_stream.simps) simp

lemma cut_stream_step [framing_simps]:
  "buf \<noteq> [] \<Longrightarrow> 0 < f buf \<Longrightarrow>
   cut_stream f buf =
     (take (nat (f buf)) buf # fst (cut_stream f (drop (nat (f buf)) buf)),
      snd (cut_stream f (drop (nat (f buf)) buf)))"
  by (subst cut_stream.simps) (simp add: split_beta)

lemma cut_stream_concat:
  "concat (fst (cut_stream f buf)) @ fst (snd (cut_stream f buf)) = buf"
proof (induction f buf rule: cut_stream.induct)
  case (1 f buf)
  consider "buf = [] \<or> f buf < 0" | "buf \<noteq> []" "f buf = 0" | "buf \<noteq> []" "0 < f buf"
    by linarith
  then show ?case
    by cases (use "1.IH" in \<open>auto simp: framing_simps\<close>)
qed

lemma cut_stream_stop_rest: "snd (snd (cut_stream f buf)) \<Longrightarrow> fst (snd (cut_stream f buf)) = []"
proof (induction f buf rule: cut_stream.induct)
  case (1 f buf)
  consider "buf = [] \<or> f buf < 0" | "buf \<noteq> []" "f buf = 0" | "buf \<noteq> []" "0 < f buf"
    by linarith
  then show ?case
    by cases (use 1 in \<open>auto simp: framing_simps\<close>)
qed

lemma cut_stream_rest_length: "length (fst (snd (cut_stream f buf))) \<le> length buf"
  using arg_cong [OF cut_stream_concat [of f buf], of length] by simp

text \<open>
  A framer never claims more bytes than it was given, and what it decides on a prefix it
  decides on every extension. Under these laws the packets do not depend on how the stream
  was segmented.
\<close>

locale packet_framer =
  fixes next_len :: "bytes \<Rightarrow> int"
  assumes next_le: "next_len buf \<le> int (length buf)"
    and next_extend: "0 \<le> next_len buf \<Longrightarrow> next_len (buf @ tail) = next_len buf"
begin

lemma cut_extend:
  assumes "\<not> snd (snd (cut_stream next_len buf))"
  shows "cut_stream next_len (buf @ tail) =
    (fst (cut_stream next_len buf) @ fst (cut_stream next_len (fst (snd (cut_stream next_len buf)) @ tail)),
     snd (cut_stream next_len (fst (snd (cut_stream next_len buf)) @ tail)))"
  using assms
proof (induction "length buf" arbitrary: buf rule: less_induct)
  case less
  consider "buf = [] \<or> next_len buf < 0" | "buf \<noteq> []" "next_len buf = 0" | "buf \<noteq> []" "0 < next_len buf"
    by linarith
  then show ?case
  proof cases
    case 1
    then show ?thesis by (simp add: cut_stream_wait)
  next
    case 2
    with less.prems show ?thesis by (simp add: cut_stream_stop)
  next
    case 3
    let ?n = "nat (next_len buf)"
    have n: "?n \<le> length buf" using next_le [of buf] by simp
    have ext: "next_len (buf @ tail) = next_len buf" using 3 next_extend by simp
    have "length (drop ?n buf) < length buf" using 3 by simp
    moreover have "\<not> snd (snd (cut_stream next_len (drop ?n buf)))"
      using less.prems 3 by (simp add: cut_stream_step)
    ultimately show ?thesis
      using less.hyps [of "drop ?n buf"] 3 n by (simp add: cut_stream_step ext)
  qed
qed

text \<open>Whole packets, however they arrive: \<open>ps\<close> is the list of packets still to come.\<close>

definition packet :: "bytes \<Rightarrow> bool" where
  "packet p \<longleftrightarrow> p \<noteq> [] \<and> next_len p = int (length p)"

lemma cut_packets:
  assumes "list_all packet ps"
  shows "cut_stream next_len (concat ps) = (ps, [], False)"
  using assms
proof (induction ps)
  case Nil
  then show ?case by (simp add: cut_stream_wait)
next
  case (Cons p ps)
  then have p: "p \<noteq> []" "next_len p = int (length p)" by (simp_all add: packet_def)
  then have "next_len (p @ concat ps) = int (length p)" by (simp add: next_extend)
  with Cons p show ?case by (simp add: cut_stream_step)
qed

text \<open>A proper prefix of a stream of packets: the complete packets and a shorter remainder.\<close>

lemma cut_prefix:
  assumes "list_all packet ps" and "concat ps = buf @ tail"
  shows "\<exists>qs rs. ps = qs @ rs \<and>
    cut_stream next_len buf = (qs, fst (snd (cut_stream next_len buf)), False) \<and>
    concat rs = fst (snd (cut_stream next_len buf)) @ tail \<and>
    (rs = [] \<or> length (fst (snd (cut_stream next_len buf))) < length (hd rs))"
  using assms
proof (induction ps arbitrary: buf)
  case Nil
  then show ?case by (simp add: cut_stream_wait)
next
  case (Cons p ps)
  then have p: "p \<noteq> []" "next_len p = int (length p)" by (simp_all add: packet_def)
  have ps: "list_all packet ps" using Cons.prems by simp
  show ?case
  proof (cases "length p \<le> length buf")
    case True
    then obtain buf' where buf: "buf = p @ buf'" and rest: "concat ps = buf' @ tail"
      using Cons.prems(2) by (auto simp: append_eq_append_conv_if) (metis append_take_drop_id)
    have step: "cut_stream next_len buf = (p # fst (cut_stream next_len buf'), snd (cut_stream next_len buf'))"
      using p next_extend [of p buf'] by (simp add: buf cut_stream_step)
    from Cons.IH [OF ps rest] show ?thesis
      by (metis step append_Cons fst_conv snd_conv)
  next
    case False
    have "take (length buf) p = buf"
      using arg_cong [OF Cons.prems(2), of "take (length buf)"] False by simp
    then obtain p' where p': "p = buf @ p'" by (metis append_take_drop_id)
    have "buf = [] \<or> next_len buf < 0"
    proof (rule ccontr)
      assume "\<not> (buf = [] \<or> next_len buf < 0)"
      then have "next_len p = next_len buf" using next_extend [of buf p'] p' by simp
      with p False next_le [of buf] show False by simp
    qed
    then have "cut_stream next_len buf = ([], buf, False)" by (simp add: cut_stream_wait)
    with Cons.prems(2) False show ?thesis
      by (intro exI [of _ "[]"] exI [of _ "p # ps"]) simp
  qed
qed

end

interpretation framer: packet_framer "nextPacketLen p" for p
  by unfold_locales (simp_all add: nextPacketLen_le nextPacketLen_append)

subsection \<open>The splitter refines the abstract cut\<close>

lemma split_loop_cut:
  "split_loop m parts =
     (parts @ fst (cut_stream (nextPacketLen (proto m)) (plainBuf m)),
      m\<lparr>plainBuf := fst (snd (cut_stream (nextPacketLen (proto m)) (plainBuf m))),
        disabled := disabled m \<or> snd (snd (cut_stream (nextPacketLen (proto m)) (plainBuf m)))\<rparr>)"
proof (induction m parts rule: split_loop.induct)
  case (1 m parts)
  let ?f = "nextPacketLen (proto m)"
  consider "plainBuf m = [] \<or> ?f (plainBuf m) < 0" | "plainBuf m \<noteq> []" "?f (plainBuf m) = 0"
    | "plainBuf m \<noteq> []" "0 < ?f (plainBuf m)"
    by linarith
  then show ?case
  proof cases
    case 1
    then show ?thesis by (subst split_loop.simps) (auto simp: cut_stream_wait Let_def)
  next
    case 2
    then show ?thesis by (subst split_loop.simps) (simp add: cut_stream_stop Let_def)
  next
    case 3
    then show ?thesis
      using "1.IH" by (subst split_loop.simps) (simp add: cut_stream_step Let_def)
  qed
qed

lemma splitter_split_cut:
  assumes "c \<noteq> []" and "\<not> disabled m" and "length (plainBuf m) + length c \<le> maxSplitterPacketBytes"
  shows "splitter_split m c =
    (fst (cut_stream (nextPacketLen (proto m)) (plainBuf m @ c)),
     m\<lparr>plainBuf := fst (snd (cut_stream (nextPacketLen (proto m)) (plainBuf m @ c))),
       disabled := snd (snd (cut_stream (nextPacketLen (proto m)) (plainBuf m @ c)))\<rparr>)"
  using assms by (simp add: splitter_split_def split_loop_cut)

lemma splitter_split_proto [simp]: "proto (snd (splitter_split m c)) = proto m"
  by (simp add: splitter_split_def split_loop_cut)

lemma splitter_split_integrity:
  assumes "splitter_ok m"
  shows "concat (fst (splitter_split m c)) @ plainBuf (snd (splitter_split m c)) = plainBuf m @ c"
  using assms by (simp add: splitter_split_def split_loop_cut cut_stream_concat splitter_ok_def)

lemma splitter_split_ok:
  assumes "splitter_ok m"
  shows "splitter_ok (snd (splitter_split m c))"
proof -
  let ?cut = "cut_stream (nextPacketLen (proto m)) (plainBuf m @ c)"
  have "length (fst (snd ?cut)) \<le> length (plainBuf m) + length c"
    using cut_stream_rest_length [of "nextPacketLen (proto m)" "plainBuf m @ c"] by simp
  then show ?thesis
    using assms by (auto simp: splitter_split_def split_loop_cut splitter_ok_def cut_stream_stop_rest)
qed

lemma newSplitter_ok: "splitter_ok (newSplitter p)"
  by (simp add: splitter_ok_def newSplitter_def)

lemma split_chunks_ok: "splitter_ok m \<Longrightarrow> splitter_ok (snd (split_chunks m cs))"
  by (induction cs arbitrary: m) (simp_all add: split_beta splitter_split_ok)

lemma split_chunks_integrity:
  "splitter_ok m \<Longrightarrow>
   concat (fst (split_chunks m cs)) @ plainBuf (snd (split_chunks m cs)) = plainBuf m @ concat cs"
proof (induction cs arbitrary: m)
  case Nil
  then show ?case by simp
next
  case (Cons c cs)
  have "plainBuf m @ c @ concat cs =
      concat (fst (splitter_split m c)) @ plainBuf (snd (splitter_split m c)) @ concat cs"
    using splitter_split_integrity [OF Cons.prems] by (metis append.assoc)
  then show ?case
    using Cons.IH [OF splitter_split_ok [OF Cons.prems]] by (simp add: split_beta)
qed

lemma splitter_flush_integrity: "concat (fst (splitter_flush m)) = plainBuf m"
  by (simp add: splitter_flush_def)

text \<open>
  What the bridge relies on, whatever cuts the client's bytes into messages: the parts handed
  out and what stays buffered are the bytes that went in, and a flush hands out the rest.
\<close>

locale part_splitter =
  fixes split :: "'s \<Rightarrow> bytes \<Rightarrow> bytes list \<times> 's"
    and flush :: "'s \<Rightarrow> bytes list \<times> 's"
    and buffered :: "'s \<Rightarrow> bytes"
    and ok :: "'s \<Rightarrow> bool"
  assumes split_integrity: "ok s \<Longrightarrow> concat (fst (split s c)) @ buffered (snd (split s c)) = buffered s @ c"
    and split_ok: "ok s \<Longrightarrow> ok (snd (split s c))"
    and flush_integrity: "concat (fst (flush s)) = buffered s"
begin

lemma split_then_flush:
  assumes "ok s"
  shows "concat (fst (split s c) @ fst (flush (snd (split s c)))) = buffered s @ c"
  using split_integrity [OF assms] by (simp add: flush_integrity)

end

interpretation msg: part_splitter splitter_split splitter_flush plainBuf splitter_ok
  by unfold_locales (simp_all add: splitter_split_integrity splitter_split_ok splitter_flush_integrity)

subsection \<open>Whole packets under any segmentation\<close>

lemma split_chunks_packets:
  assumes "list_all (framer.packet (proto m)) ps"
    and "list_all (\<lambda>q. length q + k \<le> Suc maxSplitterPacketBytes) ps"
    and "list_all (\<lambda>c. length c \<le> k) cs"
    and "\<not> disabled m" and "concat ps = plainBuf m @ concat cs"
    and "ps = [] \<or> length (plainBuf m) < length (hd ps)"
  shows "split_chunks m cs = (ps, m\<lparr>plainBuf := []\<rparr>)"
  using assms
proof (induction cs arbitrary: m ps)
  case Nil
  have "ps = []"
  proof (rule ccontr)
    assume "ps \<noteq> []"
    then obtain q qs where "ps = q # qs" by (cases ps) auto
    then have "length q + length (concat qs) = length (plainBuf m)"
      using arg_cong [OF Nil.prems(5), of length] by simp
    with \<open>ps = q # qs\<close> Nil.prems(6) show False by simp
  qed
  with Nil.prems show ?case by simp
next
  case (Cons c cs)
  show ?case
  proof (cases "c = []")
    case True
    with Cons.prems Cons.IH [of m ps] show ?thesis by (simp add: splitter_split_def)
  next
    case False
    with Cons.prems(5) have "ps \<noteq> []" by auto
    then obtain q qs where "ps = q # qs" by (cases ps) auto
    with Cons.prems(2,3,6) have fits: "length (plainBuf m) + length c \<le> maxSplitterPacketBytes"
      by simp
    let ?cut = "cut_stream (nextPacketLen (proto m)) (plainBuf m @ c)"
    obtain qs rs where ps: "ps = qs @ rs" and cut: "?cut = (qs, fst (snd ?cut), False)"
      and rs: "concat rs = fst (snd ?cut) @ concat cs"
      and short: "rs = [] \<or> length (fst (snd ?cut)) < length (hd rs)"
      using framer.cut_prefix [OF Cons.prems(1), of "plainBuf m @ c" "concat cs"] Cons.prems(5) by auto
    have split: "splitter_split m c = (qs, m\<lparr>plainBuf := fst (snd ?cut)\<rparr>)"
    proof -
      have "fst ?cut = qs" "\<not> snd (snd ?cut)" using cut by (metis fst_conv, metis snd_conv)
      then have "splitter_split m c = (qs, m\<lparr>plainBuf := fst (snd ?cut), disabled := False\<rparr>)"
        using splitter_split_cut [OF False Cons.prems(4) fits] by simp
      also have "m\<lparr>plainBuf := fst (snd ?cut), disabled := False\<rparr> = m\<lparr>plainBuf := fst (snd ?cut)\<rparr>"
        using Cons.prems(4) by (cases m) simp
      finally show ?thesis .
    qed
    have "split_chunks (m\<lparr>plainBuf := fst (snd ?cut)\<rparr>) cs = (rs, m\<lparr>plainBuf := []\<rparr>)"
      using Cons.IH [of "m\<lparr>plainBuf := fst (snd ?cut)\<rparr>" rs] Cons.prems ps rs short by simp
    with split ps show ?thesis by simp
  qed
qed

subsection \<open>The encodings are packets\<close>

lemma nextAbridgedLen_short:
  "\<lbrakk>b \<noteq> 0x7F; b \<noteq> 0xFF; b AND 0x7F = word_of_nat n; 0 < n; n < 0x7F; length pl = 4 * n\<rbrakk> \<Longrightarrow>
   nextAbridgedLen (b # pl) = int (length (b # pl))"
  by (simp add: unsigned_of_nat take_bit_nat_eq_self uint_nat maxSplitterPacketBytes_def)

lemma leUint24_put:
  assumes "n < 2 ^ 24"
  shows "uint (ucast (ucast (word_of_nat n :: 32 word) :: byte)
           OR push_bit 8 (ucast (ucast (drop_bit 8 (word_of_nat n :: 32 word)) :: byte))
           OR push_bit 16 (ucast (ucast (drop_bit 16 (word_of_nat n :: 32 word)) :: byte)) :: 32 word) = int n"
proof -
  let ?w = "word_of_nat n :: 32 word"
  have "unat ?w = n" using assms by (simp add: unat_word_of_nat_small)
  have "unat (drop_bit 24 ?w) = drop_bit 24 (take_bit LENGTH(32) (unat ?w))"
    by (rule unsigned_drop_bit_eq)
  also have "\<dots> = 0" using assms \<open>unat ?w = n\<close> by (simp add: take_bit_eq_mod drop_bit_eq_div)
  finally have "drop_bit 24 ?w = 0" by (simp add: unsigned_eq_0_iff)
  then have "ucast (ucast ?w :: byte) OR push_bit 8 (ucast (ucast (drop_bit 8 ?w) :: byte))
      OR push_bit 16 (ucast (ucast (drop_bit 16 ?w) :: byte)) = ?w"
    using leUint32_put [of ?w] by (simp add: leUint32_def)
  with \<open>unat ?w = n\<close> show ?thesis by (simp add: uint_nat)
qed

lemma nextAbridgedLen_long:
  assumes "b = 0x7F \<or> b = 0xFF" and "0x7F \<le> n" and "length pl = 4 * n"
    and "4 * n + 4 \<le> maxSplitterPacketBytes"
  shows "nextAbridgedLen (b # take 3 (putLEUint32 (word_of_nat n)) @ pl) =
    int (length (b # take 3 (putLEUint32 (word_of_nat n)) @ pl))"
proof -
  have "n < 2 ^ 24" using assms(4) by (simp add: maxSplitterPacketBytes_def)
  note this [THEN leUint24_put]
  with assms show ?thesis by (simp add: putLEUint32_def Let_def)
qed

lemma and_low7: "(a OR word_of_nat n) AND 0x7F = (word_of_nat n :: byte)"
  if "n < 0x80" and "a = 0x80 \<or> a = 0" for a :: byte
proof -
  have "(word_of_nat n :: byte) AND 0x7F = take_bit 7 (word_of_nat n)"
    by (simp add: take_bit_eq_mask mask_eq_exp_minus_1)
  also have "\<dots> = word_of_nat n"
    using that(1) by (intro take_bit_word_of_nat) simp_all
  finally show ?thesis
    using that(2) by (auto simp: bit.conj_disj_distrib2)
qed

lemma and_low31: "(word_of_nat n OR a) AND 0x7FFFFFFF = (word_of_nat n :: 32 word)"
  if "n < 0x80000000" and "a = 0x80000000 \<or> a = 0" for a :: "32 word"
proof -
  have "(word_of_nat n :: 32 word) AND 0x7FFFFFFF = take_bit 31 (word_of_nat n)"
    by (simp add: take_bit_eq_mask mask_eq_exp_minus_1)
  also have "\<dots> = word_of_nat n"
    using that(1) by (intro take_bit_word_of_nat) simp_all
  finally show ?thesis
    using that(2) by (auto simp: bit.conj_disj_distrib2)
qed

lemma encodeAbridged_packet:
  assumes "pl \<noteq> []" and "4 dvd length pl" and "length pl + 4 \<le> maxSplitterPacketBytes"
  shows "nextAbridgedLen (encodeAbridged ack pl) = int (length (encodeAbridged ack pl))"
proof -
  let ?n = "length pl div 4" and ?top = "(if ack then 0x80 else 0) :: byte"
  have len: "length pl = 4 * ?n" using assms(2) by simp
  have pos: "0 < ?n" using assms(1) len by (cases "?n") auto
  show ?thesis
  proof (cases "?n < 0x7F")
    case True
    have low: "(?top OR word_of_nat ?n) AND 0x7F = (word_of_nat ?n :: byte)"
      by (rule and_low7) (use True in auto)
    have "(word_of_nat ?n :: byte) \<noteq> 0x7F"
    proof
      assume "(word_of_nat ?n :: byte) = 0x7F"
      then have "unat (word_of_nat ?n :: byte) = 0x7F" by simp
      with True show False by (simp add: unat_word_of_nat_small)
    qed
    with low have "?top OR word_of_nat ?n \<noteq> 0x7F" "?top OR word_of_nat ?n \<noteq> 0xFF" by auto
    with nextAbridgedLen_short [OF _ _ low pos True len] True show ?thesis
      by (simp add: encodeAbridged_def Let_def)
  next
    case False
    have "?top OR 0x7F = 0x7F \<or> ?top OR 0x7F = 0xFF" by simp
    from nextAbridgedLen_long [OF this _ len] False len assms(3) show ?thesis
      by (simp add: encodeAbridged_def Let_def)
  qed
qed

lemma nextIntermediateLen_put:
  "nextIntermediateLen (putLEUint32 w @ pl) =
     (let payloadLen = w AND 0x7FFFFFFF in
      if payloadLen = 0 \<or> uint payloadLen > int maxSplitterPacketBytes - 4 then 0
      else if int (length pl) < uint payloadLen then -1 else 4 + uint payloadLen)"
  by (simp only: putLEUint32_def append_Cons append_Nil nextIntermediateLen.simps leUint32_put Let_def)
    simp

lemma encodeIntermediate_packet:
  assumes "pl \<noteq> []" and "length pl + 4 \<le> maxSplitterPacketBytes"
  shows "nextIntermediateLen (encodeIntermediate ack pl) = int (length (encodeIntermediate ack pl))"
proof -
  let ?w = "word_of_nat (length pl) OR (if ack then 0x80000000 else 0) :: 32 word"
  have small: "length pl < 0x80000000" using assms(2) by (simp add: maxSplitterPacketBytes_def)
  then have low: "?w AND 0x7FFFFFFF = word_of_nat (length pl)"
    by (intro and_low31) auto
  have len: "uint (word_of_nat (length pl) :: 32 word) = int (length pl)"
    using small by (simp add: unat_word_of_nat_small uint_nat)
  then have nz: "(word_of_nat (length pl) :: 32 word) \<noteq> 0"
    using assms(1) by (metis length_0_conv of_nat_eq_0_iff unsigned_0)
  have "nextIntermediateLen (putLEUint32 ?w @ pl) = 4 + int (length pl)"
    unfolding nextIntermediateLen_put Let_def low len using nz assms(2) by simp
  then show ?thesis by (simp add: encodeIntermediate_def)
qed

lemma encodePacket_packet:
  assumes "sendable p msg" and "p \<in> {protoAbridgedInt, protoIntermediateInt, protoPaddedIntermediateInt}"
  shows "framer.packet p (encodePacket p msg) \<and>
    length (encodePacket p msg) + 64 * 1024 \<le> Suc maxSplitterPacketBytes"
proof -
  have "protoAbridgedInt \<noteq> protoIntermediateInt" "protoAbridgedInt \<noteq> protoPaddedIntermediateInt"
    by (simp_all add: protoAbridgedInt_def protoIntermediateInt_def protoPaddedIntermediateInt_def)
  then show ?thesis
    using assms encodeAbridged_packet [of "snd msg" "fst msg"] encodeIntermediate_packet [of "snd msg" "fst msg"]
    by (auto simp: sendable_def framer.packet_def nextPacketLen_def encodePacket_def
        encodeAbridged_def encodeIntermediate_def Let_def split: if_splits)
qed

lemma split_encoded_packets:
  assumes "p \<in> {protoAbridgedInt, protoIntermediateInt, protoPaddedIntermediateInt}"
    and "list_all (sendable p) msgs"
    and "concat cs = concat (map (encodePacket p) msgs)"
    and "list_all (\<lambda>c. length c \<le> 64 * 1024) cs"
  shows "split_chunks (newSplitter p) cs = (map (encodePacket p) msgs, newSplitter p)"
proof -
  have pk: "list_all (framer.packet p) (map (encodePacket p) msgs)"
    "list_all (\<lambda>q. length q + 64 * 1024 \<le> Suc maxSplitterPacketBytes) (map (encodePacket p) msgs)"
    using assms(1,2) encodePacket_packet by (auto simp: list_all_iff)
  have "split_chunks (newSplitter p) cs = (map (encodePacket p) msgs, (newSplitter p)\<lparr>plainBuf := []\<rparr>)"
  proof (rule split_chunks_packets [OF _ pk(2) assms(4)])
    show "map (encodePacket p) msgs = [] \<or>
        length (plainBuf (newSplitter p)) < length (hd (map (encodePacket p) msgs))"
      using pk(1) by (cases msgs) (auto simp: newSplitter_def framer.packet_def)
  qed (use pk(1) assms(3) in \<open>simp_all add: newSplitter_def\<close>)
  then show ?thesis by (simp add: newSplitter_def)
qed

subsection \<open>Properties\<close>

text \<open>
  C15. Stream integrity: whatever the protocol and however the client's bytes are segmented
  into reads, the parts the splitter hands out, followed by its final flush, are exactly the
  bytes that went in, in order. No byte is lost, duplicated or reordered, on the framed path,
  on the overflow path and after the splitter has disabled itself.
\<close>

theorem splitter_stream_integrity:
  "concat (fst (split_chunks (newSplitter p) cs)) @
     concat (fst (splitter_flush (snd (split_chunks (newSplitter p) cs)))) = concat cs"
  using split_chunks_integrity [OF newSplitter_ok, of p cs]
  by (simp add: splitter_flush_integrity newSplitter_def)

text \<open>
  One packet per message: a stream of messages in any of the three MTProto transport
  encodings, cut at arbitrary places into reads of at most 64 KiB, leaves the splitter as
  exactly the list of the encoded packets, nothing stays buffered and splitting stays enabled.
\<close>

theorem splitter_one_packet_per_part:
  assumes "p \<in> {protoAbridgedInt, protoIntermediateInt, protoPaddedIntermediateInt}"
    and "list_all (sendable p) msgs"
    and "concat cs = concat (map (encodePacket p) msgs)"
    and "list_all (\<lambda>c. length c \<le> 64 * 1024) cs"
  shows "split_chunks (newSplitter p) cs = (map (encodePacket p) msgs, newSplitter p)"
  by (rule split_encoded_packets [OF assms])

theorem splitter_one_packet_per_part_witness:
  "split_chunks (newSplitter protoAbridgedInt) [[1, 0xAA], [0xBB, 0xCC, 0xDD, 0x81, 1], [2, 3, 4]] =
     (map (encodePacket protoAbridgedInt) [(False, [0xAA, 0xBB, 0xCC, 0xDD]), (True, [1, 2, 3, 4])],
      newSplitter protoAbridgedInt)"
  by (rule splitter_one_packet_per_part)
    (simp_all add: sendable_def encodePacket_def encodeAbridged_def maxSplitterPacketBytes_def, presburger?)

text \<open>
  Bounded buffering: after any sequence of reads the splitter holds at most
  \<^verbatim>\<open>maxSplitterPacketBytes\<close> bytes, and none once it is disabled.
\<close>

theorem splitter_bounded: "splitter_ok (snd (split_chunks (newSplitter p) cs))"
  by (rule split_chunks_ok [OF newSplitter_ok])

end
