(* ===== verification/Handshake.thy ===== *)
theory Handshake
  imports GoCrypto GoStrings Splitter
begin

text \<open>
  The obfuscated MTProto handshake of \<^verbatim>\<open>src/src/crypto.go\<close>: what the proxy reads from a
  client's first 64 bytes, what it announces to Telegram in its own 64 bytes, and the four
  counter-mode streams of a session.

  Random bytes are an input: \<^verbatim>\<open>generateRelayInit\<close> draws 64 bytes until the draw has no
  reserved prefix, so its model takes the list of the draws, and \<^term>\<open>None\<close> says that every
  draw of the list was rejected and the loop is still running.
\<close>

subsection \<open>Constants\<close>

definition handshakeLen :: nat where "handshakeLen = 64"
definition skipLen :: nat where "skipLen = 8"
definition prekeyLen :: nat where "prekeyLen = 32"
definition keyLen :: nat where "keyLen = 32"
definition ivLen :: nat where "ivLen = 16"
definition protoTagPos :: nat where "protoTagPos = 56"
definition dcIdxPos :: nat where "dcIdxPos = 60"

lemmas layout_defs = handshakeLen_def skipLen_def prekeyLen_def keyLen_def ivLen_def
  protoTagPos_def dcIdxPos_def

definition protoTagAbridged :: bytes where "protoTagAbridged = [0xef, 0xef, 0xef, 0xef]"
definition protoTagIntermediate :: bytes where "protoTagIntermediate = [0xee, 0xee, 0xee, 0xee]"
definition protoTagSecure :: bytes where "protoTagSecure = [0xdd, 0xdd, 0xdd, 0xdd]"

lemmas proto_tag_defs = protoTagAbridged_def protoTagIntermediate_def protoTagSecure_def

lemma length_proto_tags [simp]:
  "length protoTagAbridged = 4" "length protoTagIntermediate = 4" "length protoTagSecure = 4"
  by (simp_all add: proto_tag_defs)

definition reservedFirst :: "byte \<Rightarrow> bool" where
  "reservedFirst b \<longleftrightarrow> b = 0xef"

definition reservedStart :: "bytes list" where
  "reservedStart =
     [string_bytes ''HEAD'', string_bytes ''POST'', string_bytes ''GET '', string_bytes ''OPTI'',
      [0xee, 0xee, 0xee, 0xee], [0xdd, 0xdd, 0xdd, 0xdd], [0x16, 0x03, 0x01, 0x02]]"

definition dcFallbackDefaults :: "(int \<times> string) list" where
  "dcFallbackDefaults =
     [(1, ''149.154.175.50''), (2, ''149.154.167.51''), (3, ''149.154.175.100''),
      (4, ''149.154.167.91''), (5, ''149.154.171.5''), (203, ''91.105.192.100'')]"

definition dcOverrides :: "int \<Rightarrow> int option" where
  "dcOverrides dc = (if dc = 203 then Some 2 else None)"

subsection \<open>The client's handshake\<close>

record handshakeInfo =
  hiDC :: int
  hiIsMedia :: bool
  hiProtoTag :: bytes
  hiClientDecI :: bytes

definition keyFromPrekeyAndSecret :: "bytes \<Rightarrow> bytes \<Rightarrow> bytes" where
  "keyFromPrekeyAndSecret prekey secret = sha256_Sum256 (prekey @ secret)"

text \<open>
  The outer \<^term>\<open>None\<close> is a panic (a slice out of range, a bad IV), the inner one the
  rejection \<^verbatim>\<open>return nil, false\<close>.
\<close>

definition cipher_NewCTR :: "bytes \<Rightarrow> bytes \<Rightarrow> stream option" where
  "cipher_NewCTR key iv = (if length iv = 16 then Some (NewCTR key iv) else None)"

definition tryHandshake :: "bytes \<Rightarrow> bytes \<Rightarrow> handshakeInfo option option" where
  "tryHandshake handshake secret =
     (if length handshake \<noteq> handshakeLen then Some None
      else do {
        decPrekeyAndIV \<leftarrow> go_slice skipLen (skipLen + prekeyLen + ivLen) handshake;
        decPrekey \<leftarrow> go_slice 0 prekeyLen decPrekeyAndIV;
        decIV \<leftarrow> go_slice prekeyLen (length decPrekeyAndIV) decPrekeyAndIV;
        case aes_NewCipher (keyFromPrekeyAndSecret decPrekey secret) of
          None \<Rightarrow> Some None
        | Some key \<Rightarrow> do {
            dec \<leftarrow> cipher_NewCTR key decIV;
            let decrypted = fst (XORKeyStream dec handshake);
            protoTag \<leftarrow> go_slice protoTagPos (protoTagPos + 4) decrypted;
            if protoTag \<noteq> protoTagAbridged \<and> protoTag \<noteq> protoTagIntermediate \<and> protoTag \<noteq> protoTagSecure
            then Some None
            else do {
              lo \<leftarrow> go_index dcIdxPos decrypted;
              hi \<leftarrow> go_index (dcIdxPos + 1) decrypted;
              let dcIdx = sint (leUint16 lo hi);
              Some (Some \<lparr>hiDC = \<bar>dcIdx\<bar>, hiIsMedia = (dcIdx < 0),
                          hiProtoTag = go_copy (replicate 4 0) protoTag,
                          hiClientDecI = go_copy (replicate (length decPrekeyAndIV) 0) decPrekeyAndIV\<rparr>)
            }
          }
      })"

definition protoFromTag :: "bytes \<Rightarrow> 32 word" where
  "protoFromTag tag =
     (if tag = protoTagAbridged then protoAbridgedInt
      else if tag = protoTagIntermediate then protoIntermediateInt
      else protoPaddedIntermediateInt)"

definition signedDC :: "int \<Rightarrow> bool \<Rightarrow> 16 word" where
  "signedDC dc media = (if media then word_of_int (- dc) else word_of_int dc)"

subsection \<open>The relay's handshake\<close>

definition relayRandomOk :: "bytes \<Rightarrow> bool" where
  "relayRandomOk rnd \<longleftrightarrow>
     \<not> reservedFirst (rnd ! 0) \<and>
     \<not> list_ex (\<lambda>rs. slice 0 4 rnd = rs) reservedStart \<and>
     slice 4 8 rnd \<noteq> [0, 0, 0, 0]"

fun pickRelayRandom :: "bytes list \<Rightarrow> bytes option" where
  "pickRelayRandom [] = None"
| "pickRelayRandom (rnd # draws) = (if relayRandomOk rnd then Some rnd else pickRelayRandom draws)"

definition relayInitFrom :: "bytes \<Rightarrow> bytes \<Rightarrow> bytes \<Rightarrow> 16 word \<Rightarrow> bytes" where
  "relayInitFrom rnd rnd2 protoTag dcIdx =
     (let encKey = slice skipLen (skipLen + prekeyLen) rnd;
          encIV = slice (skipLen + prekeyLen) (skipLen + prekeyLen + ivLen) rnd;
          encryptedFull = fst (XORKeyStream (NewCTR encKey encIV) rnd);
          tailPlain = go_copy (replicate 4 0) protoTag @ putLEUint16 dcIdx @ go_copy (replicate 2 0) rnd2
      in overwrite 56
           (map (\<lambda>i. tailPlain ! i XOR (encryptedFull ! (56 + i) XOR rnd ! (56 + i))) [0..<8])
           (go_copy (replicate handshakeLen 0) rnd))"

definition generateRelayInit :: "bytes list \<Rightarrow> bytes \<Rightarrow> bytes \<Rightarrow> 16 word \<Rightarrow> bytes option" where
  "generateRelayInit draws rnd2 protoTag dcIdx =
     map_option (\<lambda>rnd. relayInitFrom rnd rnd2 protoTag dcIdx) (pickRelayRandom draws)"

subsection \<open>The session's ciphers\<close>

text \<open>The loop \<^verbatim>\<open>out[len(in)-1-i] = in[i]\<close>.\<close>

definition reverseBytes :: "bytes \<Rightarrow> bytes" where
  "reverseBytes xs =
     fold (\<lambda>i out. out[length xs - 1 - i := xs ! i]) [0..<length xs] (replicate (length xs) 0)"

record ciphers =
  cltDec :: stream
  cltEnc :: stream
  tgEnc :: stream
  tgDec :: stream

definition buildCiphers :: "bytes \<Rightarrow> bytes \<Rightarrow> bytes \<Rightarrow> ciphers option option" where
  "buildCiphers clientDecPrekeyAndIV relayInit secret = do {
     cltDecPrekey \<leftarrow> go_slice 0 prekeyLen clientDecPrekeyAndIV;
     cltDecIV \<leftarrow> go_slice prekeyLen (length clientDecPrekeyAndIV) clientDecPrekeyAndIV;
     case aes_NewCipher (keyFromPrekeyAndSecret cltDecPrekey secret) of
       None \<Rightarrow> Some None
     | Some k1 \<Rightarrow> do {
         s1 \<leftarrow> cipher_NewCTR k1 cltDecIV;
         let rv = reverseBytes clientDecPrekeyAndIV;
         encPrekey \<leftarrow> go_slice 0 prekeyLen rv;
         encIV \<leftarrow> go_slice prekeyLen (length rv) rv;
         case aes_NewCipher (keyFromPrekeyAndSecret encPrekey secret) of
           None \<Rightarrow> Some None
         | Some k2 \<Rightarrow> do {
             s2 \<leftarrow> cipher_NewCTR k2 encIV;
             relayEncKey \<leftarrow> go_slice 8 40 relayInit;
             relayEncIV \<leftarrow> go_slice 40 56 relayInit;
             case aes_NewCipher relayEncKey of
               None \<Rightarrow> Some None
             | Some k3 \<Rightarrow> do {
                 s3 \<leftarrow> cipher_NewCTR k3 relayEncIV;
                 relayDec \<leftarrow> go_slice 8 56 relayInit;
                 let relayDecPI = reverseBytes relayDec;
                 relayDecKey \<leftarrow> go_slice 0 keyLen relayDecPI;
                 relayDecIV \<leftarrow> go_slice keyLen (length relayDecPI) relayDecPI;
                 case aes_NewCipher relayDecKey of
                   None \<Rightarrow> Some None
                 | Some k4 \<Rightarrow> do {
                     s4 \<leftarrow> cipher_NewCTR k4 relayDecIV;
                     let zeros = replicate handshakeLen 0;
                     Some (Some \<lparr>cltDec = snd (XORKeyStream s1 zeros), cltEnc = s2,
                                 tgEnc = snd (XORKeyStream s3 zeros), tgDec = s4\<rparr>)
                   }
               }
           }
       }
   }"

subsection \<open>Targets\<close>

definition wsDomains :: "int \<Rightarrow> bool \<Rightarrow> string list" where
  "wsDomains dc isMedia =
     (let dcS = strconv_Itoa dc in
      if isMedia
      then [''kws'' @ dcS @ ''-1.web.telegram.org'', ''kws'' @ dcS @ ''.web.telegram.org'']
      else [''kws'' @ dcS @ ''.web.telegram.org''])"

definition fallbackIP :: "int \<Rightarrow> string" where
  "fallbackIP dc = (case map_of dcFallbackDefaults dc of Some ip \<Rightarrow> ip | None \<Rightarrow> '''')"

subsection \<open>The other end of each connection\<close>

text \<open>
  The peers, from the MTProto transport documentation. A client picks 56 random bytes and
  puts the protocol tag and the signed datacentre, encrypted with its own sending stream,
  in the last eight; it then keeps that stream for the session. Telegram derives its streams
  from the relay's 64 bytes in the same way, without a secret.
\<close>

definition clientSend :: "bytes \<Rightarrow> bytes \<Rightarrow> stream" where
  "clientSend hs secret = NewCTR (keyFromPrekeyAndSecret (slice 8 40 hs) secret) (slice 40 56 hs)"

definition clientRecv :: "bytes \<Rightarrow> bytes \<Rightarrow> stream" where
  "clientRecv hs secret =
     (let r = rev (slice 8 56 hs) in NewCTR (keyFromPrekeyAndSecret (take 32 r) secret) (drop 32 r))"

definition telegramRecv :: "bytes \<Rightarrow> stream" where
  "telegramRecv relayInit = NewCTR (slice 8 40 relayInit) (slice 40 56 relayInit)"

definition telegramSend :: "bytes \<Rightarrow> stream" where
  "telegramSend relayInit = (let r = rev (slice 8 56 relayInit) in NewCTR (take 32 r) (drop 32 r))"

definition clientHandshake :: "bytes \<Rightarrow> bytes \<Rightarrow> bytes \<Rightarrow> 16 word \<Rightarrow> bytes \<Rightarrow> bytes" where
  "clientHandshake head secret tag dcIdx pad =
     head @ drop 56 (fst (XORKeyStream (clientSend head secret) (head @ tag @ putLEUint16 dcIdx @ pad)))"

subsection \<open>Facts\<close>

lemma reverseBytes_rev: "reverseBytes xs = rev xs"
proof -
  have "k \<le> length xs \<Longrightarrow>
      fold (\<lambda>i out. out[length xs - 1 - i := xs ! i]) [0..<k] (replicate (length xs) 0) =
      replicate (length xs - k) 0 @ rev (take k xs)" for k
  proof (induction k)
    case 0
    then show ?case by simp
  next
    case (Suc k)
    then have "replicate (length xs - k) (0::byte) = replicate (length xs - Suc k) 0 @ [0]"
      by (metis Suc_diff_Suc Suc_le_lessD replicate_Suc replicate_append_same)
    with Suc show ?case by (simp add: list_update_append take_Suc_conv_app_nth)
  qed
  from this [of "length xs"] show ?thesis by (simp add: reverseBytes_def)
qed

lemma keyFromPrekeyAndSecret_ok [simp]:
  "aes_NewCipher (keyFromPrekeyAndSecret p s) = Some (keyFromPrekeyAndSecret p s)"
  by (simp add: aes_NewCipher_def keyFromPrekeyAndSecret_def)

lemma signedDC_abs: "signedDC \<bar>sint w\<bar> (sint w < 0) = w"
  by (simp add: signedDC_def)

lemma slice_slice:
  "b + j \<le> n \<Longrightarrow> slice i j (slice b n xs) = slice (b + i) (b + j) xs"
  by (simp add: slice_def drop_take add.commute min_def)

definition decryptedHandshake :: "bytes \<Rightarrow> bytes \<Rightarrow> bytes" where
  "decryptedHandshake hs secret = fst (XORKeyStream (clientSend hs secret) hs)"

lemma length_decryptedHandshake [simp]: "length (decryptedHandshake hs secret) = length hs"
  by (simp add: decryptedHandshake_def ctr.xks_length)

text \<open>What the proxy reads off a handshake of the right length.\<close>

lemma tryHandshake_eq:
  assumes "length hs = 64"
  shows "tryHandshake hs secret =
    (let d = decryptedHandshake hs secret; tag = slice 56 60 d; dcIdx = leUint16 (d ! 60) (d ! 61) in
     if tag \<in> {protoTagAbridged, protoTagIntermediate, protoTagSecure}
     then Some (Some \<lparr>hiDC = \<bar>sint dcIdx\<bar>, hiIsMedia = (sint dcIdx < 0), hiProtoTag = tag,
                      hiClientDecI = slice 8 56 hs\<rparr>)
     else Some None)"
proof -
  have key: "slice 0 32 (slice 8 56 hs) = slice 8 40 hs" "slice 32 48 (slice 8 56 hs) = slice 40 56 hs"
    by (simp_all add: slice_slice)
  show ?thesis
    using assms
    by (simp add: tryHandshake_def layout_defs key cipher_NewCTR_def Let_def
        ctr.xks_length decryptedHandshake_def clientSend_def)
qed

lemma tryHandshake_bad_length: "length hs \<noteq> 64 \<Longrightarrow> tryHandshake hs secret = Some None"
  by (simp add: tryHandshake_def handshakeLen_def)

lemma tryHandshake_total: "tryHandshake hs secret \<noteq> None"
  by (cases "length hs = 64") (simp_all add: tryHandshake_eq tryHandshake_bad_length Let_def)

lemma tryHandshake_Some_iff:
  "tryHandshake hs secret = Some (Some hi) \<longleftrightarrow>
     length hs = 64 \<and>
     slice 56 60 (decryptedHandshake hs secret) \<in> {protoTagAbridged, protoTagIntermediate, protoTagSecure} \<and>
     hi = (let d = decryptedHandshake hs secret; dcIdx = leUint16 (d ! 60) (d ! 61) in
       \<lparr>hiDC = \<bar>sint dcIdx\<bar>, hiIsMedia = (sint dcIdx < 0), hiProtoTag = slice 56 60 d,
        hiClientDecI = slice 8 56 hs\<rparr>)"
  by (cases "length hs = 64") (auto simp: tryHandshake_eq tryHandshake_bad_length Let_def)

lemma length_clientHandshake [simp]:
  "length head = 56 \<Longrightarrow> length tag = 4 \<Longrightarrow> length pad = 2 \<Longrightarrow>
   length (clientHandshake head secret tag dcIdx pad) = 64"
  by (simp add: clientHandshake_def ctr.xks_length)

text \<open>The streams depend on bytes 8 to 55 only, which both handshakes leave as drawn.\<close>

lemma clientSend_append [simp]:
  "56 \<le> length head \<Longrightarrow> clientSend (head @ tail) secret = clientSend head secret"
  by (simp add: clientSend_def slice_append1)

lemma xor_tail_decrypts:
  assumes "length head = 56"
  shows "drop 56 (fst (XORKeyStream st (head @ drop 56 (fst (XORKeyStream st (head @ tail)))))) = tail"
proof -
  let ?enc = "fst (XORKeyStream (snd (XORKeyStream st head)) tail)"
  have "drop 56 (fst (XORKeyStream st (head @ tail))) = ?enc"
    using assms by (simp add: ctr.xks_append_fst ctr.xks_length)
  then show ?thesis
    using assms by (simp add: ctr.xks_append_fst ctr.xks_length ctr.xks_involutive)
qed

lemma decrypted_clientHandshake:
  assumes "length head = 56"
  shows "drop 56 (decryptedHandshake (clientHandshake head secret tag dcIdx pad) secret) =
    tag @ putLEUint16 dcIdx @ pad"
  using xor_tail_decrypts [OF assms, of "clientSend head secret" "tag @ putLEUint16 dcIdx @ pad"] assms
  by (simp add: decryptedHandshake_def clientHandshake_def)

lemma slice_of_drop: "slice (n + i) (n + j) xs = slice i j (drop n xs)"
  by (simp add: slice_def add.commute)

subsection \<open>The relay's bytes\<close>

lemma length_relayInitFrom [simp]:
  "length rnd = 64 \<Longrightarrow> length (relayInitFrom rnd rnd2 tag dcIdx) = 64"
  by (simp add: relayInitFrom_def layout_defs Let_def)

lemma relayInitFrom_head:
  assumes "length rnd = 64"
  shows "take 56 (relayInitFrom rnd rnd2 tag dcIdx) = take 56 rnd"
  using assms by (simp add: relayInitFrom_def layout_defs Let_def overwrite_def)

lemma telegramRecv_relayInitFrom:
  assumes "length rnd = 64"
  shows "telegramRecv (relayInitFrom rnd rnd2 tag dcIdx) = telegramRecv rnd"
  using slice_take [of 40 56 8 "relayInitFrom rnd rnd2 tag dcIdx"] slice_take [of 40 56 8 rnd]
    slice_take [of 56 56 40 "relayInitFrom rnd rnd2 tag dcIdx"] slice_take [of 56 56 40 rnd]
  by (simp add: telegramRecv_def relayInitFrom_head [OF assms])

lemma xor_sandwich: "a XOR ((b XOR c) XOR b) = a XOR (c :: 'a::len word)"
  by (metis xor.assoc xor.commute xor.right_neutral xor_self_eq)

lemma relayInitFrom_split:
  assumes "length rnd = 64" and "length tag = 4" and "length rnd2 = 2"
  shows "relayInitFrom rnd rnd2 tag dcIdx =
    take 56 rnd @ drop 56 (fst (XORKeyStream (telegramRecv rnd) (take 56 rnd @ tag @ putLEUint16 dcIdx @ rnd2)))"
proof -
  let ?tail = "tag @ putLEUint16 dcIdx @ rnd2" and ?st = "telegramRecv rnd"
  have t8: "length ?tail = 8" using assms by simp
  have "map (\<lambda>i. ?tail ! i XOR (fst (XORKeyStream ?st rnd) ! (56 + i) XOR rnd ! (56 + i))) [0..<8] =
      drop 56 (fst (XORKeyStream ?st (take 56 rnd @ ?tail)))"
  proof (rule nth_equalityI)
    show "length (map (\<lambda>i. ?tail ! i XOR (fst (XORKeyStream ?st rnd) ! (56 + i) XOR rnd ! (56 + i))) [0..<8]) =
        length (drop 56 (fst (XORKeyStream ?st (take 56 rnd @ ?tail))))"
      using assms t8 by (simp add: ctr.xks_length)
  next
    fix i assume "i < length (map (\<lambda>i. ?tail ! i XOR (fst (XORKeyStream ?st rnd) ! (56 + i) XOR rnd ! (56 + i))) [0..<8])"
    then have i: "i < 8" by simp
    then have "(take 56 rnd @ ?tail) ! (56 + i) = ?tail ! i" using assms by (simp add: nth_append)
    moreover have "drop 56 (fst (XORKeyStream ?st (take 56 rnd @ ?tail))) ! i =
        fst (XORKeyStream ?st (take 56 rnd @ ?tail)) ! (56 + i)"
      using assms t8 i by (simp add: ctr.xks_length)
    ultimately show "map (\<lambda>i. ?tail ! i XOR (fst (XORKeyStream ?st rnd) ! (56 + i) XOR rnd ! (56 + i))) [0..<8] ! i =
        drop 56 (fst (XORKeyStream ?st (take 56 rnd @ ?tail))) ! i"
      using assms t8 i by (simp add: XORKeyStream_nth xor_sandwich)
  qed
  then show ?thesis
    using assms by (simp add: relayInitFrom_def layout_defs Let_def overwrite_def telegramRecv_def)
qed

lemma pickRelayRandom_Some:
  "pickRelayRandom draws = Some rnd \<Longrightarrow> rnd \<in> set draws \<and> relayRandomOk rnd"
  by (induction draws) (auto split: if_splits)

lemma pickRelayRandom_None_iff: "pickRelayRandom draws = None \<longleftrightarrow> \<not> list_ex relayRandomOk draws"
  by (induction draws) auto

lemma pickRelayRandom_find: "pickRelayRandom draws = find relayRandomOk draws"
  by (induction draws) auto

lemma relayRandomOk_take: "8 \<le> n \<Longrightarrow> n \<le> length rnd \<Longrightarrow> relayRandomOk (take n rnd) = relayRandomOk rnd"
  by (simp add: relayRandomOk_def slice_take)

lemma relayRandomOk_relayInitFrom:
  assumes "length rnd = 64"
  shows "relayRandomOk (relayInitFrom rnd rnd2 tag dcIdx) = relayRandomOk rnd"
  using relayRandomOk_take [of 56 "relayInitFrom rnd rnd2 tag dcIdx"] relayRandomOk_take [of 56 rnd]
    relayInitFrom_head [OF assms, of rnd2 tag dcIdx] assms
  by simp

lemma telegram_reads_relayInitFrom:
  fixes dcIdx :: "16 word"
  assumes "length rnd = 64" and "length tag = 4" and "length rnd2 = 2"
  defines "r \<equiv> relayInitFrom rnd rnd2 tag dcIdx"
  shows "drop 56 (fst (XORKeyStream (telegramRecv r) r)) = tag @ putLEUint16 dcIdx @ rnd2"
  using xor_tail_decrypts [of "take 56 rnd" "telegramRecv rnd" "tag @ putLEUint16 dcIdx @ rnd2"] assms(1-3)
  by (simp add: r_def telegramRecv_relayInitFrom) (simp add: relayInitFrom_split)

lemma putLEUint16_leUint16 [simp]: "putLEUint16 (leUint16 lo hi) = [lo, hi]"
proof -
  have "ucast (leUint16 lo hi) = lo"
    by (rule bit_word_eqI) (auto simp: leUint16_def bit_simps)
  moreover have "ucast (drop_bit 8 (leUint16 lo hi)) = hi"
    by (rule bit_word_eqI) (auto simp: leUint16_def bit_simps dest: bit_imp_le_length)
  ultimately show ?thesis by (simp add: putLEUint16_def)
qed

lemma slice_56_62:
  "62 \<le> length d \<Longrightarrow> slice 56 62 d = slice 56 60 d @ [d ! 60, d ! 61]"
  by (rule nth_equalityI) (auto simp: nth_append slice_simps less_Suc_eq numeral_eq_Suc)

lemma buildCiphers_eq:
  assumes "length pi = 48" and "length r = 64"
  shows "buildCiphers pi r secret =
    (let rp = rev pi; rr = rev (slice 8 56 r) in
     Some (Some \<lparr>cltDec = snd (XORKeyStream (NewCTR (keyFromPrekeyAndSecret (take 32 pi) secret) (drop 32 pi)) (replicate 64 0)),
                 cltEnc = NewCTR (keyFromPrekeyAndSecret (take 32 rp) secret) (drop 32 rp),
                 tgEnc = snd (XORKeyStream (telegramRecv r) (replicate 64 0)),
                 tgDec = NewCTR (take 32 rr) (drop 32 rr)\<rparr>))"
  using assms
  by (simp add: buildCiphers_def layout_defs cipher_NewCTR_def reverseBytes_rev aes_NewCipher_def [of "slice 8 40 r"]
      aes_NewCipher_def [of "take 32 (rev (slice 8 56 r))"] slice_0 slice_to_end telegramRecv_def Let_def)

lemma tryHandshake_clientHandshake:
  assumes "length head = 56" and "length pad = 2"
    and "tag \<in> {protoTagAbridged, protoTagIntermediate, protoTagSecure}"
  shows "tryHandshake (clientHandshake head secret tag dcIdx pad) secret =
    Some (Some \<lparr>hiDC = \<bar>sint dcIdx\<bar>, hiIsMedia = (sint dcIdx < 0), hiProtoTag = tag,
                hiClientDecI = slice 8 56 head\<rparr>)"
proof -
  let ?hs = "clientHandshake head secret tag dcIdx pad"
  let ?d = "decryptedHandshake ?hs secret"
  have tag4: "length tag = 4" using assms(3) by auto
  then have len: "length ?hs = 64" using assms by simp
  have tail: "drop 56 ?d = tag @ putLEUint16 dcIdx @ pad"
    by (rule decrypted_clientHandshake [OF assms(1)])
  have "slice 56 60 ?d = tag"
    using slice_of_drop [of 56 0 4 ?d] tail tag4 by (simp add: slice_0)
  moreover have "?d ! 60 = ucast dcIdx" "?d ! 61 = ucast (drop_bit 8 dcIdx)"
    using nth_drop [of 56 ?d 4] nth_drop [of 56 ?d 5] tail tag4 len
    by (simp_all add: nth_append putLEUint16_def)
  moreover have "slice 8 56 ?hs = slice 8 56 head"
    using assms(1) by (simp add: clientHandshake_def slice_append1)
  ultimately show ?thesis
    using assms(3) len by (simp add: tryHandshake_eq Let_def)
qed

lemma buildCiphers_accepted:
  assumes "tryHandshake hs secret = Some (Some hi)" and "length r = 64"
  shows "buildCiphers (hiClientDecI hi) r secret =
    Some (Some \<lparr>cltDec = snd (XORKeyStream (clientSend hs secret) hs), cltEnc = clientRecv hs secret,
                tgEnc = snd (XORKeyStream (telegramRecv r) r), tgDec = telegramSend r\<rparr>)"
proof -
  from assms(1) have hs: "length hs = 64" and pi: "hiClientDecI hi = slice 8 56 hs"
    by (auto simp: tryHandshake_Some_iff Let_def)
  have parts: "take 32 (slice 8 56 hs) = slice 8 40 hs" "drop 32 (slice 8 56 hs) = slice 40 56 hs"
    by (simp_all add: slice_def drop_take)
  have adv: "snd (XORKeyStream st (replicate 64 0)) = snd (XORKeyStream st xs)" if "length xs = 64" for st xs
    by (rule ctr.xks_state) (simp add: that)
  show ?thesis
    using hs assms(2) adv [OF hs, of "clientSend hs secret"] adv [OF assms(2), of "telegramRecv r"]
    by (simp add: pi buildCiphers_eq parts Let_def clientSend_def clientRecv_def telegramSend_def)
qed

subsection \<open>Properties\<close>

text \<open>
  C16. Handshake round trip: a handshake built the way a client builds it, from any 56 bytes,
  any of the three protocol tags and any 16-bit datacentre index, is accepted, and the proxy
  reads back the tag, the absolute datacentre number, the media flag and the key material.
\<close>

theorem tryHandshake_roundtrip:
  assumes "length head = 56" and "length pad = 2"
    and "tag \<in> {protoTagAbridged, protoTagIntermediate, protoTagSecure}"
  shows "tryHandshake (clientHandshake head secret tag dcIdx pad) secret =
    Some (Some \<lparr>hiDC = \<bar>sint dcIdx\<bar>, hiIsMedia = (sint dcIdx < 0), hiProtoTag = tag,
                hiClientDecI = slice 8 56 head\<rparr>)"
  using assms by (rule tryHandshake_clientHandshake)

theorem tryHandshake_roundtrip_witness:
  "tryHandshake (clientHandshake (replicate 56 7) [1, 2, 3] protoTagSecure 0xFFFC [9, 9]) [1, 2, 3] =
     Some (Some \<lparr>hiDC = 4, hiIsMedia = True, hiProtoTag = protoTagSecure,
                 hiClientDecI = slice 8 56 (replicate 56 7)\<rparr>)"
  using tryHandshake_roundtrip [of "replicate 56 7" "[9, 9]" protoTagSecure "[1, 2, 3]" "0xFFFC"] by simp

text \<open>
  C17. The relay announces what the client asked for: from any accepted handshake, the 64 bytes
  generated for Telegram decrypt, with the streams Telegram derives from them, to exactly the
  tag and datacentre index the client had encrypted, the index \<open>-32768\<close> included, and their
  plain prefix is none of the reserved ones.
\<close>

theorem relayInit_announces_client:
  assumes "tryHandshake hs secret = Some (Some hi)"
    and "list_all (\<lambda>d. length d = 64) draws" and "length rnd2 = 2"
    and "generateRelayInit draws rnd2 (hiProtoTag hi) (signedDC (hiDC hi) (hiIsMedia hi)) = Some r"
  shows "length r = 64 \<and> relayRandomOk r \<and>
    slice 56 62 (fst (XORKeyStream (telegramRecv r) r)) = slice 56 62 (decryptedHandshake hs secret)"
proof -
  let ?d = "decryptedHandshake hs secret"
  let ?dc = "leUint16 (?d ! 60) (?d ! 61)"
  from assms(1) have hs: "length hs = 64" and tag: "hiProtoTag hi = slice 56 60 ?d"
    and dc: "signedDC (hiDC hi) (hiIsMedia hi) = ?dc"
    by (auto simp: tryHandshake_Some_iff Let_def signedDC_abs)
  from assms(4) obtain rnd where pick: "pickRelayRandom draws = Some rnd"
    and r: "r = relayInitFrom rnd rnd2 (slice 56 60 ?d) ?dc"
    by (auto simp: generateRelayInit_def tag dc)
  from pickRelayRandom_Some [OF pick] assms(2) have rnd: "length rnd = 64" "relayRandomOk rnd"
    by (auto simp: list_all_iff)
  have "slice 56 62 (fst (XORKeyStream (telegramRecv r) r)) = slice 56 60 ?d @ [?d ! 60, ?d ! 61]"
    using telegram_reads_relayInitFrom [OF rnd(1) _ assms(3), of "slice 56 60 ?d" ?dc]
      slice_of_drop [of 56 0 6 "fst (XORKeyStream (telegramRecv r) r)"] hs
    by (simp add: r slice_0)
  with rnd hs show ?thesis by (simp add: r relayRandomOk_relayInitFrom slice_56_62)
qed

theorem relayInit_announces_client_witness:
  "let hs = clientHandshake (replicate 56 7) [1, 2, 3] protoTagSecure 0x8000 [9, 9];
       r = relayInitFrom (replicate 64 5) [6, 6] protoTagSecure (signedDC 32768 True)
   in length r = 64 \<and> relayRandomOk r \<and>
      slice 56 62 (fst (XORKeyStream (telegramRecv r) r)) = slice 56 62 (decryptedHandshake hs [1, 2, 3])"
proof -
  have ok: "relayRandomOk (replicate 64 5)" "\<not> relayRandomOk (replicate 64 0xef)"
    by code_simp+
  have "tryHandshake (clientHandshake (replicate 56 7) [1, 2, 3] protoTagSecure 0x8000 [9, 9]) [1, 2, 3] =
      Some (Some \<lparr>hiDC = 32768, hiIsMedia = True, hiProtoTag = protoTagSecure,
                 hiClientDecI = slice 8 56 (replicate 56 7)\<rparr>)"
    by (subst tryHandshake_clientHandshake) simp_all
  from relayInit_announces_client [OF this, of "[replicate 64 0xef, replicate 64 5]" "[6, 6]"
      "relayInitFrom (replicate 64 5) [6, 6] protoTagSecure (signedDC 32768 True)"]
  show ?thesis using ok by (simp add: generateRelayInit_def Let_def)
qed


text \<open>
  Key agreement: for an accepted handshake and any 64-byte relay init, \<^verbatim>\<open>buildCiphers\<close>
  neither panics nor fails, and its four streams are those of the two peers: it decrypts with
  the client's sending stream and encrypts with Telegram's receiving stream, both advanced
  past the handshake they were announced in, and the two downstream streams are the peers'
  fresh ones.
\<close>

theorem buildCiphers_peers:
  assumes "tryHandshake hs secret = Some (Some hi)" and "length r = 64"
  shows "buildCiphers (hiClientDecI hi) r secret =
    Some (Some \<lparr>cltDec = snd (XORKeyStream (clientSend hs secret) hs), cltEnc = clientRecv hs secret,
                tgEnc = snd (XORKeyStream (telegramRecv r) r), tgDec = telegramSend r\<rparr>)"
  using assms by (rule buildCiphers_accepted)

theorem buildCiphers_peers_witness:
  "buildCiphers (slice 8 56 (replicate 56 7)) (replicate 64 5) [1, 2, 3] =
     (let hs = clientHandshake (replicate 56 7) [1, 2, 3] protoTagSecure 2 [9, 9]; r = replicate 64 5 in
      Some (Some \<lparr>cltDec = snd (XORKeyStream (clientSend hs [1, 2, 3]) hs), cltEnc = clientRecv hs [1, 2, 3],
                  tgEnc = snd (XORKeyStream (telegramRecv r) r), tgDec = telegramSend r\<rparr>))"
proof -
  have "tryHandshake (clientHandshake (replicate 56 7) [1, 2, 3] protoTagSecure 2 [9, 9]) [1, 2, 3] =
      Some (Some \<lparr>hiDC = 2, hiIsMedia = False, hiProtoTag = protoTagSecure,
                 hiClientDecI = slice 8 56 (replicate 56 7)\<rparr>)"
    by (subst tryHandshake_clientHandshake) simp_all
  from buildCiphers_peers [OF this, of "replicate 64 5"] show ?thesis by (simp add: Let_def)
qed

text \<open>
  C19. Total on hostile input: \<^verbatim>\<open>tryHandshake\<close> never panics, whatever the bytes, and it accepts
  exactly the 64-byte handshakes whose decryption carries one of the three protocol tags.
\<close>

theorem tryHandshake_accepts_iff:
  "\<exists>r. tryHandshake hs secret = Some r \<and>
     (r \<noteq> None \<longleftrightarrow> length hs = 64 \<and>
        slice 56 60 (decryptedHandshake hs secret) \<in> {protoTagAbridged, protoTagIntermediate, protoTagSecure})"
  by (cases "length hs = 64") (auto simp: tryHandshake_eq tryHandshake_bad_length Let_def)

end
