(* ===== verification/WSPool.thy ===== *)
theory WSPool
  imports ProxyState Handshake
begin

text \<open>
  The pool of idle WebSocket connections of \<^verbatim>\<open>src/src/pool.go\<close>. The critical sections of
  \<^verbatim>\<open>wsPool.mu\<close> are functions on the pool; the system of a pool with its refilling goroutines
  and the connections they open is a step relation.
\<close>

definition wsPoolMaxAge :: duration where "wsPoolMaxAge = 120 * Second"
definition wsPoolBackoffMin :: duration where "wsPoolBackoffMin = 5 * Second"
definition wsPoolBackoffMax :: duration where "wsPoolBackoffMax = Minute"

subsection \<open>Pooled connections\<close>

text \<open>
  A pooled connection: the identity of the WebSocket, its creation time, and the state of the
  goroutine that waits for its first message (\<^term>\<open>None\<close> while it waits, then its error).
\<close>

record pooledWS =
  pwConn :: nat
  pwCreated :: instant
  pwFirst :: "goerror option option"

definition newPooledWS :: "nat \<Rightarrow> instant \<Rightarrow> pooledWS" where
  "newPooledWS conn now = \<lparr>pwConn = conn, pwCreated = now, pwFirst = None\<rparr>"

definition stale :: "instant \<Rightarrow> pooledWS \<Rightarrow> bool" where
  "stale now ws =
     (if now - pwCreated ws \<ge> wsPoolMaxAge then True
      else case pwFirst ws of Some err \<Rightarrow> err \<noteq> None | None \<Rightarrow> False)"

record wsPoolKey =
  wkDC :: int
  wkIsMedia :: bool
  wkTargetIP :: string

record poolRoute =
  prDomains :: "string list"
  prRetryDelay :: duration
  prRetryAfter :: instant

record wsPool =
  closed :: bool
  idle :: "wsPoolKey \<Rightarrow> pooledWS list"
  refilling :: "wsPoolKey \<Rightarrow> bool"
  routes :: "wsPoolKey \<rightharpoonup> poolRoute"

definition newWSPool :: wsPool where
  "newWSPool = \<lparr>closed = False, idle = \<lambda>_. [], refilling = \<lambda>_. False, routes = Map.empty\<rparr>"

subsection \<open>Critical sections\<close>

text \<open>\<^verbatim>\<open>scheduleRefill\<close>: whether a refilling goroutine is started, and the pool.\<close>

definition scheduleRefill ::
  "Config \<Rightarrow> instant \<Rightarrow> wsPoolKey \<Rightarrow> string list \<Rightarrow> wsPool \<Rightarrow> bool \<times> wsPool" where
  "scheduleRefill cfg now key domains p =
     (if closed p \<or> PoolSize cfg \<le> 0 then (False, p)
      else let (route, p1) =
                 (case routes p key of
                    Some r \<Rightarrow> (r, p)
                  | None \<Rightarrow> (let r = \<lparr>prDomains = domains, prRetryDelay = 0, prRetryAfter = 0\<rparr>
                             in (r, p\<lparr>routes := (routes p)(key \<mapsto> r)\<rparr>)))
           in if refilling p1 key \<or> int (length (idle p1 key)) \<ge> PoolSize cfg \<or> now < prRetryAfter route
              then (False, p1)
              else (True, p1\<lparr>refilling := (refilling p1)(key := True)\<rparr>))"

text \<open>The section inside the loop of \<^verbatim>\<open>get\<close>.\<close>

datatype getResult = GetClosed | GetMiss | GetItem pooledWS

definition getSection ::
  "Config \<Rightarrow> instant \<Rightarrow> wsPoolKey \<Rightarrow> string list \<Rightarrow> wsPool \<Rightarrow> getResult \<times> bool \<times> wsPool" where
  "getSection cfg now key domains p =
     (if closed p then (GetClosed, False, p)
      else case idle p key of
        [] \<Rightarrow> (case scheduleRefill cfg now key domains p of (started, p1) \<Rightarrow> (GetMiss, started, p1))
      | item # bucket \<Rightarrow>
          (case scheduleRefill cfg now key domains (p\<lparr>idle := (idle p)(key := bucket)\<rparr>) of
             (started, p1) \<Rightarrow> (GetItem item, started, p1)))"

text \<open>
  \<^verbatim>\<open>get\<close>, as one goroutine sees it when no other touches the key: the connection or
  \<^verbatim>\<open>nil\<close>, the connections it closed as stale, and the counters.
\<close>

lemma scheduleRefill_idle [simp]: "idle (snd (scheduleRefill cfg now key domains p)) = idle p"
  by (simp add: scheduleRefill_def Let_def split: option.splits)

lemma scheduleRefill_closed [simp]: "closed (snd (scheduleRefill cfg now key domains p)) = closed p"
  by (simp add: scheduleRefill_def Let_def split: option.splits)

lemma scheduleRefillD:
  "scheduleRefill cfg now key domains p = (started, p1) \<Longrightarrow> idle p1 = idle p \<and> closed p1 = closed p"
  using scheduleRefill_idle [of cfg now key domains p] scheduleRefill_closed [of cfg now key domains p] by simp

lemma getSection_item:
  "getSection cfg now key domains p = (GetItem item, started, p1) \<Longrightarrow>
   idle p key = item # idle p1 key \<and> \<not> closed p \<and> closed p1 = closed p \<and>
   (\<forall>k. k \<noteq> key \<longrightarrow> idle p1 k = idle p k)"
  by (auto simp: getSection_def dest!: scheduleRefillD split: if_splits list.splits prod.splits)

function wsPool_get ::
  "Config \<Rightarrow> instant \<Rightarrow> instant \<Rightarrow> wsPoolKey \<Rightarrow> string list \<Rightarrow> nat list \<Rightarrow> wsPool \<Rightarrow> Stats
   \<Rightarrow> pooledWS option \<times> nat list \<times> wsPool \<times> Stats" where
  "wsPool_get cfg now now' key domains closedConns p st =
     (case getSection cfg now' key domains p of
        (GetClosed, started, p1) \<Rightarrow> (None, closedConns, p1, st)
      | (GetMiss, started, p1) \<Rightarrow> (None, closedConns, p1, st\<lparr>poolMisses := poolMisses st + 1\<rparr>)
      | (GetItem item, started, p1) \<Rightarrow>
          (if stale now item then wsPool_get cfg now now' key domains (pwConn item # closedConns) p1 st
           else (Some item, closedConns, p1, st\<lparr>poolHits := poolHits st + 1\<rparr>)))"
  by pat_completeness auto
termination
  by (relation "measure (\<lambda>(cfg, now, now', key, domains, cc, p, st). length (idle p key))")
    (auto dest!: sym [of _ "getSection _ _ _ _ _"] getSection_item)

declare wsPool_get.simps [simp del]

text \<open>One key of \<^verbatim>\<open>rotate\<close>, and the loop over the keys of \<^verbatim>\<open>routes\<close> in the order of one iteration.\<close>

definition rotateKey ::
  "Config \<Rightarrow> instant \<Rightarrow> instant \<Rightarrow> wsPoolKey \<Rightarrow> wsPool \<Rightarrow> pooledWS list \<times> bool \<times> wsPool" where
  "rotateKey cfg now now' key p =
     (case routes p key of
        None \<Rightarrow> ([], False, p)
      | Some route \<Rightarrow>
          (let bucket = idle p key;
               expired = filter (stale now) bucket;
               ready = filter (\<lambda>item. \<not> stale now item) bucket;
               (started, p1) = scheduleRefill cfg now' key (prDomains route) (p\<lparr>idle := (idle p)(key := ready)\<rparr>)
           in (expired, started, p1)))"

fun rotate_keys ::
  "Config \<Rightarrow> instant \<Rightarrow> instant \<Rightarrow> wsPoolKey list \<Rightarrow> wsPool \<Rightarrow> pooledWS list \<times> wsPoolKey list \<times> wsPool" where
  "rotate_keys cfg now now' [] p = ([], [], p)"
| "rotate_keys cfg now now' (key # keys) p =
     (case rotateKey cfg now now' key p of
        (expired, started, p1) \<Rightarrow>
          (case rotate_keys cfg now now' keys p1 of
             (expired', ks, p2) \<Rightarrow> (expired @ expired', (if started then key # ks else ks), p2)))"

text \<open>The sections of \<^verbatim>\<open>refill\<close>: the check, the end of a failed and of a successful dial, the exit.\<close>

definition refillCheck :: "Config \<Rightarrow> wsPoolKey \<Rightarrow> wsPool \<Rightarrow> bool" where
  "refillCheck cfg key p \<longleftrightarrow> \<not> (closed p \<or> int (length (idle p key)) \<ge> PoolSize cfg)"

definition refillFailed :: "instant \<Rightarrow> wsPoolKey \<Rightarrow> string list \<Rightarrow> wsPool \<Rightarrow> wsPool" where
  "refillFailed now key domains p =
     (if closed p then p
      else let old = map_get \<lparr>prDomains = [], prRetryDelay = 0, prRetryAfter = 0\<rparr> (routes p) key;
               d = min (max (prRetryDelay old * 2) wsPoolBackoffMin) wsPoolBackoffMax
           in p\<lparr>routes := (routes p)(key \<mapsto> old\<lparr>prDomains := domains, prRetryDelay := d, prRetryAfter := now + d\<rparr>)\<rparr>)"

text \<open>\<^term>\<open>None\<close>: the pool is closed and the connection is to be closed.\<close>

definition refillStore :: "instant \<Rightarrow> wsPoolKey \<Rightarrow> string list \<Rightarrow> nat \<Rightarrow> wsPool \<Rightarrow> wsPool option" where
  "refillStore now key domains conn p =
     (if closed p then None
      else Some (p\<lparr>idle := (idle p)(key := idle p key @ [newPooledWS conn now]),
                   routes := (routes p)(key \<mapsto> \<lparr>prDomains = domains, prRetryDelay = 0, prRetryAfter = 0\<rparr>)\<rparr>))"

definition refillExit :: "wsPoolKey \<Rightarrow> wsPool \<Rightarrow> wsPool" where
  "refillExit key p = p\<lparr>refilling := (refilling p)(key := False)\<rparr>"

text \<open>\<^verbatim>\<open>Close\<close> up to the unlock; the connections of all buckets are closed after it.\<close>

definition poolClose :: "wsPool \<Rightarrow> wsPool" where
  "poolClose p = p\<lparr>closed := True, idle := \<lambda>_. []\<rparr>"

text \<open>The loop of \<^verbatim>\<open>warmup\<close>: the keys it schedules and the pool.\<close>

definition warmupKeys :: "Config \<Rightarrow> (wsPoolKey \<times> string list) list" where
  "warmupKeys cfg =
     concat (map (\<lambda>(dc, targets).
       let dcw = (case dcOverrides dc of Some mapped \<Rightarrow> mapped | None \<Rightarrow> dc) in
       concat (map (\<lambda>ip.
         map (\<lambda>media. (\<lparr>wkDC = dc, wkIsMedia = media, wkTargetIP = ip\<rparr>, wsDomains dcw media)) [False, True])
         targets)) (DCPool cfg))"

fun schedule_all ::
  "Config \<Rightarrow> instant \<Rightarrow> (wsPoolKey \<times> string list) list \<Rightarrow> wsPool \<Rightarrow> wsPoolKey list \<times> wsPool" where
  "schedule_all cfg now [] p = ([], p)"
| "schedule_all cfg now ((key, domains) # ks) p =
     (case scheduleRefill cfg now key domains p of
        (started, p1) \<Rightarrow> (case schedule_all cfg now ks p1 of
           (keys, p2) \<Rightarrow> ((if started then key # keys else keys), p2)))"

definition wsPool_warmup :: "Config \<Rightarrow> instant \<Rightarrow> wsPool \<Rightarrow> wsPoolKey list \<times> wsPool" where
  "wsPool_warmup cfg now p =
     (if PoolSize cfg \<le> 0 \<or> closed p then ([], p) else schedule_all cfg now (warmupKeys cfg) p)"

text \<open>\<^verbatim>\<open>getForDC\<close>: the configured addresses in turn.\<close>

fun get_first ::
  "Config \<Rightarrow> instant \<Rightarrow> instant \<Rightarrow> dcKey \<Rightarrow> string list \<Rightarrow> string list \<Rightarrow> nat list \<Rightarrow> wsPool \<Rightarrow> Stats
   \<Rightarrow> pooledWS option \<times> nat list \<times> wsPool \<times> Stats" where
  "get_first cfg now now' key domains [] cc p st = (None, cc, p, st)"
| "get_first cfg now now' key domains (ip # ips) cc p st =
     (case wsPool_get cfg now now' \<lparr>wkDC = dkDC key, wkIsMedia = dkIsMedia key, wkTargetIP = ip\<rparr> domains cc p st of
        (Some ws, r) \<Rightarrow> (Some ws, r)
      | (None, cc', p', st') \<Rightarrow> get_first cfg now now' key domains ips cc' p' st')"

definition getForDC ::
  "Config \<Rightarrow> instant \<Rightarrow> instant \<Rightarrow> dcKey \<Rightarrow> wsPool \<Rightarrow> Stats \<Rightarrow> pooledWS option \<times> nat list \<times> wsPool \<times> Stats" where
  "getForDC cfg now now' key p st =
     (if PoolSize cfg \<le> 0 then (None, [], p, st)
      else let dc = (case dcOverrides (dkDC key) of Some mapped \<Rightarrow> mapped | None \<Rightarrow> dkDC key);
               domains = wsDomains dc (dkIsMedia key)
           in get_first cfg now now' key domains (map_get [] (map_of (DCPool cfg)) (dkDC key)) [] p st)"

subsection \<open>The dials of a refill\<close>

text \<open>
  The network and the context answer attempt number \<open>n\<close>: whether the pool's context is done
  before and after it, the time, and the result of the dial, by domain and with or without
  fronting.
\<close>

record dialEnv =
  doneBefore :: "nat \<Rightarrow> bool"
  doneAfter :: "nat \<Rightarrow> bool"
  clockAt :: "nat \<Rightarrow> instant"
  dialWS :: "nat \<Rightarrow> string \<Rightarrow> bool \<Rightarrow> goerror + nat"

datatype dialOutcome = Cancelled | Failed goerror | Connected nat

text \<open>The state the dials change: the attempt number, the last error, \<^verbatim>\<open>frontingUntil\<close>, the counters.\<close>

record dialState =
  attempt :: nat
  lastErr :: goerror
  frontUntil :: instant
  dialStats :: Stats

fun tryVariants :: "dialEnv \<Rightarrow> string \<Rightarrow> bool list \<Rightarrow> dialState \<Rightarrow> dialOutcome option \<times> dialState" where
  "tryVariants env domain [] s = (None, s)"
| "tryVariants env domain (fronted # fs) s =
     (if doneBefore env (attempt s) then (Some Cancelled, s)
      else case dialWS env (attempt s) domain fronted of
        Inl e \<Rightarrow>
          (if doneAfter env (attempt s) then (Some Cancelled, s)
           else tryVariants env domain fs
             (s\<lparr>attempt := attempt s + 1, lastErr := e,
                dialStats := (dialStats s)\<lparr>wsErrors := wsErrors (dialStats s) + 1\<rparr>\<rparr>))
      | Inr conn \<Rightarrow>
          (Some (Connected conn),
           if fronted
           then s\<lparr>attempt := attempt s + 1, frontUntil := setFrontingActive (clockAt env (attempt s)),
                  dialStats := (dialStats s)\<lparr>connectionsFront := connectionsFront (dialStats s) + 1\<rparr>\<rparr>
           else s\<lparr>attempt := attempt s + 1, frontUntil := clearFrontingActive\<rparr>))"

fun tryDomains :: "dialEnv \<Rightarrow> string list \<Rightarrow> dialState \<Rightarrow> dialOutcome \<times> dialState" where
  "tryDomains env [] s = (Failed (lastErr s), s)"
| "tryDomains env (domain # domains) s =
     (let frontedFirst = frontingActive (clockAt env (attempt s)) (frontUntil s) in
      case tryVariants env domain [frontedFirst, \<not> frontedFirst] s of
        (Some out, s') \<Rightarrow> (out, s')
      | (None, s') \<Rightarrow> tryDomains env domains s')"

definition refillDial :: "dialEnv \<Rightarrow> string list \<Rightarrow> dialState \<Rightarrow> dialOutcome \<times> dialState" where
  "refillDial env domains s = tryDomains env domains (s\<lparr>attempt := 0, lastErr := errNoDomains\<rparr>)"

subsection \<open>The system\<close>

text \<open>
  A refilling goroutine of a key: before its check, dialling, with an outcome in hand, or
  about to release \<^verbatim>\<open>refilling\<close>. The owner of every connection that has been opened is
  recorded beside the pool: an idle bucket, a refilling goroutine, a client, or nobody,
  when it has been closed.
\<close>

datatype refillPC = Check "string list" | Dialling "string list" | HasConn "string list" nat
  | HasErr "string list" | Leaving

datatype owner = OIdle wsPoolKey | ORefill wsPoolKey | OClient | OClosed

record poolSys =
  pool :: wsPool
  refillers :: "wsPoolKey \<rightharpoonup> refillPC"
  owners :: "nat \<rightharpoonup> owner"

definition spawn :: "bool \<Rightarrow> wsPoolKey \<Rightarrow> string list \<Rightarrow> poolSys \<Rightarrow> poolSys" where
  "spawn started key domains s =
     (if started then s\<lparr>refillers := (refillers s)(key \<mapsto> Check domains)\<rparr> else s)"

definition close_conns :: "nat list \<Rightarrow> (nat \<rightharpoonup> owner) \<Rightarrow> (nat \<rightharpoonup> owner)" where
  "close_conns cs m = (\<lambda>c. if c \<in> set cs then Some OClosed else m c)"

definition disown :: "pooledWS list \<Rightarrow> poolSys \<Rightarrow> poolSys" where
  "disown items s = s\<lparr>owners := close_conns (map pwConn items) (owners s)\<rparr>"

inductive pool_step :: "Config \<Rightarrow> poolSys \<Rightarrow> poolSys \<Rightarrow> bool" for cfg :: Config where
  get_none:
    "getSection cfg now key domains (pool s) = (r, started, p) \<Longrightarrow> r = GetClosed \<or> r = GetMiss \<Longrightarrow>
     pool_step cfg s (spawn started key domains (s\<lparr>pool := p\<rparr>))"
| get_item:
    "getSection cfg now' key domains (pool s) = (GetItem item, started, p) \<Longrightarrow> \<not> stale now item \<Longrightarrow>
     pool_step cfg s (spawn started key domains
       (s\<lparr>pool := p, owners := (owners s)(pwConn item \<mapsto> OClient)\<rparr>))"
| get_stale:
    "getSection cfg now' key domains (pool s) = (GetItem item, started, p) \<Longrightarrow> stale now item \<Longrightarrow>
     pool_step cfg s (disown [item] (spawn started key domains (s\<lparr>pool := p\<rparr>)))"
| schedule:
    "scheduleRefill cfg now key domains (pool s) = (started, p) \<Longrightarrow>
     pool_step cfg s (spawn started key domains (s\<lparr>pool := p\<rparr>))"
| rotate:
    "rotateKey cfg now now' key (pool s) = (expired, started, p) \<Longrightarrow>
     routes (pool s) key = Some route \<Longrightarrow>
     pool_step cfg s (disown expired (spawn started key (prDomains route) (s\<lparr>pool := p\<rparr>)))"
| check_go:
    "refillers s key = Some (Check domains) \<Longrightarrow> refillCheck cfg key (pool s) \<Longrightarrow>
     pool_step cfg s (s\<lparr>refillers := (refillers s)(key \<mapsto> Dialling domains)\<rparr>)"
| check_stop:
    "refillers s key = Some (Check domains) \<Longrightarrow> \<not> refillCheck cfg key (pool s) \<Longrightarrow>
     pool_step cfg s (s\<lparr>refillers := (refillers s)(key \<mapsto> Leaving)\<rparr>)"
| dial_ok:
    "refillers s key = Some (Dialling domains) \<Longrightarrow> owners s conn = None \<Longrightarrow>
     fst (refillDial env domains ds) = Connected conn \<Longrightarrow>
     pool_step cfg s (s\<lparr>refillers := (refillers s)(key \<mapsto> HasConn domains conn),
                        owners := (owners s)(conn \<mapsto> ORefill key)\<rparr>)"
| dial_failed:
    "refillers s key = Some (Dialling domains) \<Longrightarrow> fst (refillDial env domains ds) = Failed e \<Longrightarrow>
     pool_step cfg s (s\<lparr>refillers := (refillers s)(key \<mapsto> HasErr domains)\<rparr>)"
| dial_cancelled:
    "refillers s key = Some (Dialling domains) \<Longrightarrow> fst (refillDial env domains ds) = Cancelled \<Longrightarrow>
     pool_step cfg s (s\<lparr>refillers := (refillers s)(key \<mapsto> Leaving)\<rparr>)"
| store:
    "refillers s key = Some (HasConn domains conn) \<Longrightarrow> refillStore now key domains conn (pool s) = Some p \<Longrightarrow>
     pool_step cfg s (s\<lparr>pool := p, refillers := (refillers s)(key \<mapsto> Check domains),
                        owners := (owners s)(conn \<mapsto> OIdle key)\<rparr>)"
| store_closed:
    "refillers s key = Some (HasConn domains conn) \<Longrightarrow> refillStore now key domains conn (pool s) = None \<Longrightarrow>
     pool_step cfg s (s\<lparr>refillers := (refillers s)(key \<mapsto> Leaving), owners := (owners s)(conn \<mapsto> OClosed)\<rparr>)"
| failed:
    "refillers s key = Some (HasErr domains) \<Longrightarrow>
     pool_step cfg s (s\<lparr>pool := refillFailed now key domains (pool s),
                        refillers := (refillers s)(key \<mapsto> Leaving)\<rparr>)"
| leave:
    "refillers s key = Some Leaving \<Longrightarrow>
     pool_step cfg s (s\<lparr>pool := refillExit key (pool s), refillers := (refillers s)(key := None)\<rparr>)"
| first_read:
    "i < length (idle (pool s) key) \<Longrightarrow>
     pool_step cfg s (s\<lparr>pool := (pool s)\<lparr>idle := (idle (pool s))
       (key := (idle (pool s) key)[i := (idle (pool s) key ! i)\<lparr>pwFirst := Some err\<rparr>])\<rparr>\<rparr>)"
| close:
    "pool_step cfg s (s\<lparr>pool := poolClose (pool s),
       owners := (\<lambda>c. case owners s c of Some (OIdle k) \<Rightarrow> Some OClosed | o' \<Rightarrow> o')\<rparr>)"

inductive pool_reachable :: "Config \<Rightarrow> poolSys \<Rightarrow> bool" for cfg :: Config where
  start: "pool_reachable cfg \<lparr>pool = newWSPool, refillers = Map.empty, owners = Map.empty\<rparr>"
| step: "pool_reachable cfg s \<Longrightarrow> pool_step cfg s s' \<Longrightarrow> pool_reachable cfg s'"

subsection \<open>The invariant\<close>

text \<open>A refilling goroutine that is past its check and will still add a connection.\<close>

fun adding :: "refillPC option \<Rightarrow> bool" where
  "adding (Some (Dialling d)) = True"
| "adding (Some (HasConn d c)) = True"
| "adding _ = False"

fun conn_of :: "refillPC option \<Rightarrow> nat option" where
  "conn_of (Some (HasConn d c)) = Some c"
| "conn_of _ = None"

definition room_inv :: "Config \<Rightarrow> poolSys \<Rightarrow> bool" where
  "room_inv cfg s \<longleftrightarrow> (\<forall>k. int (length (idle (pool s) k)) + of_bool (adding (refillers s k)) \<le> max 0 (PoolSize cfg))"

definition flag_inv :: "poolSys \<Rightarrow> bool" where
  "flag_inv s \<longleftrightarrow> (\<forall>k. refilling (pool s) k \<longleftrightarrow> refillers s k \<noteq> None)"

definition closed_inv :: "poolSys \<Rightarrow> bool" where
  "closed_inv s \<longleftrightarrow> (closed (pool s) \<longrightarrow> (\<forall>k. idle (pool s) k = []))"

definition owner_inv :: "poolSys \<Rightarrow> bool" where
  "owner_inv s \<longleftrightarrow>
     (\<forall>k. distinct (map pwConn (idle (pool s) k))) \<and>
     (\<forall>k c. owners s c = Some (OIdle k) \<longleftrightarrow> c \<in> pwConn ` set (idle (pool s) k)) \<and>
     (\<forall>k c. owners s c = Some (ORefill k) \<longleftrightarrow> conn_of (refillers s k) = Some c)"

definition pool_inv :: "Config \<Rightarrow> poolSys \<Rightarrow> bool" where
  "pool_inv cfg s \<longleftrightarrow> room_inv cfg s \<and> flag_inv s \<and> closed_inv s \<and> owner_inv s"

lemmas pool_inv_defs = pool_inv_def room_inv_def flag_inv_def closed_inv_def owner_inv_def

lemma scheduleRefill_spec:
  assumes "scheduleRefill cfg now key domains p = (started, p1)"
  shows "idle p1 = idle p" and "closed p1 = closed p"
    and "refilling p1 = (if started then (refilling p)(key := True) else refilling p)"
    and "started \<Longrightarrow> \<not> refilling p key \<and> int (length (idle p key)) < PoolSize cfg \<and> \<not> closed p"
  using assms
  by (auto simp: scheduleRefill_def Let_def fun_eq_iff split: if_splits option.splits)

lemma inv_schedule:
  assumes "pool_inv cfg s" and "scheduleRefill cfg now key domains (pool s) = (started, p)"
  shows "pool_inv cfg (spawn started key domains (s\<lparr>pool := p\<rparr>))"
proof -
  note spec = scheduleRefill_spec [OF assms(2)]
  show ?thesis
  proof (cases started)
    case True
    have "refillers s key = None" using assms(1) spec(4) True by (auto simp: pool_inv_def flag_inv_def)
    with assms(1) spec True show ?thesis by (auto simp: pool_inv_defs spawn_def)
  next
    case False
    with assms(1) spec show ?thesis by (simp add: pool_inv_defs spawn_def)
  qed
qed

lemma disown_spawn: "disown items (spawn b k d s) = spawn b k d (disown items s)"
  by (cases s) (simp add: disown_def spawn_def)

lemma disown_pool: "disown items (s\<lparr>pool := p\<rparr>) = (disown items s)\<lparr>pool := p\<rparr>"
  by (cases s) (simp add: disown_def)

lemma upd_order: "s\<lparr>owners := m, pool := p\<rparr> = s\<lparr>pool := p, owners := m\<rparr>"
  by (cases s) simp

lemma owner_elsewhere:
  assumes "owner_inv s" and "i \<in> set (idle (pool s) k)" and "j \<in> set (idle (pool s) k')" and "pwConn i = pwConn j"
  shows "k = k'"
proof -
  have "owners s (pwConn i) = Some (OIdle k)" "owners s (pwConn j) = Some (OIdle k')"
    using assms(1-3) unfolding owner_inv_def by blast+
  with assms(4) show ?thesis by simp
qed

lemma owner_not_refill:
  assumes "owner_inv s" and "i \<in> set (idle (pool s) k)"
  shows "conn_of (refillers s k') \<noteq> Some (pwConn i)"
proof -
  have "owners s (pwConn i) = Some (OIdle k)" using assms unfolding owner_inv_def by blast
  then show ?thesis using assms(1) unfolding owner_inv_def by (metis option.inject owner.distinct(1))
qed

text \<open>Taking connections out of a bucket, to a client or to be closed.\<close>

lemma owner_keep:
  assumes own: "owner_inv s" and gone: "\<And>c. c \<in> pwConn ` set gone \<Longrightarrow> m c = Some OClient \<or> m c = Some OClosed"
    and other: "\<And>c. c \<notin> pwConn ` set gone \<Longrightarrow> m c = owners s c"
    and bucket: "set (idle (pool s) key) = set gone \<union> set kept"
    and kept: "distinct (map pwConn kept)" "pwConn ` set gone \<inter> pwConn ` set kept = {}"
  shows "owner_inv (s\<lparr>pool := (pool s)\<lparr>idle := (idle (pool s))(key := kept)\<rparr>, owners := m\<rparr>)" (is "owner_inv ?s")
  unfolding owner_inv_def
proof (intro conjI allI)
  fix k
  show "distinct (map pwConn (idle (pool ?s) k))"
    using own kept(1) by (simp add: owner_inv_def)
  fix c
  show "owners ?s c = Some (OIdle k) \<longleftrightarrow> c \<in> pwConn ` set (idle (pool ?s) k)"
  proof (cases "c \<in> pwConn ` set gone")
    case True
    then obtain i where i: "i \<in> set (idle (pool s) key)" "c = pwConn i" using bucket by auto
    have "c \<notin> pwConn ` set (idle (pool ?s) k)"
    proof (cases "k = key")
      case False
      with owner_elsewhere [OF own i(1)] i(2) show ?thesis by (auto simp: image_iff)
    qed (use True kept(2) in auto)
    with True gone show ?thesis by force
  next
    case False
    then have "c \<in> pwConn ` set (idle (pool ?s) k) \<longleftrightarrow> c \<in> pwConn ` set (idle (pool s) k)"
      using bucket by (cases "k = key") auto
    then show ?thesis using False other own by (simp add: owner_inv_def)
  qed
  show "owners ?s c = Some (ORefill k) \<longleftrightarrow> conn_of (refillers ?s k) = Some c"
  proof (cases "c \<in> pwConn ` set gone")
    case True
    then obtain i where "i \<in> set (idle (pool s) key)" "c = pwConn i" using bucket by auto
    then show ?thesis using owner_not_refill [OF own] True gone by force
  next
    case False
    then show ?thesis using other own by (simp add: owner_inv_def)
  qed
qed

lemma inv_keep:
  assumes "pool_inv cfg s" and "\<And>c. c \<in> pwConn ` set gone \<Longrightarrow> m c = Some OClient \<or> m c = Some OClosed"
    and "\<And>c. c \<notin> pwConn ` set gone \<Longrightarrow> m c = owners s c"
    and "set (idle (pool s) key) = set gone \<union> set kept"
    and "distinct (map pwConn kept)" and "pwConn ` set gone \<inter> pwConn ` set kept = {}"
    and "length kept \<le> length (idle (pool s) key)"
  shows "pool_inv cfg (s\<lparr>pool := (pool s)\<lparr>idle := (idle (pool s))(key := kept)\<rparr>, owners := m\<rparr>)"
proof -
  let ?s = "s\<lparr>pool := (pool s)\<lparr>idle := (idle (pool s))(key := kept)\<rparr>, owners := m\<rparr>"
  have own: "owner_inv s" using assms(1) by (simp add: pool_inv_def)
  have "room_inv cfg ?s"
    unfolding room_inv_def
  proof
    fix k
    have "int (length (idle (pool s) k)) + of_bool (adding (refillers s k)) \<le> max 0 (PoolSize cfg)"
      using assms(1) by (simp add: pool_inv_def room_inv_def)
    then show "int (length (idle (pool ?s) k)) + of_bool (adding (refillers ?s k)) \<le> max 0 (PoolSize cfg)"
      using assms(7) by auto
  qed
  moreover have "flag_inv ?s" using assms(1) by (simp add: pool_inv_def flag_inv_def)
  moreover have "closed_inv ?s"
    using assms(1,4) by (auto simp: pool_inv_def closed_inv_def)
  moreover have "owner_inv ?s" by (rule owner_keep [OF own assms(2-6)])
  ultimately show ?thesis by (simp add: pool_inv_def)
qed

lemma inv_pop:
  assumes "pool_inv cfg s" and "idle (pool s) key = item # bucket" and "o' = OClient \<or> o' = OClosed"
  shows "pool_inv cfg (s\<lparr>pool := (pool s)\<lparr>idle := (idle (pool s))(key := bucket)\<rparr>,
                         owners := (owners s)(pwConn item \<mapsto> o')\<rparr>)"
proof (rule inv_keep [OF assms(1), where gone = "[item]"])
  have "distinct (map pwConn (item # bucket))"
    using assms(1) unfolding pool_inv_def owner_inv_def by (metis assms(2))
  then show "distinct (map pwConn bucket)" "pwConn ` set [item] \<inter> pwConn ` set bucket = {}" by auto
qed (use assms(2,3) in auto)

lemma inv_filter:
  assumes "pool_inv cfg s"
  shows "pool_inv cfg (s\<lparr>pool := (pool s)\<lparr>idle := (idle (pool s))(key := filter (\<lambda>i. \<not> P i) (idle (pool s) key))\<rparr>,
                         owners := close_conns (map pwConn (filter P (idle (pool s) key))) (owners s)\<rparr>)"
proof (rule inv_keep [OF assms, where gone = "filter P (idle (pool s) key)"])
  have dist: "distinct (map pwConn (idle (pool s) key))" using assms by (simp add: pool_inv_defs)
  then show "distinct (map pwConn (filter (\<lambda>i. \<not> P i) (idle (pool s) key)))"
    by (rule distinct_map_filter)
  show "pwConn ` set (filter P (idle (pool s) key)) \<inter> pwConn ` set (filter (\<lambda>i. \<not> P i) (idle (pool s) key)) = {}"
    using dist by (auto simp: distinct_map dest: inj_onD)
qed (auto simp: close_conns_def)

lemma room_at:
  "pool_inv cfg s \<Longrightarrow>
   int (length (idle (pool s) k)) + of_bool (adding (refillers s k)) \<le> max 0 (PoolSize cfg)"
  by (simp add: pool_inv_def room_inv_def)

lemma inv_refiller:
  assumes "pool_inv cfg s" and "refillers s key = Some pc" and "conn_of (Some pc) = conn_of (Some pc')"
    and "adding (Some pc') \<Longrightarrow> adding (Some pc) \<or> int (length (idle (pool s) key)) < PoolSize cfg"
  shows "pool_inv cfg (s\<lparr>refillers := (refillers s)(key \<mapsto> pc')\<rparr>)"
proof -
  have "int (length (idle (pool s) key)) + of_bool (adding (Some pc)) \<le> max 0 (PoolSize cfg)"
    using assms(1,2) unfolding pool_inv_def room_inv_def by metis
  then have "int (length (idle (pool s) key)) + of_bool (adding (Some pc')) \<le> max 0 (PoolSize cfg)"
    using assms(4) by (cases "adding (Some pc)"; cases "adding (Some pc')") auto
  then have "room_inv cfg (s\<lparr>refillers := (refillers s)(key \<mapsto> pc')\<rparr>)"
    using assms(1) by (simp add: pool_inv_def room_inv_def)
  with assms(1-3) show ?thesis by (auto simp: pool_inv_def flag_inv_def closed_inv_def owner_inv_def)
qed

lemma inv_store:
  assumes "refillers s key = Some (HasConn domains conn)" and "refillStore now key domains conn (pool s) = Some p"
    and "pool_inv cfg s"
  shows "pool_inv cfg (s\<lparr>pool := p, refillers := (refillers s)(key \<mapsto> Check domains),
                          owners := (owners s)(conn \<mapsto> OIdle key)\<rparr>)"
proof -
  have p: "idle p = (idle (pool s))(key := idle (pool s) key @ [newPooledWS conn now])"
    "refilling p = refilling (pool s)" "\<not> closed p"
    using assms(2) by (auto simp: refillStore_def split: if_splits)
  have own: "owner_inv s" using assms(3) by (simp add: pool_inv_def)
  have ref: "owners s conn = Some (ORefill key)" using own assms(1) unfolding owner_inv_def by (metis conn_of.simps(1))
  then have fresh: "conn \<notin> pwConn ` set (idle (pool s) k)" for k
    using own unfolding owner_inv_def by (metis option.inject owner.distinct(1))
  have only: "conn_of (refillers s k) = Some conn \<Longrightarrow> k = key" for k
    using own ref unfolding owner_inv_def by (metis option.inject owner.inject(2))
  show ?thesis
    using assms(1,3) p fresh only room_at [OF assms(3), of key] by (auto simp: pool_inv_defs newPooledWS_def)
qed

lemma inv_dial_ok:
  assumes "pool_inv cfg s" and "refillers s key = Some (Dialling domains)" and "owners s conn = None"
  shows "pool_inv cfg (s\<lparr>refillers := (refillers s)(key \<mapsto> HasConn domains conn),
                         owners := (owners s)(conn \<mapsto> ORefill key)\<rparr>)"
proof -
  have own: "owner_inv s" using assms(1) by (simp add: pool_inv_def)
  have "conn \<notin> pwConn ` set (idle (pool s) k)" for k
    using own assms(3) unfolding owner_inv_def by (metis option.distinct(1))
  moreover have "conn_of (refillers s k) \<noteq> Some conn" for k
    using own assms(3) unfolding owner_inv_def by (metis option.distinct(1))
  ultimately show ?thesis
    using assms(1,2) room_at [OF assms(1), of key] by (auto simp: pool_inv_defs)
qed

lemma inv_drop_conn:
  assumes "pool_inv cfg s" and "refillers s key = Some (HasConn domains conn)"
  shows "pool_inv cfg (s\<lparr>refillers := (refillers s)(key \<mapsto> Leaving), owners := (owners s)(conn \<mapsto> OClosed)\<rparr>)"
proof -
  have own: "owner_inv s" using assms(1) by (simp add: pool_inv_def)
  have ref: "owners s conn = Some (ORefill key)" using own assms(2) unfolding owner_inv_def by (metis conn_of.simps(1))
  have "conn \<notin> pwConn ` set (idle (pool s) k)" for k
    using own ref unfolding owner_inv_def by (metis option.inject owner.distinct(1))
  moreover have "conn_of (refillers s k) = Some conn \<Longrightarrow> k = key" for k
    using own ref unfolding owner_inv_def by (metis option.inject owner.inject(2))
  ultimately show ?thesis
    using assms room_at [OF assms(1), of key] by (auto simp: pool_inv_defs)
qed

lemma inv_first_read:
  assumes "i < length (idle (pool s) key)" and "pool_inv cfg s"
  shows "pool_inv cfg (s\<lparr>pool := (pool s)\<lparr>idle := (idle (pool s))
       (key := (idle (pool s) key)[i := (idle (pool s) key ! i)\<lparr>pwFirst := Some err\<rparr>])\<rparr>\<rparr>)"
proof -
  let ?b = "(idle (pool s) key)[i := (idle (pool s) key ! i)\<lparr>pwFirst := Some err\<rparr>]"
  have conns: "map pwConn ?b = map pwConn (idle (pool s) key)"
    using assms(1) by (intro nth_equalityI) (auto simp: nth_list_update)
  then have "pwConn ` set ?b = pwConn ` set (idle (pool s) key)" by (metis list.set_map)
  with conns assms show ?thesis by (auto simp: pool_inv_defs)
qed

lemma inv_close:
  assumes "pool_inv cfg s"
  shows "pool_inv cfg (s\<lparr>pool := poolClose (pool s),
       owners := (\<lambda>c. case owners s c of Some (OIdle k) \<Rightarrow> Some OClosed | o' \<Rightarrow> o')\<rparr>)"
    (is "pool_inv cfg ?s")
proof -
  have own: "owner_inv s" using assms by (simp add: pool_inv_def)
  have "owners ?s c \<noteq> Some (OIdle k)" and "owners ?s c = Some (ORefill k) \<longleftrightarrow> owners s c = Some (ORefill k)" for c k
    by (simp_all split: option.splits owner.splits)
  then have "owner_inv ?s" using own by (simp add: owner_inv_def poolClose_def)
  moreover have "of_bool (adding (refillers s k)) \<le> max 0 (PoolSize cfg)" for k
    using room_at [OF assms, of k] by linarith
  then have "room_inv cfg ?s" by (simp add: room_inv_def poolClose_def)
  ultimately show ?thesis
    using assms by (simp add: pool_inv_def flag_inv_def closed_inv_def poolClose_def)
qed

text \<open>\<^verbatim>\<open>get\<close> takes the first connection of the bucket, or leaves the bucket alone.\<close>

lemma getSection_taken:
  assumes "getSection cfg now key domains p0 = (GetItem item, started, p)"
  obtains bucket where "idle p0 key = item # bucket"
    and "scheduleRefill cfg now key domains (p0\<lparr>idle := (idle p0)(key := bucket)\<rparr>) = (started, p)"
  using assms by (auto simp: getSection_def split: if_splits list.splits prod.splits)

lemma inv_get_none:
  assumes "getSection cfg now key domains (pool s) = (r, started, p)" and "r = GetClosed \<or> r = GetMiss" and "pool_inv cfg s"
  shows "pool_inv cfg (spawn started key domains (s\<lparr>pool := p\<rparr>))"
proof -
  consider "started = False \<and> p = pool s" | "scheduleRefill cfg now key domains (pool s) = (started, p)"
    using assms(1,2) by (auto simp: getSection_def split: if_splits list.splits prod.splits)
  then show ?thesis
  proof cases
    case 1
    with assms(3) show ?thesis by (simp add: spawn_def)
  next
    case 2
    with assms(3) show ?thesis by (intro inv_schedule) auto
  qed
qed

lemma inv_get_stale:
  assumes "getSection cfg now key domains (pool s) = (GetItem item, started, p)" and "pool_inv cfg s"
  shows "pool_inv cfg (disown [item] (spawn started key domains (s\<lparr>pool := p\<rparr>)))"
proof -
  obtain bucket where b: "idle (pool s) key = item # bucket"
    and sched: "scheduleRefill cfg now key domains ((pool s)\<lparr>idle := (idle (pool s))(key := bucket)\<rparr>) = (started, p)"
    by (rule getSection_taken [OF assms(1)])
  have "disown [item] s = s\<lparr>owners := (owners s)(pwConn item \<mapsto> OClosed)\<rparr>"
    by (simp add: disown_def close_conns_def fun_upd_def)
  with inv_schedule [OF inv_pop [OF assms(2) b, of OClosed]] sched show ?thesis
    by (simp add: disown_spawn disown_pool)
qed

lemma inv_rotate:
  assumes "rotateKey cfg now now' key (pool s) = (expired, started, p)" and "routes (pool s) key = Some route" and "pool_inv cfg s"
  shows "pool_inv cfg (disown expired (spawn started key (prDomains route) (s\<lparr>pool := p\<rparr>)))"
proof -
  let ?s = "s\<lparr>pool := (pool s)\<lparr>idle := (idle (pool s))(key := filter (\<lambda>i. \<not> stale now i) (idle (pool s) key))\<rparr>,
              owners := close_conns (map pwConn (filter (stale now) (idle (pool s) key))) (owners s)\<rparr>"
  have sched: "scheduleRefill cfg now' key (prDomains route) (pool ?s) = (started, p)"
    and ex: "expired = filter (stale now) (idle (pool s) key)"
    using assms(1,2) by (auto simp: rotateKey_def Let_def split: prod.splits)
  have "pool_inv cfg (spawn started key (prDomains route) (?s\<lparr>pool := p\<rparr>))"
    by (rule inv_schedule [OF inv_filter [OF assms(3)] sched])
  then show ?thesis by (simp add: ex disown_spawn disown_pool) (simp add: disown_def)
qed

lemma refillFailed_frame [simp]:
  "idle (refillFailed now key domains p) = idle p" "closed (refillFailed now key domains p) = closed p"
  "refilling (refillFailed now key domains p) = refilling p"
  by (simp_all add: refillFailed_def Let_def)

lemma pool_step_inv: "pool_step cfg s s' \<Longrightarrow> pool_inv cfg s \<Longrightarrow> pool_inv cfg s'"
proof (induction rule: pool_step.induct)
  case (get_none now key domains s r started p)
  then show ?case by (rule inv_get_none)
next
  case (get_item now' key domains s item started p now)
  obtain bucket where b: "idle (pool s) key = item # bucket"
    and sched: "scheduleRefill cfg now' key domains ((pool s)\<lparr>idle := (idle (pool s))(key := bucket)\<rparr>) = (started, p)"
    by (rule getSection_taken [OF get_item.hyps(1)])
  from inv_schedule [OF inv_pop [OF get_item.prems b, of OClient]] sched show ?case by (simp add: upd_order)
next
  case (get_stale now' key domains s item started p now)
  then show ?case using inv_get_stale by blast
next
  case (schedule now key domains s started p)
  then show ?case by (rule inv_schedule [rotated])
next
  case (rotate now now' key s expired started p route)
  then show ?case by (rule inv_rotate)
next
  case (check_go s key domains)
  then show ?case by (intro inv_refiller) (auto simp: refillCheck_def)
next
  case (check_stop s key domains)
  then show ?case by (intro inv_refiller) auto
next
  case (dial_ok s key domains conn env ds)
  then show ?case using room_at [OF dial_ok.prems, of key] by (intro inv_dial_ok)
next
  case (dial_failed s key domains env ds e)
  then show ?case by (intro inv_refiller) auto
next
  case (dial_cancelled s key domains env ds)
  then show ?case by (intro inv_refiller) auto
next
  case (store s key domains conn now p)
  then show ?case by (rule inv_store)
next
  case (store_closed s key domains conn now)
  then show ?case using inv_drop_conn by blast
next
  case (failed s key domains now)
  then show ?case using room_at [OF failed.prems, of key] by (auto simp: pool_inv_defs)
next
  case (leave s key)
  then show ?case using room_at [OF leave.prems, of key] by (auto simp: pool_inv_defs refillExit_def)
next
  case (first_read i s key err)
  then show ?case by (rule inv_first_read)
next
  case (close s)
  then show ?case by (rule inv_close)
qed

lemma pool_start_inv: "pool_inv cfg \<lparr>pool = newWSPool, refillers = Map.empty, owners = Map.empty\<rparr>"
  by (simp add: pool_inv_defs newWSPool_def)

lemma pool_reachable_inv: "pool_reachable cfg s \<Longrightarrow> pool_inv cfg s"
  by (induction rule: pool_reachable.induct) (auto simp: pool_start_inv intro: pool_step_inv)

inductive_cases pool_reachableE: "pool_reachable cfg s"

subsection \<open>Facts on the sequential operations\<close>

lemma wsPool_get_spec:
  assumes "\<not> closed p"
  shows "case wsPool_get cfg now now' key domains cc p st of (r, cc', p', st') \<Rightarrow>
     r = (case dropWhile (stale now) (idle p key) of [] \<Rightarrow> None | item # rest \<Rightarrow> Some item) \<and>
     cc' = rev (map pwConn (takeWhile (stale now) (idle p key))) @ cc \<and>
     idle p' = (idle p)(key := tl (dropWhile (stale now) (idle p key)))"
  using assms
proof (induction "idle p key" arbitrary: p cc st)
  case Nil
  obtain started p1 where s: "scheduleRefill cfg now' key domains p = (started, p1)" by fastforce
  then have "idle p1 = idle p" using scheduleRefillD by blast
  then show ?case
    using Nil s by (subst wsPool_get.simps) (simp add: getSection_def fun_eq_iff split: prod.splits)
next
  case (Cons item bucket)
  obtain started p1 where s:
    "scheduleRefill cfg now' key domains (p\<lparr>idle := (idle p)(key := bucket)\<rparr>) = (started, p1)" by fastforce
  then have p1: "idle p1 = (idle p)(key := bucket)" "\<not> closed p1"
    using scheduleRefillD [OF s] Cons.prems by simp_all
  have get: "getSection cfg now' key domains p = (GetItem item, started, p1)"
    using Cons.prems Cons.hyps(2) [symmetric] s by (simp add: getSection_def)
  show ?case
  proof (cases "stale now item")
    case True
    have "wsPool_get cfg now now' key domains cc p st = wsPool_get cfg now now' key domains (pwConn item # cc) p1 st"
      using get True by (subst wsPool_get.simps) simp
    then show ?thesis
      using Cons.hyps(1) [of p1 "pwConn item # cc" st] p1 True Cons.hyps(2) [symmetric] by (simp split: prod.splits)
  next
    case False
    then show ?thesis
      using get p1 Cons.hyps(2) [symmetric] by (subst wsPool_get.simps) simp
  qed
qed

text \<open>An environment that never cancels and whose dials do not depend on the attempt.\<close>

definition steady :: "dialEnv \<Rightarrow> (string \<Rightarrow> bool \<Rightarrow> goerror + nat) \<Rightarrow> bool" where
  "steady env dial \<longleftrightarrow> (\<forall>n. \<not> doneBefore env n \<and> \<not> doneAfter env n \<and> dialWS env n = dial)"

lemma tryVariants_steady:
  assumes "steady env dial"
  shows "(case tryVariants env d [f, \<not> f] s of
     (Some out, s') \<Rightarrow> (\<exists>c. out = Connected c \<and> (\<exists>f. dial d f = Inr c))
   | (None, s') \<Rightarrow> \<forall>f. isl (dial d f))"
  using assms
  by (cases "dial d f"; cases "dial d (\<not> f)"; cases f) (auto simp: steady_def, (metis (full_types) sum.disc(1))+)

lemma tryDomains_steady:
  assumes "steady env dial"
  shows "(case fst (tryDomains env ds s) of
     Connected c \<Rightarrow> \<exists>d \<in> set ds. \<exists>f. dial d f = Inr c
   | Failed e \<Rightarrow> \<forall>d \<in> set ds. \<forall>f. isl (dial d f)
   | Cancelled \<Rightarrow> False)"
proof (induction ds arbitrary: s)
  case (Cons d ds)
  let ?f = "frontingActive (clockAt env (attempt s)) (frontUntil s)"
  obtain r s' where v: "tryVariants env d [?f, \<not> ?f] s = (r, s')" by fastforce
  show ?case
  proof (cases r)
    case None
    with v tryVariants_steady [OF assms, of d ?f s] have "\<forall>f. isl (dial d f)" by simp
    moreover have "tryDomains env (d # ds) s = tryDomains env ds s'"
      using v None by (simp add: Let_def del: tryVariants.simps)
    ultimately show ?thesis using Cons.IH [of s'] by (auto split: dialOutcome.splits)
  next
    case (Some out)
    with v tryVariants_steady [OF assms, of d ?f s] obtain c f where "out = Connected c" "dial d f = Inr c" by auto
    moreover have "tryDomains env (d # ds) s = (out, s')"
      using v Some by (simp add: Let_def del: tryVariants.simps)
    ultimately show ?thesis by auto
  qed
qed simp

lemma closed_owners:
  assumes "pool_inv cfg s" and "closed (pool s)" and "refillers s = Map.empty"
  shows "owners s c \<in> {None, Some OClient, Some OClosed}"
proof (cases "owners s c")
  case (Some o')
  have "o' \<noteq> OIdle k" "o' \<noteq> ORefill k" for k
    using assms Some by (auto simp: pool_inv_defs)
  then show ?thesis using Some by (cases o') auto
qed simp

subsection \<open>Properties\<close>

text \<open>
  C31. The pool is bounded under every interleaving of clients, refilling goroutines, rotation
  and shutdown: a bucket never holds more than \<^verbatim>\<open>PoolSize\<close> connections, counting the one its
  refilling goroutine is about to add; a key is marked as refilling exactly while one
  goroutine refills it; and a closed pool holds no connection.
\<close>

theorem wsPool_bounded:
  assumes "pool_reachable cfg s"
  shows "int (length (idle (pool s) key)) + of_bool (adding (refillers s key)) \<le> max 0 (PoolSize cfg) \<and>
         (refilling (pool s) key \<longleftrightarrow> refillers s key \<noteq> None) \<and>
         (closed (pool s) \<longrightarrow> idle (pool s) key = [])"
  using pool_reachable_inv [OF assms] by (simp add: pool_inv_defs)

text \<open>
  C32. No connection is lost or used twice: every connection opened by a refill belongs to
  exactly one idle bucket, to the refilling goroutine, to a client, or has been closed; and
  once the pool is closed and its goroutines have ended, every one of them is with a client
  or closed.
\<close>

theorem wsPool_no_leak:
  assumes "pool_reachable cfg s"
  shows "(owners s c = Some (OIdle key) \<longleftrightarrow> c \<in> pwConn ` set (idle (pool s) key)) \<and>
         distinct (map pwConn (idle (pool s) key)) \<and>
         (closed (pool s) \<and> refillers s = Map.empty \<longrightarrow>
            owners s c \<in> {None, Some OClient, Some OClosed})"
  using pool_reachable_inv [OF assms] closed_owners [OF pool_reachable_inv [OF assms]]
  by (auto simp: pool_inv_defs)

text \<open>
  \<^verbatim>\<open>get\<close> returns the oldest connection that is neither over age nor known to be dead,
  closes exactly the stale ones in front of it, and leaves the rest of the bucket and all
  other buckets as they were.
\<close>

theorem wsPool_get_skips_stale:
  assumes "\<not> closed p"
  shows "case wsPool_get cfg now now' key domains [] p st of (r, closedConns, p', st') \<Rightarrow>
     r = (case dropWhile (stale now) (idle p key) of [] \<Rightarrow> None | item # rest \<Rightarrow> Some item) \<and>
     closedConns = rev (map pwConn (takeWhile (stale now) (idle p key))) \<and>
     idle p' = (idle p)(key := tl (dropWhile (stale now) (idle p key)))"
  using wsPool_get_spec [OF assms, where cc = "[]"] by simp

text \<open>
  A refill gives up only when every domain has failed both with and without fronting, and
  otherwise connects to one of them, whichever mode is preferred at the moment.
\<close>

theorem refillDial_tries_everything:
  assumes "steady env dial"
  shows "case fst (refillDial env domains s) of
     Connected c \<Rightarrow> \<exists>d \<in> set domains. \<exists>fronted. dial d fronted = Inr c
   | Failed e \<Rightarrow> \<forall>d \<in> set domains. \<forall>fronted. isl (dial d fronted)
   | Cancelled \<Rightarrow> False"
  unfolding refillDial_def by (rule tryDomains_steady [OF assms])

subsection \<open>Witnesses\<close>

definition sampleCfg1 :: Config where "sampleCfg1 = zeroConfig\<lparr>PoolSize := 1\<rparr>"
definition sampleWSKey :: wsPoolKey where "sampleWSKey = \<lparr>wkDC = 2, wkIsMedia = False, wkTargetIP = ''149.154.167.220''\<rparr>"

definition sampleDial :: dialEnv where
  "sampleDial = \<lparr>doneBefore = \<lambda>_. False, doneAfter = \<lambda>_. False, clockAt = \<lambda>_. 1, dialWS = \<lambda>_ _ _. Inr 7\<rparr>"

definition sampleDialState :: dialState where
  "sampleDialState = \<lparr>attempt = 0, lastErr = errNoDomains, frontUntil = 0, dialStats = zeroStats\<rparr>"

text \<open>A run: schedule, check, dial, shutdown while the connection is in hand, exit.\<close>

definition sampleDialling :: poolSys where
  "sampleDialling = \<lparr>pool = newWSPool\<lparr>refilling := (\<lambda>_. False)(sampleWSKey := True),
      routes := [sampleWSKey \<mapsto> \<lparr>prDomains = [''a''], prRetryDelay = 0, prRetryAfter = 0\<rparr>]\<rparr>,
     refillers = [sampleWSKey \<mapsto> Dialling [''a'']], owners = Map.empty\<rparr>"

lemma sampleDialling_reachable: "pool_reachable sampleCfg1 sampleDialling"
proof -
  let ?s0 = "\<lparr>pool = newWSPool, refillers = Map.empty, owners = Map.empty\<rparr>"
  obtain started p where sch: "scheduleRefill sampleCfg1 1 sampleWSKey [''a''] newWSPool = (started, p)" by fastforce
  then have p: "started" "p = newWSPool\<lparr>refilling := (\<lambda>_. False)(sampleWSKey := True),
      routes := [sampleWSKey \<mapsto> \<lparr>prDomains = [''a''], prRetryDelay = 0, prRetryAfter = 0\<rparr>]\<rparr>"
    by (auto simp: scheduleRefill_def newWSPool_def sampleCfg1_def zeroConfig_def Let_def)
  let ?s1 = "spawn started sampleWSKey [''a''] (?s0\<lparr>pool := p\<rparr>)"
  have r1: "pool_reachable sampleCfg1 ?s1"
    using sch by (intro pool_reachable.step [OF pool_reachable.start] pool_step.schedule [of sampleCfg1 1]) simp
  have "pool_step sampleCfg1 ?s1 (?s1\<lparr>refillers := (refillers ?s1)(sampleWSKey \<mapsto> Dialling [''a''])\<rparr>)"
    using p by (intro pool_step.check_go)
      (simp_all add: spawn_def refillCheck_def newWSPool_def sampleCfg1_def)
  from pool_reachable.step [OF r1 this] show ?thesis
    using p by (simp add: sampleDialling_def spawn_def)
qed

theorem wsPool_bounded_witness:
  "int (length (idle (pool sampleDialling) sampleWSKey)) + 1 \<le> max 0 (PoolSize sampleCfg1)"
  using wsPool_bounded [OF sampleDialling_reachable, of sampleWSKey]
  by (simp add: sampleDialling_def)

theorem wsPool_no_leak_witness:
  "\<exists>s. pool_reachable sampleCfg1 s \<and> closed (pool s) \<and> refillers s = Map.empty \<and> owners s 7 = Some OClosed \<and>
       owners s 7 \<in> {None, Some OClient, Some OClosed}"
proof -
  let ?K = sampleWSKey and ?D = "[''a'']"
  let ?s1 = "sampleDialling\<lparr>refillers := (refillers sampleDialling)(?K \<mapsto> HasConn ?D 7),
                owners := (owners sampleDialling)(7 \<mapsto> ORefill ?K)\<rparr>"
  have "pool_step sampleCfg1 sampleDialling ?s1"
    by (rule pool_step.dial_ok [of _ _ _ _ sampleDial])
      (simp_all add: sampleDialling_def refillDial_def sampleDial_def Let_def)
  note r1 = pool_reachable.step [OF sampleDialling_reachable this]
  let ?s2 = "?s1\<lparr>pool := poolClose (pool ?s1),
       owners := (\<lambda>c. case owners ?s1 c of Some (OIdle k) \<Rightarrow> Some OClosed | o' \<Rightarrow> o')\<rparr>"
  note r2 = pool_reachable.step [OF r1 pool_step.close]
  let ?s3 = "?s2\<lparr>refillers := (refillers ?s2)(?K \<mapsto> Leaving), owners := (owners ?s2)(7 \<mapsto> OClosed)\<rparr>"
  have "pool_step sampleCfg1 ?s2 ?s3"
    by (rule pool_step.store_closed [of _ _ ?D]) (simp_all add: refillStore_def poolClose_def)
  note r3 = pool_reachable.step [OF r2 this]
  let ?s4 = "?s3\<lparr>pool := refillExit ?K (pool ?s3), refillers := (refillers ?s3)(?K := None)\<rparr>"
  have "pool_step sampleCfg1 ?s3 ?s4" by (rule pool_step.leave) simp
  note r4 = pool_reachable.step [OF r3 this]
  have "closed (pool ?s4)" "refillers ?s4 = Map.empty" "owners ?s4 7 = Some OClosed"
    by (simp_all add: poolClose_def refillExit_def sampleDialling_def)
  with r4 wsPool_no_leak [OF r4, of 7] show ?thesis by blast
qed

theorem wsPool_get_skips_stale_witness:
  "fst (wsPool_get sampleCfg1 (200 * Second) (200 * Second) sampleWSKey [''a'']
      [] (newWSPool\<lparr>idle := (\<lambda>_. [newPooledWS 1 Second, newPooledWS 2 (100 * Second)])\<rparr>) zeroStats) =
   Some (newPooledWS 2 (100 * Second))"
  using wsPool_get_skips_stale [where p = "newWSPool\<lparr>idle := (\<lambda>_. [newPooledWS 1 Second, newPooledWS 2 (100 * Second)])\<rparr>"
      and cfg = sampleCfg1 and now = "200 * Second" and now' = "200 * Second" and key = sampleWSKey
      and domains = "[''a'']" and st = zeroStats]
  by (simp add: newWSPool_def newPooledWS_def stale_def wsPoolMaxAge_def split: prod.splits)

theorem refillDial_tries_everything_witness:
  "case fst (refillDial sampleDial [''a''] sampleDialState) of
     Connected c \<Rightarrow> c = 7 | Failed e \<Rightarrow> False | Cancelled \<Rightarrow> False"
proof -
  have "steady sampleDial (\<lambda>_ _. Inr 7)" by (simp add: steady_def sampleDial_def fun_eq_iff)
  from refillDial_tries_everything [OF this, of "[''a'']" sampleDialState] show ?thesis
    by (auto split: dialOutcome.splits)
qed

end
