(* ===== verification/CFDomains.thy ===== *)
theory CFDomains
  imports ProxyTypes "HOL-Library.Multiset" "HOL-Library.Signed_Division"
begin

text \<open>
  The handling of domain lists in \<^verbatim>\<open>src/src/cfproxy_domains.go\<close>: normalisation, de-duplication,
  validation, the decoding of the obfuscated lists, the configuration's comma-separated
  lists, the list fetched from GitHub, and the random choice and order of domains.
\<close>

subsection \<open>Normalising and collecting\<close>

definition normalizeCFProxyDomain :: "string \<Rightarrow> string" where
  "normalizeCFProxyDomain s = strings_ToLower (strings_Trim (strings_TrimSpace s) (CHR ''.''))"

fun appendUniqueDomains :: "string list \<Rightarrow> string list \<Rightarrow> string list" where
  "appendUniqueDomains dst [] = dst"
| "appendUniqueDomains dst (domain # domains) =
     (let normalized = normalizeCFProxyDomain domain in
      if normalized = [] then appendUniqueDomains dst domains
      else if list_ex (\<lambda>existing. existing = normalized) dst then appendUniqueDomains dst domains
      else appendUniqueDomains (dst @ [normalized]) domains)"

subsection \<open>Validation\<close>

definition isLikelyDomain :: "string \<Rightarrow> bool" where
  "isLikelyDomain domain =
     (if length domain < 3 \<or> \<not> strings_ContainsChar domain (CHR ''.'') then False
      else list_all (\<lambda>ch. is_lower ch \<or> is_digit ch \<or> ch = CHR ''.'' \<or> ch = CHR ''-'') domain)"

definition validLabel :: "string \<Rightarrow> bool" where
  "validLabel label =
     (if label = [] \<or> length label > 63 \<or> strings_HasPrefix label ''-'' \<or> strings_HasSuffix label ''-'' then False
      else list_all (\<lambda>ch. is_lower ch \<or> is_digit ch \<or> ch = CHR ''-'') label)"

definition isValidCFProxyDomain :: "string \<Rightarrow> bool" where
  "isValidCFProxyDomain domain =
     (let d = normalizeCFProxyDomain domain in
      if d = [] \<or> length d > 253 \<or> strings_HasPrefix d ''.'' \<or> strings_HasSuffix d ''.'' then False
      else let labels = strings_Split d (CHR ''.'') in
           if length labels < 2 then False
           else if \<not> list_all validLabel labels then False
           else let tld = last labels in
                if length tld < 2 then False else list_ex is_lower tld)"

subsection \<open>The obfuscated lists\<close>

text \<open>The letters of a \<^verbatim>\<open>.com\<close> name are rotated back by the number of its letters.\<close>

definition rotate_letter :: "int \<Rightarrow> char \<Rightarrow> char" where
  "rotate_letter letters ch =
     (if is_lower ch then
        (let shift = (of_char ch - 97) - letters;
             shift' = (shift smod 26 + 26) smod 26
         in char_of (97 + shift'))
      else ch)"

definition decodeCFProxyDomain :: "string \<Rightarrow> string" where
  "decodeCFProxyDomain s0 =
     (let s = normalizeCFProxyDomain s0 in
      if \<not> strings_HasSuffix s ''.com'' then s
      else let base = strings_TrimSuffix s ''.com'';
               letters = length (filter is_lower base)
           in map (rotate_letter (int letters)) base @ ''.co.uk'')"

definition defaultCFProxyDomains :: "string list" where
  "defaultCFProxyDomains =
     fold (\<lambda>domain out.
             let normalized = normalizeCFProxyDomain (decodeCFProxyDomain domain) in
             if normalized \<noteq> [] then appendUniqueDomains out [normalized] else out)
          cfProxyDefaultDomainPool []"

subsection \<open>Parsing lists\<close>

fun parseCSVParts :: "string list \<Rightarrow> string list \<Rightarrow> string + string list" where
  "parseCSVParts [] out = (if out = [] then Inl ''empty domain pool'' else Inr out)"
| "parseCSVParts (part # parts) out =
     (let domain = normalizeCFProxyDomain part in
      if domain = [] then parseCSVParts parts out
      else if \<not> isLikelyDomain domain then Inl (''invalid domain: '' @ domain)
      else parseCSVParts parts (appendUniqueDomains out [domain]))"

definition parseCFProxyDomainCSV :: "string \<Rightarrow> string + string list" where
  "parseCFProxyDomainCSV s = parseCSVParts (strings_Split s (CHR '','')) []"

text \<open>
  \<^verbatim>\<open>fetchCFProxyDomains\<close>. The HTTP exchange is an argument: the error, or the status code and
  the body, for the address it is given; \<open>cacheBust\<close> is \<^verbatim>\<open>cacheBustURL\<close> of \<^verbatim>\<open>GoURL\<close> at the time of the call.
\<close>

definition poolFromLines :: "string list \<Rightarrow> string list" where
  "poolFromLines lines =
     fold (\<lambda>line0 pool.
             let line = strings_TrimSpace line0 in
             if line = [] \<or> strings_HasPrefix line ''#'' then pool
             else let domain = decodeCFProxyDomain line in
                  if \<not> isValidCFProxyDomain domain then pool else appendUniqueDomains pool [domain])
          lines []"

definition fetchCFProxyDomains ::
  "(string \<Rightarrow> goerror + string) \<Rightarrow> (string \<Rightarrow> goerror + int \<times> string) \<Rightarrow> string \<Rightarrow> goerror + string list" where
  "fetchCFProxyDomains cacheBust get address =
     (let trimmedURL = strings_TrimSpace address in
      if trimmedURL = [] then Inl (newError ''empty cfproxy domains url'')
      else case cacheBust trimmedURL of
        Inl e \<Rightarrow> Inl e
      | Inr fetchURL \<Rightarrow>
          (case get fetchURL of
             Inl e \<Rightarrow> Inl e
           | Inr (status, body) \<Rightarrow>
               (if status \<noteq> 200 then Inl (newError ''unexpected status'')
                else let pool = poolFromLines (strings_Split (take (1024 * 1024) body) (CHR 0x0A)) in
                     if length pool < defaultCFProxyRefreshMinValidDomains
                     then Inl (newError ''low-quality domain list'') else Inr pool)))"

subsection \<open>Random choice and order\<close>

text \<open>
  The generator's draws are arguments: \<open>draw\<close> for \<^verbatim>\<open>cfRand.Intn\<close>, and \<open>draws i\<close> for the index that
  \<^verbatim>\<open>cfRand.Shuffle\<close> exchanges with \<open>i\<close>, for \<open>i\<close> from the last index down to 1.
\<close>

definition chooseActiveDomain :: "nat \<Rightarrow> string list \<Rightarrow> string" where
  "chooseActiveDomain draw domains = (if domains = [] then [] else domains ! (draw mod length domains))"

definition go_swap :: "nat \<Rightarrow> nat \<Rightarrow> 'a list \<Rightarrow> 'a list" where
  "go_swap i j xs = xs[i := xs ! j, j := xs ! i]"

fun shuffle_from :: "(nat \<Rightarrow> nat) \<Rightarrow> nat \<Rightarrow> 'a list \<Rightarrow> 'a list" where
  "shuffle_from draws 0 xs = xs"
| "shuffle_from draws (Suc i) xs = shuffle_from draws i (go_swap (Suc i) (draws (Suc i) mod (Suc i + 1)) xs)"

definition shuffledDomains :: "(nat \<Rightarrow> nat) \<Rightarrow> string list \<Rightarrow> string list" where
  "shuffledDomains draws domains =
     (if length domains \<le> 1 then domains else shuffle_from draws (length domains - 1) domains)"

subsection \<open>Facts on normalising\<close>

definition domain_char :: "char \<Rightarrow> bool" where
  "domain_char ch \<longleftrightarrow> is_lower ch \<or> is_digit ch \<or> ch = CHR ''.'' \<or> ch = CHR ''-''"

lemma domain_char_not_upper: "domain_char c \<Longrightarrow> \<not> is_upper c"
  by (auto simp: domain_char_def is_lower_def is_upper_def is_digit_def char_between_def)

lemma domain_char_not_space: "domain_char c \<Longrightarrow> \<not> is_space c"
  by (auto simp: domain_char_def is_lower_def is_space_def is_digit_def char_between_def)

lemma lower_char_domain: "domain_char c \<Longrightarrow> lower_char c = c"
  by (simp add: lower_char_def domain_char_not_upper)

lemma lower_char_dot [simp]: "lower_char c = CHR ''.'' \<longleftrightarrow> c = CHR ''.''"
proof
  assume a: "lower_char c = CHR ''.''"
  show "c = CHR ''.''"
  proof (cases "is_upper c")
    case True
    then have "is_lower (CHR ''.'')" using is_lower_lower_char [of c] a by simp
    then show ?thesis by (simp add: is_lower_def char_between_def)
  qed (use a in \<open>simp add: lower_char_def\<close>)
qed (simp add: lower_char_def is_upper_def char_between_def)

lemma normalize_id:
  assumes "list_all domain_char s" and "s = [] \<or> hd s \<noteq> CHR ''.'' \<and> last s \<noteq> CHR ''.''"
  shows "normalizeCFProxyDomain s = s"
proof -
  have "strings_TrimSpace s = s"
    unfolding strings_TrimSpace_def
    using assms(1) by (intro trim_by_id) (cases "s = []", auto simp: list_all_iff domain_char_not_space)
  moreover have "strings_Trim s (CHR ''.'') = s"
    unfolding strings_Trim_def using assms(2) by (intro trim_by_id) auto
  moreover have "strings_ToLower s = s"
    using assms(1) by (auto simp: strings_ToLower_def list_all_iff lower_char_domain intro: map_idI)
  ultimately show ?thesis by (simp add: normalizeCFProxyDomain_def)
qed

lemma normalize_ends:
  assumes "normalizeCFProxyDomain s \<noteq> []"
  shows "hd (normalizeCFProxyDomain s) \<noteq> CHR ''.'' \<and> last (normalizeCFProxyDomain s) \<noteq> CHR ''.''"
proof -
  let ?t = "trim_by (\<lambda>x. x = CHR ''.'') (strings_TrimSpace s)"
  have "?t \<noteq> []" using assms by (auto simp: normalizeCFProxyDomain_def strings_Trim_def strings_ToLower_def)
  with trim_by_hd [OF this] show ?thesis
    by (simp add: normalizeCFProxyDomain_def strings_Trim_def strings_ToLower_def hd_map last_map)
qed

lemma normalize_fixpoint:
  "list_all domain_char (normalizeCFProxyDomain s) \<Longrightarrow>
   normalizeCFProxyDomain (normalizeCFProxyDomain s) = normalizeCFProxyDomain s"
  using normalize_ends [of s] by (intro normalize_id) auto

lemma isLikelyDomain_chars: "isLikelyDomain d \<Longrightarrow> list_all domain_char d"
  by (auto simp: isLikelyDomain_def domain_char_def list_all_iff split: if_splits)

subsection \<open>Facts on collecting\<close>

lemma appendUnique_distinct: "distinct dst \<Longrightarrow> distinct (appendUniqueDomains dst ds)"
  by (induction dst ds rule: appendUniqueDomains.induct) (auto simp: Let_def list_ex_iff)

lemma appendUnique_set:
  "set (appendUniqueDomains dst ds) = set dst \<union> (normalizeCFProxyDomain ` set ds - {[]})"
  by (induction dst ds rule: appendUniqueDomains.induct) (auto simp: Let_def list_ex_iff)

lemma parseCSVParts_spec:
  "distinct out \<Longrightarrow>
   (case parseCSVParts parts out of
      Inr res \<Rightarrow> distinct res \<and> res \<noteq> [] \<and>
        (\<forall>p \<in> set parts. normalizeCFProxyDomain p \<noteq> [] \<longrightarrow> isLikelyDomain (normalizeCFProxyDomain p)) \<and>
        set res = set out \<union> (normalizeCFProxyDomain ` set parts - {[]})
    | Inl e \<Rightarrow>
        (out = [] \<and> normalizeCFProxyDomain ` set parts \<subseteq> {[]}) \<or>
        (\<exists>p \<in> set parts. normalizeCFProxyDomain p \<noteq> [] \<and> \<not> isLikelyDomain (normalizeCFProxyDomain p)))"
proof (induction parts out rule: parseCSVParts.induct)
  case (2 part parts out)
  show ?case
  proof (cases "normalizeCFProxyDomain part = []")
    case True
    with 2 show ?thesis by (auto split: sum.splits)
  next
    case False
    show ?thesis
    proof (cases "isLikelyDomain (normalizeCFProxyDomain part)")
      case True
      have fixp: "normalizeCFProxyDomain (normalizeCFProxyDomain part) = normalizeCFProxyDomain part"
        by (rule normalize_fixpoint [OF isLikelyDomain_chars [OF True]])
      have "parseCSVParts (part # parts) out =
          parseCSVParts parts (appendUniqueDomains out [normalizeCFProxyDomain part])"
        using True False by (simp add: Let_def)
      moreover have "set (appendUniqueDomains out [normalizeCFProxyDomain part]) =
          insert (normalizeCFProxyDomain part) (set out)"
        using False fixp by (auto simp: appendUnique_set simp del: appendUniqueDomains.simps)
      moreover from this have "appendUniqueDomains out [normalizeCFProxyDomain part] \<noteq> []" by force
      ultimately show ?thesis
        using 2(2) [OF refl False] True False appendUnique_distinct [OF 2(3)]
        by (auto split: sum.splits simp del: appendUniqueDomains.simps)
    qed (use False in \<open>auto simp: Let_def\<close>)
  qed
qed simp

subsection \<open>Facts on the obfuscation\<close>

lemma rem_26: "(x smod 26 + 26) smod 26 = x mod (26 :: int)"
proof -
  have "0 \<le> x smod 26 + 26" using smod_int_range [of 26 x] by simp
  then have "(x smod 26 + 26) smod 26 = (x smod 26 + 26) mod 26"
    by (cases "x smod 26 + 26 = 0") (simp_all add: smod_int_alt_def)
  also have "\<dots> = (x - 26 * (x sdiv 26)) mod 26" by (simp add: minus_mult_sdiv_eq_smod)
  also have "\<dots> = x mod 26" using mod_mult_self2 [of x 26 "- (x sdiv 26)"] by simp
  finally show ?thesis .
qed

lemma is_lower_code: "is_lower c \<longleftrightarrow> 97 \<le> (of_char c :: int) \<and> (of_char c :: int) \<le> 122"
proof -
  have "(of_char c :: int) = int (of_char c :: nat)" by (simp only: of_nat_of_char)
  then show ?thesis by (simp add: is_lower_def char_between_def)
qed

lemma rotate_letter_lower:
  assumes "is_lower c"
  shows "rotate_letter n c = char_of (97 + (of_char c - 97 - n) mod 26)"
  using assms by (simp add: rotate_letter_def rem_26)

lemma of_char_char_of_int:
  assumes "0 \<le> x" and "x < (256 :: int)"
  shows "of_char (char_of x) = x"
  using assms by simp

lemma is_lower_rotate [simp]: "is_lower (rotate_letter n c) = is_lower c"
proof (cases "is_lower c")
  case True
  have "0 \<le> (of_char c - 97 - n) mod 26" "(of_char c - 97 - n) mod 26 < (26 :: int)" by simp_all
  with True show ?thesis
    by (simp add: rotate_letter_lower is_lower_code of_char_char_of_int del: of_char_of)
qed (simp add: rotate_letter_def)

lemma rotate_back: "rotate_letter n (rotate_letter (- n) c) = c"
proof (cases "is_lower c")
  case True
  let ?k = "(of_char c :: int) - 97"
  have k: "0 \<le> ?k" "?k < 26" using True by (simp_all add: is_lower_code)
  have range: "0 \<le> (?k + n) mod 26" "(?k + n) mod 26 < 26" by simp_all
  have "rotate_letter n (rotate_letter (- n) c) = char_of (97 + ((?k + n) mod 26 - n) mod 26)"
    using True range by (simp add: rotate_letter_lower [of "rotate_letter (- n) c"])
      (simp add: rotate_letter_lower of_char_char_of_int del: of_char_of)
  also have "((?k + n) mod 26 - n) mod 26 = ?k"
    using k by (simp add: mod_diff_left_eq)
  finally show ?thesis by simp
qed (simp add: rotate_letter_def)

text \<open>The encoder of the list's authors: rotate forward and pretend to be a \<^verbatim>\<open>.com\<close> name.\<close>

definition encodeCFProxyDomain :: "string \<Rightarrow> string" where
  "encodeCFProxyDomain base = map (rotate_letter (- int (length (filter is_lower base)))) base @ ''.com''"

lemma domain_char_rotate: "domain_char (rotate_letter n c) = domain_char c"
proof (cases "is_lower c")
  case True
  with is_lower_rotate [of n c] show ?thesis by (simp add: domain_char_def)
qed (simp add: rotate_letter_def)

lemma rotate_dot: "rotate_letter n c = CHR ''.'' \<longleftrightarrow> c = CHR ''.''"
proof (cases "is_lower c")
  case True
  then have "is_lower (rotate_letter n c)" by simp
  with True show ?thesis by (auto simp: is_lower_def char_between_def)
qed (simp add: rotate_letter_def)

lemma HasSuffix_append [simp]: "strings_HasSuffix (s @ p) p" "strings_TrimSuffix (s @ p) p = s"
  by (simp_all add: strings_HasSuffix_def strings_TrimSuffix_def)

lemma decode_encode:
  assumes "base \<noteq> []" and "list_all domain_char base" and "hd base \<noteq> CHR ''.''"
  shows "decodeCFProxyDomain (encodeCFProxyDomain base) = base @ ''.co.uk''"
proof -
  let ?n = "int (length (filter is_lower base))"
  let ?rot = "map (rotate_letter (- ?n)) base"
  have "list_all domain_char (?rot @ ''.com'')"
    using assms(2) by (simp add: list_all_iff domain_char_rotate)
      (simp add: domain_char_def is_lower_def char_between_def)
  moreover have "hd (?rot @ ''.com'') \<noteq> CHR ''.''"
    using assms(1,3) by (simp add: hd_map rotate_dot)
  ultimately have "normalizeCFProxyDomain (?rot @ ''.com'') = ?rot @ ''.com''"
    by (intro normalize_id) auto
  moreover have "length (filter is_lower ?rot) = length (filter is_lower base)"
    by (simp add: filter_map comp_def)
  ultimately show ?thesis
    by (simp add: decodeCFProxyDomain_def encodeCFProxyDomain_def Let_def comp_def rotate_back)
qed

subsection \<open>Facts on shuffling\<close>

lemma mset_go_swap: "i < length xs \<Longrightarrow> j < length xs \<Longrightarrow> mset (go_swap i j xs) = mset xs"
  by (simp add: go_swap_def mset_swap)

lemma length_go_swap [simp]: "length (go_swap i j xs) = length xs"
  by (simp add: go_swap_def)

lemma mset_shuffle_from: "n < length xs \<Longrightarrow> mset (shuffle_from draws n xs) = mset xs"
proof (induction n arbitrary: xs)
  case (Suc n)
  have "draws (Suc n) mod (Suc n + 1) < Suc n + 1" by (rule mod_less_divisor) simp
  with Suc.prems have "mset (go_swap (Suc n) (draws (Suc n) mod (Suc n + 1)) xs) = mset xs"
    by (intro mset_go_swap) linarith+
  with Suc show ?case by simp
qed simp

lemma mset_shuffledDomains: "mset (shuffledDomains draws ds) = mset ds"
proof (cases "length ds \<le> 1")
  case False
  then have "length ds - 1 < length ds" by simp
  then show ?thesis using False mset_shuffle_from by (simp add: shuffledDomains_def)
qed (simp add: shuffledDomains_def)

subsection \<open>Facts on validation\<close>

lemma set_strings_Join: "set (strings_Join ss sep) \<subseteq> (\<Union>s\<in>set ss. set s) \<union> set sep"
  by (induction ss sep rule: strings_Join.induct) auto

lemma valid_chars:
  assumes "isValidCFProxyDomain d"
  shows "list_all domain_char (normalizeCFProxyDomain d)"
proof -
  let ?d = "normalizeCFProxyDomain d" and ?ls = "strings_Split (normalizeCFProxyDomain d) (CHR ''.'')"
  have "\<forall>l \<in> set ?ls. validLabel l"
    using assms by (auto simp: isValidCFProxyDomain_def Let_def list_all_iff split: if_splits)
  then have "\<forall>l \<in> set ?ls. \<forall>c \<in> set l. domain_char c"
    by (auto simp: validLabel_def list_all_iff domain_char_def split: if_splits)
  moreover have "set ?d \<subseteq> (\<Union>l\<in>set ?ls. set l) \<union> {CHR ''.''}"
    using set_strings_Join [of ?ls "''.''"] strings_Join_Split [of ?d "CHR ''.''"] by simp
  ultimately show ?thesis by (auto simp: list_all_iff domain_char_def)
qed

lemma valid_normalized:
  "isValidCFProxyDomain d \<Longrightarrow>
   normalizeCFProxyDomain (normalizeCFProxyDomain d) = normalizeCFProxyDomain d"
  by (rule normalize_fixpoint [OF valid_chars])

lemma valid_likely:
  assumes "isValidCFProxyDomain d"
  shows "isLikelyDomain (normalizeCFProxyDomain d)"
proof -
  let ?d = "normalizeCFProxyDomain d"
  obtain l1 l2 ls where sp: "strings_Split ?d (CHR ''.'') = l1 # l2 # ls"
    using assms
    by (auto simp: isValidCFProxyDomain_def Let_def numeral_eq_Suc Suc_le_length_iff not_less split: if_splits)
  have d: "?d = l1 @ ''.'' @ strings_Join (l2 # ls) ''.''"
    using strings_Join_Split [of ?d "CHR ''.''"] sp by simp
  have "validLabel l1" "\<forall>l \<in> set (l2 # ls). validLabel l"
    using assms sp by (auto simp: isValidCFProxyDomain_def Let_def list_all_iff split: if_splits)
  then have "l1 \<noteq> []" "l2 \<noteq> []" by (auto simp: validLabel_def)
  then have "3 \<le> length ?d"
    using d by (cases l1; cases l2; cases ls) auto
  moreover have "CHR ''.'' \<in> set ?d" by (subst d) simp
  ultimately show ?thesis
    using valid_chars [OF assms] by (auto simp: isLikelyDomain_def strings_ContainsChar_def list_all_iff domain_char_def)
qed

definition goodPool :: "string list \<Rightarrow> bool" where
  "goodPool pool \<longleftrightarrow> distinct pool \<and>
     list_all (\<lambda>d. isLikelyDomain d \<and> normalizeCFProxyDomain d = d) pool"

lemma valid_likely_pool:
  assumes "goodPool pool" and "isValidCFProxyDomain d"
  shows "goodPool (appendUniqueDomains pool [d])"
  using assms appendUnique_distinct [of pool "[d]"] appendUnique_set [of pool "[d]"]
    valid_likely [OF assms(2)] valid_normalized [OF assms(2)]
  by (auto simp: goodPool_def list_all_iff simp del: appendUniqueDomains.simps)

lemma goodPool_lines: "goodPool (poolFromLines lines)"
proof -
  have "goodPool pool \<Longrightarrow> goodPool (fold (\<lambda>line0 pool.
             let line = strings_TrimSpace line0 in
             if line = [] \<or> strings_HasPrefix line ''#'' then pool
             else let domain = decodeCFProxyDomain line in
                  if \<not> isValidCFProxyDomain domain then pool else appendUniqueDomains pool [domain]) lines pool)" for pool
  proof (induction lines arbitrary: pool)
    case (Cons l ls)
    show ?case
      using Cons.IH Cons.prems valid_likely_pool
      by (simp add: Let_def del: appendUniqueDomains.simps)
  qed simp
  then show ?thesis by (simp add: poolFromLines_def goodPool_def)
qed

subsection \<open>The built-in pool\<close>

definition plainCom :: "string \<Rightarrow> bool" where
  "plainCom d \<longleftrightarrow> 4 < length d \<and> drop (length d - 4) d = ''.com'' \<and> list_all is_lower (take (length d - 4) d)"

lemma is_lower_domain: "is_lower c \<Longrightarrow> domain_char c"
  by (simp add: domain_char_def)

lemma is_lower_not_dot: "is_lower c \<Longrightarrow> c \<noteq> CHR ''.''"
  by (auto simp: is_lower_def char_between_def)

lemma suffix_chars: "list_all domain_char ''.com''" "list_all domain_char ''.co.uk''"
  by (simp_all add: domain_char_def is_lower_def char_between_def)

lemma lower_then_suffix:
  assumes "base \<noteq> []" and "list_all is_lower base" and "list_all domain_char suf" and "suf \<noteq> []"
    and "last suf \<noteq> CHR ''.''"
  shows "list_all domain_char (base @ suf) \<and> normalizeCFProxyDomain (base @ suf) = base @ suf"
proof -
  have "list_all domain_char (base @ suf)" using assms by (auto simp: list_all_iff is_lower_domain)
  moreover have "hd (base @ suf) \<noteq> CHR ''.''" using assms(1,2) by (cases base) (auto simp: is_lower_not_dot)
  ultimately show ?thesis using assms(4,5) normalize_id by simp
qed

lemma decode_plainCom:
  assumes "plainCom d"
  shows "isLikelyDomain (decodeCFProxyDomain d) \<and> normalizeCFProxyDomain (decodeCFProxyDomain d) = decodeCFProxyDomain d"
proof -
  define base where "base = take (length d - 4) d"
  have base: "base \<noteq> []" "list_all is_lower base" and d: "d = base @ ''.com''"
    using assms append_take_drop_id [of "length d - 4" d] by (auto simp: plainCom_def base_def)
  let ?rot = "map (rotate_letter (int (length (filter is_lower base)))) base"
  have "normalizeCFProxyDomain d = d"
    using lower_then_suffix [OF base suffix_chars(1)] by (simp add: d)
  then have dec: "decodeCFProxyDomain d = ?rot @ ''.co.uk''"
    by (simp add: decodeCFProxyDomain_def Let_def) (simp add: d)
  have "list_all is_lower ?rot" using base(2) by (simp add: list_all_iff)
  then have "list_all domain_char (?rot @ ''.co.uk'') \<and> normalizeCFProxyDomain (?rot @ ''.co.uk'') = ?rot @ ''.co.uk''"
    using base(1) by (intro lower_then_suffix suffix_chars) auto
  then show ?thesis
    unfolding dec by (auto simp: isLikelyDomain_def strings_ContainsChar_def list_all_iff domain_char_def)
qed

lemma pool_plainCom: "list_all plainCom cfProxyDefaultDomainPool"
  by (simp add: cfProxyDefaultDomainPool_def plainCom_def is_lower_def char_between_def)

lemma default_goodPool: "goodPool defaultCFProxyDomains \<and> defaultCFProxyDomains \<noteq> []"
proof -
  define f where "f = (\<lambda>domain out.
             let normalized = normalizeCFProxyDomain (decodeCFProxyDomain domain) in
             if normalized \<noteq> [] then appendUniqueDomains out [normalized] else out)"
  have good: "goodPool (f d out) \<and> f d out \<noteq> []" if "plainCom d" "goodPool out" for d out
  proof -
    have nd: "normalizeCFProxyDomain (decodeCFProxyDomain d) = decodeCFProxyDomain d"
      and likely: "isLikelyDomain (decodeCFProxyDomain d)" using decode_plainCom [OF that(1)] by simp_all
    then have "decodeCFProxyDomain d \<noteq> []" by (auto simp: isLikelyDomain_def)
    then have f: "f d out = appendUniqueDomains out [decodeCFProxyDomain d]" by (simp add: f_def nd Let_def)
    moreover have "set (f d out) = insert (decodeCFProxyDomain d) (set out)"
      unfolding f appendUnique_set using nd \<open>decodeCFProxyDomain d \<noteq> []\<close> by auto
    moreover have "distinct (f d out)" unfolding f using that(2) by (intro appendUnique_distinct) (simp add: goodPool_def)
    ultimately show ?thesis using that(2) nd likely by (auto simp: goodPool_def list_all_iff)
  qed
  have "list_all plainCom ds \<Longrightarrow> goodPool out \<Longrightarrow> goodPool (fold f ds out) \<and> (ds \<noteq> [] \<or> out \<noteq> [] \<longrightarrow> fold f ds out \<noteq> [])" for ds out
  proof (induction ds arbitrary: out)
    case (Cons d ds)
    have "goodPool (f d out)" "f d out \<noteq> []" using good Cons.prems by simp_all
    then show ?case using Cons.IH [of "f d out"] Cons.prems by simp
  qed simp
  from this [OF pool_plainCom, of "[]"]
  have "goodPool (fold f cfProxyDefaultDomainPool [])" "cfProxyDefaultDomainPool \<noteq> [] \<longrightarrow> fold f cfProxyDefaultDomainPool [] \<noteq> []"
    by (simp_all add: goodPool_def)
  moreover have "cfProxyDefaultDomainPool \<noteq> []" by (simp add: cfProxyDefaultDomainPool_def)
  moreover have "defaultCFProxyDomains = fold f cfProxyDefaultDomainPool []"
    unfolding defaultCFProxyDomains_def f_def ..
  ultimately show ?thesis by simp
qed

subsection \<open>Properties\<close>

text \<open>
  Decoding undoes the obfuscation of the published lists: a name whose letters were
  rotated forward by their number and given the suffix \<^verbatim>\<open>.com\<close> decodes to that name under
  \<^verbatim>\<open>.co.uk\<close>, for every length and every mix of letters, digits, dots and dashes.
\<close>

theorem decodeCFProxyDomain_roundtrip:
  assumes "base \<noteq> []" and "list_all domain_char base" and "hd base \<noteq> CHR ''.''"
  shows "decodeCFProxyDomain (encodeCFProxyDomain base) = base @ ''.co.uk''"
  by (rule decode_encode [OF assms])

theorem decodeCFProxyDomain_roundtrip_witness:
  "decodeCFProxyDomain (encodeCFProxyDomain ''pclead'') = ''pclead.co.uk''"
  using decodeCFProxyDomain_roundtrip [of "''pclead''"]
  by (simp add: domain_char_def is_lower_def char_between_def)

text \<open>
  \<^verbatim>\<open>parseCFProxyDomainCSV\<close> succeeds exactly when at least one entry is not blank and all
  such entries are plausible domains, and then returns exactly their normalised forms, each
  once.
\<close>

theorem parseCFProxyDomainCSV_spec:
  "(let entries = filter (\<lambda>d. d \<noteq> []) (map normalizeCFProxyDomain (strings_Split csv (CHR '','')))
    in case parseCFProxyDomainCSV csv of
         Inr pool \<Rightarrow> entries \<noteq> [] \<and> list_all isLikelyDomain entries \<and> distinct pool \<and> set pool = set entries
       | Inl e \<Rightarrow> \<not> (entries \<noteq> [] \<and> list_all isLikelyDomain entries))"
proof (cases "parseCFProxyDomainCSV csv")
  case (Inl e)
  with parseCSVParts_spec [of "[]" "strings_Split csv (CHR '','')"] show ?thesis
    by (auto simp: parseCFProxyDomainCSV_def Let_def list_all_iff filter_empty_conv)
next
  case (Inr pool)
  with parseCSVParts_spec [of "[]" "strings_Split csv (CHR '','')"]
  have "distinct pool" "pool \<noteq> []" and
    "\<forall>p \<in> set (strings_Split csv (CHR '','')). normalizeCFProxyDomain p \<noteq> [] \<longrightarrow> isLikelyDomain (normalizeCFProxyDomain p)"
    and set: "set pool = set (filter (\<lambda>d. d \<noteq> []) (map normalizeCFProxyDomain (strings_Split csv (CHR '',''))))"
    by (auto simp: parseCFProxyDomainCSV_def)
  moreover from set \<open>pool \<noteq> []\<close> have "filter (\<lambda>d. d \<noteq> []) (map normalizeCFProxyDomain (strings_Split csv (CHR '',''))) \<noteq> []"
    by (metis empty_set set_empty)
  ultimately show ?thesis using Inr by (auto simp: Let_def list_all_iff)
qed

text \<open>
  Whatever the list server answers, a pool that \<^verbatim>\<open>fetchCFProxyDomains\<close> returns has at least
  three domains, no duplicates, and only normalised names that the configuration's own check
  accepts; the built-in pool has the same form and is not empty.
\<close>

theorem fetched_pool_is_good:
  "(case fetchCFProxyDomains cacheBust get address of
      Inr pool \<Rightarrow> goodPool pool \<and> 3 \<le> length pool
    | Inl e \<Rightarrow> True) \<and>
   goodPool defaultCFProxyDomains \<and> defaultCFProxyDomains \<noteq> []"
  using goodPool_lines default_goodPool
  by (auto simp: fetchCFProxyDomains_def Let_def defaultCFProxyRefreshMinValidDomains_def split: sum.splits)

end
