(* ===== verification/Reservation.thy ===== *)
theory Reservation
  imports Prelude
begin

text \<open>
  The contract of a bounded reservation. Several parts of the program let concurrent
  goroutines reserve a slot per key, work without the lock, and release the slot: the dials
  to a fallback domain (at most four at a time), the direct TCP route (one at a time), the
  refilling of a connection pool (one at a time). Each operation runs under the component's
  mutex, so that an execution is a sequence of operations; a goroutine only releases what
  it has reserved.
\<close>

datatype ('b, 'f, 'o, 'k) resvOp = Begin 'b 'k | Finish 'f 'k | Other 'o

text \<open>
  Running a sequence, with the number of unreleased reservations per key recorded beside the
  state. A release without a reservation does not occur in the program and is skipped.
\<close>

fun resv_run ::
  "('b \<Rightarrow> 'k \<Rightarrow> 's \<Rightarrow> bool \<times> 's) \<Rightarrow> ('f \<Rightarrow> 'k \<Rightarrow> 's \<Rightarrow> 's) \<Rightarrow> ('o \<Rightarrow> 's \<Rightarrow> 's)
   \<Rightarrow> ('b, 'f, 'o, 'k) resvOp list \<Rightarrow> 's \<times> ('k \<Rightarrow> nat) \<Rightarrow> 's \<times> ('k \<Rightarrow> nat)" where
  "resv_run beg fin oth [] st = st"
| "resv_run beg fin oth (Begin b k # ops) (s, out) =
     (case beg b k s of
        (True, s') \<Rightarrow> resv_run beg fin oth ops (s', out(k := out k + 1))
      | (False, s') \<Rightarrow> resv_run beg fin oth ops (s', out))"
| "resv_run beg fin oth (Finish f k # ops) (s, out) =
     (if out k = 0 then resv_run beg fin oth ops (s, out)
      else resv_run beg fin oth ops (fin f k s, out(k := out k - 1)))"
| "resv_run beg fin oth (Other x # ops) (s, out) = resv_run beg fin oth ops (oth x s, out)"

locale reservation =
  fixes beg :: "'b \<Rightarrow> 'k \<Rightarrow> 's \<Rightarrow> bool \<times> 's"
    and fin :: "'f \<Rightarrow> 'k \<Rightarrow> 's \<Rightarrow> 's"
    and oth :: "'o \<Rightarrow> 's \<Rightarrow> 's"
    and held :: "'s \<Rightarrow> 'k \<Rightarrow> nat"
    and cap :: nat
    and good :: "'s \<Rightarrow> bool"
  assumes begin_taken:
      "good s \<Longrightarrow> beg b k s = (True, s') \<Longrightarrow> held s k < cap \<and> held s' = (held s)(k := held s k + 1)"
    and begin_refused: "good s \<Longrightarrow> beg b k s = (False, s') \<Longrightarrow> held s' = held s"
    and finish_released: "good s \<Longrightarrow> 0 < held s k \<Longrightarrow> held (fin f k s) = (held s)(k := held s k - 1)"
    and other_keeps: "good s \<Longrightarrow> held (oth x s) = held s"
    and good_begin: "good s \<Longrightarrow> good (snd (beg b k s))"
    and good_finish: "good s \<Longrightarrow> 0 < held s k \<Longrightarrow> good (fin f k s)"
    and good_other: "good s \<Longrightarrow> good (oth x s)"
begin

lemma run_held:
  assumes "good s" and "held s = out" and "\<forall>k. out k \<le> cap"
  shows "good (fst (resv_run beg fin oth ops (s, out))) \<and>
         held (fst (resv_run beg fin oth ops (s, out))) = snd (resv_run beg fin oth ops (s, out)) \<and>
         (\<forall>k. snd (resv_run beg fin oth ops (s, out)) k \<le> cap)"
  using assms
proof (induction ops arbitrary: s out)
  case (Cons op ops)
  show ?case
  proof (cases op)
    case (Begin b k)
    obtain ok s' where beg: "beg b k s = (ok, s')" by fastforce
    have "good s'" using good_begin [OF Cons.prems(1), of b k] beg by simp
    show ?thesis
    proof (cases ok)
      case True
      with begin_taken [OF Cons.prems(1)] beg Cons.prems(2)
      have lt: "out k < cap" and held': "held s' = out(k := out k + 1)" by auto
      have bound: "\<forall>j. (out(k := out k + 1)) j \<le> cap" using lt Cons.prems(3) by simp
      have step: "resv_run beg fin oth (op # ops) (s, out) = resv_run beg fin oth ops (s', out(k := out k + 1))"
        using beg True Begin by simp
      show ?thesis unfolding step by (rule Cons.IH [OF \<open>good s'\<close> held' bound])
    next
      case False
      with begin_refused [OF Cons.prems(1)] beg Cons.prems(2) have held': "held s' = out" by auto
      have step: "resv_run beg fin oth (op # ops) (s, out) = resv_run beg fin oth ops (s', out)"
        using beg False Begin by simp
      show ?thesis unfolding step by (rule Cons.IH [OF \<open>good s'\<close> held' Cons.prems(3)])
    qed
  next
    case (Finish f k)
    show ?thesis
    proof (cases "out k = 0")
      case True
      with Cons Finish show ?thesis by auto
    next
      case False
      then have pos: "0 < held s k" using Cons.prems(2) by simp
      have held': "held (fin f k s) = out(k := out k - 1)"
        using finish_released [OF Cons.prems(1) pos] Cons.prems(2) by simp
      have bound: "\<forall>j. (out(k := out k - 1)) j \<le> cap"
        using Cons.prems(3) by (auto intro: order_trans [OF diff_le_self])
      have step: "resv_run beg fin oth (op # ops) (s, out) = resv_run beg fin oth ops (fin f k s, out(k := out k - 1))"
        using False Finish by simp
      show ?thesis unfolding step by (rule Cons.IH [OF good_finish [OF Cons.prems(1) pos] held' bound])
    qed
  next
    case (Other x)
    with Cons.IH [of "oth x s" out] other_keeps good_other Cons.prems show ?thesis by simp
  qed
qed simp

end

text \<open>A reservation that is also refused during a cooldown.\<close>

locale cooled_reservation = reservation +
  fixes clock :: "'b \<Rightarrow> instant"
    and until :: "'s \<Rightarrow> 'k \<Rightarrow> instant"
  assumes begin_after_cooldown: "beg b k s = (True, s') \<Longrightarrow> until s k \<le> clock b"
    and begin_keeps_until: "until (snd (beg b k s)) = until s"
begin

lemma refused_while_cooling: "clock b < until s k \<Longrightarrow> \<not> fst (beg b k s)"
  using begin_after_cooldown [of b k s] by (cases "beg b k s") fastforce

lemma burst_refused:
  assumes "good s" and "\<forall>b \<in> set bs. clock b < until s k"
  shows "snd (resv_run beg fin oth (map (\<lambda>b. Begin b k) bs) (s, out)) = out"
  using assms
proof (induction bs arbitrary: s)
  case (Cons b bs)
  obtain ok s' where beg: "beg b k s = (ok, s')" by fastforce
  have "\<not> ok" using refused_while_cooling [of b s k] Cons.prems beg by simp
  moreover have "until s' = until s" using begin_keeps_until [of b k s] beg by simp
  moreover have "good s'" using good_begin [OF Cons.prems(1), of b k] beg by simp
  ultimately show ?case using Cons beg by simp
qed simp

end

end
