(* ===== verification/FallbackDials.thy ===== *)
theory FallbackDials
  imports CFDomains Reservation
begin

text \<open>
  The mutable part of the configuration, \<^verbatim>\<open>cfproxyMu\<close>'s critical sections in
  \<^verbatim>\<open>src/src/cfproxy_domains.go\<close>: the domain pool and its active domains, the cooldowns of failed
  domains, and the reservations that bound the concurrent dials per domain. One definition is
  one critical section; \<open>now\<close> is what \<^verbatim>\<open>time.Now()\<close> returns in it.
\<close>

subsection \<open>Queries\<close>

definition hasCFProxyDomains :: "Config \<Rightarrow> bool" where
  "hasCFProxyDomains cfg \<longleftrightarrow> length (FallbackCFProxyDomains cfg) > 0"

definition hasCFProxyWorkerDomains :: "Config \<Rightarrow> bool" where
  "hasCFProxyWorkerDomains cfg \<longleftrightarrow> length (FallbackCFProxyWorkerDomains cfg) > 0"

definition cfproxyWorkerDomainsForTry :: "(nat \<Rightarrow> nat) \<Rightarrow> Config \<Rightarrow> string list" where
  "cfproxyWorkerDomainsForTry draws cfg = shuffledDomains draws (FallbackCFProxyWorkerDomains cfg)"

definition cfproxyActiveDomain :: "Config \<Rightarrow> string" where
  "cfproxyActiveDomain cfg = FallbackCFProxyActive cfg"

definition cfproxyDomainPoolSize :: "Config \<Rightarrow> nat" where
  "cfproxyDomainPoolSize cfg = length (FallbackCFProxyDomains cfg)"

subsection \<open>The candidates for a dial\<close>

definition cfproxyDomainAvailableLocked :: "string \<Rightarrow> instant \<Rightarrow> Config \<Rightarrow> bool \<times> Config" where
  "cfproxyDomainAvailableLocked domain now cfg =
     (case cfproxyFailUntil cfg domain of
        None \<Rightarrow> (True, cfg)
      | Some until \<Rightarrow>
          (if now < until then (False, cfg)
           else (True, cfg\<lparr>cfproxyFailUntil := (cfproxyFailUntil cfg)(domain := None)\<rparr>)))"

text \<open>The two loops: the active domain once, then the others.\<close>

fun activeForTry :: "string \<Rightarrow> instant \<Rightarrow> string list \<Rightarrow> Config \<Rightarrow> string list \<times> Config" where
  "activeForTry active now [] cfg = ([], cfg)"
| "activeForTry active now (domain # domains) cfg =
     (if domain = active then
        (case cfproxyDomainAvailableLocked domain now cfg of
           (True, cfg') \<Rightarrow> ([domain], cfg')
         | (False, cfg') \<Rightarrow> activeForTry active now domains cfg')
      else activeForTry active now domains cfg)"

fun othersForTry :: "string \<Rightarrow> instant \<Rightarrow> string list \<Rightarrow> Config \<Rightarrow> string list \<times> Config" where
  "othersForTry active now [] cfg = ([], cfg)"
| "othersForTry active now (domain # domains) cfg =
     (if domain \<noteq> active then
        (case cfproxyDomainAvailableLocked domain now cfg of
           (True, cfg') \<Rightarrow> (case othersForTry active now domains cfg' of (out, cfg'') \<Rightarrow> (domain # out, cfg''))
         | (False, cfg') \<Rightarrow> othersForTry active now domains cfg')
      else othersForTry active now domains cfg)"

definition cfproxyDomainsForTry :: "(nat \<Rightarrow> nat) \<Rightarrow> instant \<Rightarrow> int \<Rightarrow> Config \<Rightarrow> string list \<times> Config" where
  "cfproxyDomainsForTry draws now dc cfg =
     (if FallbackCFProxyDomains cfg = [] then ([], cfg)
      else let active0 = normalizeCFProxyDomain (map_get [] (FallbackCFProxyPerDCActive cfg) dc);
               active = (if active0 = [] then normalizeCFProxyDomain (FallbackCFProxyActive cfg) else active0);
               (out, cfg1) = (if active \<noteq> [] then activeForTry active now (FallbackCFProxyDomains cfg) cfg
                              else ([], cfg));
               (others, cfg2) = othersForTry active now (shuffledDomains draws (FallbackCFProxyDomains cfg)) cfg1
           in (out @ others, cfg2))"

subsection \<open>Reserving a dial\<close>

definition beginFallbackDial :: "instant \<Rightarrow> fallbackDialKey \<Rightarrow> Config \<Rightarrow> bool \<times> Config" where
  "beginFallbackDial now key cfg =
     (let domain = fdkDomain key;
          domains = (if fdkWorker key then FallbackCFProxyWorkerDomains cfg else FallbackCFProxyDomains cfg);
          failures = (if fdkWorker key then cfworkerFailUntil cfg else cfproxyFailUntil cfg);
          found = list_ex (\<lambda>current. current = domain) domains
      in if \<not> found \<or> now < map_get 0 failures domain \<or>
            map_get 0 (fallbackDials cfg) key \<ge> fallbackMaxDialsPerDomain
         then (False, cfg)
         else (True, cfg\<lparr>fallbackDials := (fallbackDials cfg)(key \<mapsto> map_get 0 (fallbackDials cfg) key + 1)\<rparr>))"

definition cfproxyFailureCooldown :: "goerror \<Rightarrow> duration" where
  "cfproxyFailureCooldown err = (if asDNSError err then cfProxyDNSFailCooldown else cfProxyFailCooldown)"

definition setFailures :: "bool \<Rightarrow> (string \<rightharpoonup> instant) \<Rightarrow> Config \<Rightarrow> Config" where
  "setFailures worker m cfg =
     (if worker then cfg\<lparr>cfworkerFailUntil := m\<rparr> else cfg\<lparr>cfproxyFailUntil := m\<rparr>)"

text \<open>\<open>now\<close> and \<open>now'\<close> are the two readings of the clock.\<close>

definition finishFallbackDial ::
  "instant \<Rightarrow> instant \<Rightarrow> goerror option \<Rightarrow> fallbackDialKey \<Rightarrow> Config \<Rightarrow> bool \<times> Config" where
  "finishFallbackDial now now' err key cfg =
     (let domain = fdkDomain key; worker = fdkWorker key;
          dials = (if map_get 0 (fallbackDials cfg) key \<le> 1 then (fallbackDials cfg)(key := None)
                   else (fallbackDials cfg)(key \<mapsto> map_get 0 (fallbackDials cfg) key - 1));
          cfg1 = cfg\<lparr>fallbackDials := dials\<rparr>;
          failures = (if worker then cfworkerFailUntil cfg1 else cfproxyFailUntil cfg1)
      in case err of
           None \<Rightarrow> (False, setFailures worker (failures(domain := None)) cfg1)
         | Some e \<Rightarrow>
             (if isCanceled e then (False, cfg1)
              else if now < map_get 0 failures domain then (False, cfg1)
              else (True, setFailures worker (failures(domain \<mapsto> now' + cfproxyFailureCooldown e)) cfg1)))"

subsection \<open>Changing the pool and the cooldowns\<close>

definition markCFProxyDomainFailed :: "instant \<Rightarrow> string \<Rightarrow> duration \<Rightarrow> Config \<Rightarrow> bool \<times> Config" where
  "markCFProxyDomainFailed now domain cooldown cfg =
     (let normalized = normalizeCFProxyDomain domain in
      if normalized = [] then (False, cfg)
      else if (case cfproxyFailUntil cfg normalized of None \<Rightarrow> False | Some until \<Rightarrow> now < until)
      then (False, cfg)
      else (True, cfg\<lparr>cfproxyFailUntil := (cfproxyFailUntil cfg)(normalized \<mapsto> now + cooldown)\<rparr>))"

definition setCFProxyDomains :: "nat \<Rightarrow> (int \<Rightarrow> nat) \<Rightarrow> string list \<Rightarrow> Config \<Rightarrow> Config" where
  "setCFProxyDomains draw dcDraw domains cfg =
     (let pool0 = appendUniqueDomains [] domains;
          pool = (if pool0 = [] then defaultCFProxyDomains else pool0);
          active = chooseActiveDomain draw pool;
          perDC = fold (\<lambda>dc m. m(dc \<mapsto> chooseActiveDomain (dcDraw dc) pool)) cfProxyKnownDCs
                    (FallbackCFProxyPerDCActive cfg)
      in cfg\<lparr>FallbackCFProxyDomains := pool, FallbackCFProxyActive := active,
             cfproxyFailUntil := (\<lambda>d. if list_ex (\<lambda>current. d = current) pool then cfproxyFailUntil cfg d else None),
             FallbackCFProxyPerDCActive := perDC,
             FallbackCFProxyDomain := (if active \<noteq> [] then active else FallbackCFProxyDomain cfg)\<rparr>)"

definition promoteCFProxyDomain :: "int \<Rightarrow> string \<Rightarrow> Config \<Rightarrow> Config" where
  "promoteCFProxyDomain dc domain cfg =
     (let normalized = normalizeCFProxyDomain domain in
      if normalized = [] then cfg
      else if list_ex (\<lambda>existing. existing = normalized) (FallbackCFProxyDomains cfg)
      then cfg\<lparr>FallbackCFProxyPerDCActive := (FallbackCFProxyPerDCActive cfg)(dc \<mapsto> normalized),
               FallbackCFProxyActive := normalized, FallbackCFProxyDomain := normalized,
               cfproxyFailUntil := (cfproxyFailUntil cfg)(normalized := None)\<rparr>
      else cfg)"

subsection \<open>Facts on the candidates\<close>

definition available :: "Config \<Rightarrow> instant \<Rightarrow> string \<Rightarrow> bool" where
  "available cfg now d = (case cfproxyFailUntil cfg d of None \<Rightarrow> True | Some until \<Rightarrow> until \<le> now)"

text \<open>Only the cooldowns differ.\<close>

definition sameButCooldowns :: "Config \<Rightarrow> Config \<Rightarrow> bool" where
  "sameButCooldowns cfg cfg' \<longleftrightarrow> cfg' = cfg\<lparr>cfproxyFailUntil := cfproxyFailUntil cfg'\<rparr>"

lemma sameButCooldowns_refl [simp]: "sameButCooldowns cfg cfg"
  by (simp add: sameButCooldowns_def)

lemma sameButCooldowns_upd [simp]: "sameButCooldowns cfg (cfg\<lparr>cfproxyFailUntil := m\<rparr>)"
  by (simp add: sameButCooldowns_def)

lemma sameButCooldowns_trans:
  assumes "sameButCooldowns a b" and "sameButCooldowns b c"
  shows "sameButCooldowns a c"
proof -
  have "c = b\<lparr>cfproxyFailUntil := cfproxyFailUntil c\<rparr>" using assms(2) by (simp add: sameButCooldowns_def)
  also have "b = a\<lparr>cfproxyFailUntil := cfproxyFailUntil b\<rparr>" using assms(1) by (simp add: sameButCooldowns_def)
  finally show ?thesis by (simp add: sameButCooldowns_def)
qed

lemma availableE:
  obtains ok cfg' where "cfproxyDomainAvailableLocked d now cfg = (ok, cfg')"
    and "ok = available cfg now d" and "available cfg' now = available cfg now"
    and "sameButCooldowns cfg cfg'"
proof (cases "cfproxyFailUntil cfg d")
  case None
  with that [of True cfg] show ?thesis by (simp add: cfproxyDomainAvailableLocked_def available_def)
next
  case (Some until)
  show ?thesis
  proof (cases "now < until")
    case True
    with Some that [of False cfg] show ?thesis by (simp add: cfproxyDomainAvailableLocked_def available_def)
  next
    case False
    with Some have "available (cfg\<lparr>cfproxyFailUntil := (cfproxyFailUntil cfg)(d := None)\<rparr>) now = available cfg now"
      by (auto simp: available_def fun_eq_iff)
    with Some False that [of True "cfg\<lparr>cfproxyFailUntil := (cfproxyFailUntil cfg)(d := None)\<rparr>"]
    show ?thesis by (simp add: cfproxyDomainAvailableLocked_def available_def)
  qed
qed

lemma othersForTry_spec:
  "fst (othersForTry active now ds cfg) = filter (\<lambda>d. d \<noteq> active \<and> available cfg now d) ds \<and>
   sameButCooldowns cfg (snd (othersForTry active now ds cfg))"
proof (induction ds arbitrary: cfg)
  case (Cons d ds)
  obtain ok cfg' where av: "cfproxyDomainAvailableLocked d now cfg = (ok, cfg')"
      "ok = available cfg now d" "available cfg' now = available cfg now" "sameButCooldowns cfg cfg'"
    by (rule availableE)
  have "sameButCooldowns cfg (snd (othersForTry active now ds cfg'))"
    using sameButCooldowns_trans [OF av(4)] Cons.IH [of cfg'] by blast
  then show ?case
    using Cons.IH [of cfg] Cons.IH [of cfg'] av
    by (cases "d = active"; cases ok) (auto split: prod.splits)
qed simp

lemma activeForTry_spec:
  "distinct ds \<Longrightarrow>
   fst (activeForTry active now ds cfg) = filter (\<lambda>d. d = active \<and> available cfg now d) ds \<and>
   available (snd (activeForTry active now ds cfg)) now = available cfg now \<and>
   sameButCooldowns cfg (snd (activeForTry active now ds cfg))"
proof (induction ds arbitrary: cfg)
  case (Cons d ds)
  obtain ok cfg' where av: "cfproxyDomainAvailableLocked d now cfg = (ok, cfg')"
      "ok = available cfg now d" "available cfg' now = available cfg now" "sameButCooldowns cfg cfg'"
    by (rule availableE)
  have tr: "sameButCooldowns cfg (snd (activeForTry active now ds cfg'))"
    using sameButCooldowns_trans [OF av(4)] Cons.IH [of cfg'] Cons.prems by auto
  show ?case
  proof (cases "d = active \<and> ok")
    case True
    then have "filter (\<lambda>d. d = active \<and> available cfg now d) ds = []"
      using Cons.prems by (auto simp: filter_empty_conv)
    with True av show ?thesis by auto
  next
    case False
    with Cons.IH [of cfg] Cons.IH [of cfg'] Cons.prems av tr show ?thesis
      by (cases "d = active") simp_all
  qed
qed simp

text \<open>The domain a dial to \<open>dc\<close> starts with.\<close>

definition activeFor :: "int \<Rightarrow> Config \<Rightarrow> string" where
  "activeFor dc cfg =
     (let active0 = normalizeCFProxyDomain (map_get [] (FallbackCFProxyPerDCActive cfg) dc)
      in if active0 = [] then normalizeCFProxyDomain (FallbackCFProxyActive cfg) else active0)"

lemma domainsForTry_spec:
  assumes "distinct (FallbackCFProxyDomains cfg)" and "[] \<notin> set (FallbackCFProxyDomains cfg)"
  shows "fst (cfproxyDomainsForTry draws now dc cfg) =
      filter (\<lambda>d. d = activeFor dc cfg \<and> available cfg now d) (FallbackCFProxyDomains cfg)
      @ filter (\<lambda>d. d \<noteq> activeFor dc cfg \<and> available cfg now d) (shuffledDomains draws (FallbackCFProxyDomains cfg))
    \<and> sameButCooldowns cfg (snd (cfproxyDomainsForTry draws now dc cfg))"
proof (cases "FallbackCFProxyDomains cfg = []")
  case True
  then show ?thesis by (simp add: cfproxyDomainsForTry_def shuffledDomains_def)
next
  case False
  let ?ds = "FallbackCFProxyDomains cfg" and ?a = "activeFor dc cfg"
  obtain out cfg1 where first: "(if ?a \<noteq> [] then activeForTry ?a now ?ds cfg else ([], cfg)) = (out, cfg1)"
    by fastforce
  have out: "out = filter (\<lambda>d. d = ?a \<and> available cfg now d) ?ds"
    and av: "available cfg1 now = available cfg now" and c1: "sameButCooldowns cfg cfg1"
    using first activeForTry_spec [OF assms(1), of ?a now cfg] assms(2)
    by (auto simp: filter_empty_conv split: if_splits)
  obtain others cfg2 where second: "othersForTry ?a now (shuffledDomains draws ?ds) cfg1 = (others, cfg2)"
    by fastforce
  have "cfproxyDomainsForTry draws now dc cfg = (out @ others, cfg2)"
    unfolding cfproxyDomainsForTry_def Let_def activeFor_def [unfolded Let_def, symmetric]
    using False first second by simp
  then show ?thesis
    using othersForTry_spec [of ?a now "shuffledDomains draws ?ds" cfg1] out av second
      sameButCooldowns_trans [OF c1]
    by simp
qed

subsection \<open>The reservations\<close>

definition dials_held :: "Config \<Rightarrow> fallbackDialKey \<Rightarrow> nat" where
  "dials_held cfg key = nat (map_get 0 (fallbackDials cfg) key)"

definition dials_good :: "Config \<Rightarrow> bool" where
  "dials_good cfg \<longleftrightarrow> (\<forall>key n. fallbackDials cfg key = Some n \<longrightarrow> 0 < n \<and> n \<le> fallbackMaxDialsPerDomain)"

definition cooling_until :: "Config \<Rightarrow> fallbackDialKey \<Rightarrow> instant" where
  "cooling_until cfg key =
     map_get 0 (if fdkWorker key then cfworkerFailUntil cfg else cfproxyFailUntil cfg) (fdkDomain key)"

text \<open>The operations of the other goroutines on the same lock.\<close>

datatype poolOp =
    SetDomains nat "int \<Rightarrow> nat" "string list"
  | Promote int string
  | MarkFailed instant string duration
  | DomainsForTry "nat \<Rightarrow> nat" instant int

fun poolStep :: "poolOp \<Rightarrow> Config \<Rightarrow> Config" where
  "poolStep (SetDomains draw dcDraw domains) cfg = setCFProxyDomains draw dcDraw domains cfg"
| "poolStep (Promote dc domain) cfg = promoteCFProxyDomain dc domain cfg"
| "poolStep (MarkFailed now domain cooldown) cfg = snd (markCFProxyDomainFailed now domain cooldown cfg)"
| "poolStep (DomainsForTry draws now dc) cfg = snd (cfproxyDomainsForTry draws now dc cfg)"

definition finishDial :: "instant \<times> instant \<times> goerror option \<Rightarrow> fallbackDialKey \<Rightarrow> Config \<Rightarrow> Config" where
  "finishDial r key cfg = (case r of (now, now', err) \<Rightarrow> snd (finishFallbackDial now now' err key cfg))"

lemma sameButCooldowns_fields:
  assumes "sameButCooldowns a b"
  shows "fallbackDials b = fallbackDials a" "FallbackCFProxyDomains b = FallbackCFProxyDomains a"
    "FallbackCFProxyActive b = FallbackCFProxyActive a"
    "FallbackCFProxyPerDCActive b = FallbackCFProxyPerDCActive a"
proof -
  have b: "b = a\<lparr>cfproxyFailUntil := cfproxyFailUntil b\<rparr>" using assms by (simp add: sameButCooldowns_def)
  show "fallbackDials b = fallbackDials a" by (subst b) simp
  show "FallbackCFProxyDomains b = FallbackCFProxyDomains a" by (subst b) simp
  show "FallbackCFProxyActive b = FallbackCFProxyActive a" by (subst b) simp
  show "FallbackCFProxyPerDCActive b = FallbackCFProxyPerDCActive a" by (subst b) simp
qed

lemma activeForTry_same: "sameButCooldowns cfg (snd (activeForTry active now ds cfg))"
proof (induction ds arbitrary: cfg)
  case (Cons d ds)
  obtain ok cfg' where av: "cfproxyDomainAvailableLocked d now cfg = (ok, cfg')" "sameButCooldowns cfg cfg'"
    by (rule availableE)
  with sameButCooldowns_trans [OF av(2) Cons.IH] Cons.IH show ?case by (cases ok) auto
qed simp

lemma domainsForTry_same: "sameButCooldowns cfg (snd (cfproxyDomainsForTry draws now dc cfg))"
proof -
  let ?ds = "FallbackCFProxyDomains cfg"
  have "sameButCooldowns cfg (snd (case (if a \<noteq> [] then activeForTry a now ?ds cfg else ([], cfg)) of
      (out, cfg1) \<Rightarrow> case othersForTry a now ds cfg1 of (others, cfg2) \<Rightarrow> (out @ others, cfg2)))" for a ds
  proof -
    obtain out cfg1 where first: "(if a \<noteq> [] then activeForTry a now ?ds cfg else ([], cfg)) = (out, cfg1)"
      by fastforce
    then have "sameButCooldowns cfg cfg1"
      using activeForTry_same [of cfg a now ?ds] by (auto split: if_splits)
    with othersForTry_spec [of a now ds cfg1] sameButCooldowns_trans show ?thesis
      unfolding first by (cases "othersForTry a now ds cfg1") auto
  qed
  then show ?thesis by (simp add: cfproxyDomainsForTry_def Let_def)
qed

lemma poolStep_dials: "fallbackDials (poolStep x cfg) = fallbackDials cfg"
  by (cases x) (simp_all add: setCFProxyDomains_def promoteCFProxyDomain_def markCFProxyDomainFailed_def
      sameButCooldowns_fields [OF domainsForTry_same] Let_def)

lemma finish_dials:
  "fallbackDials (finishDial r key cfg) =
     (if map_get 0 (fallbackDials cfg) key \<le> 1 then (fallbackDials cfg)(key := None)
      else (fallbackDials cfg)(key \<mapsto> map_get 0 (fallbackDials cfg) key - 1))"
  by (cases r) (auto simp: finishDial_def finishFallbackDial_def setFailures_def Let_def split: option.splits)

lemma dials_heldE:
  assumes "dials_good cfg" and "0 < dials_held cfg key"
  obtains n where "fallbackDials cfg key = Some n" and "0 < n" and "n \<le> 4"
  using assms by (cases "fallbackDials cfg key") (auto simp: dials_good_def dials_held_def fallbackMaxDialsPerDomain_def)

interpretation dials: cooled_reservation beginFallbackDial finishDial poolStep dials_held 4 dials_good
  "\<lambda>now. now" cooling_until
proof unfold_locales
  fix s b k s'
  assume good: "dials_good s"
  show "dials_held s k < 4 \<and> dials_held s' = (dials_held s)(k := dials_held s k + 1)"
    if "beginFallbackDial b k s = (True, s')"
  proof (cases "fallbackDials s k")
    case None
    with that show ?thesis
      by (auto simp: beginFallbackDial_def dials_held_def Let_def fun_eq_iff split: if_splits)
  next
    case (Some n)
    then have "0 < n" using good by (simp add: dials_good_def)
    with Some that show ?thesis
      by (auto simp: beginFallbackDial_def dials_held_def fallbackMaxDialsPerDomain_def Let_def
          fun_eq_iff nat_add_distrib split: if_splits)
  qed
  show "beginFallbackDial b k s = (False, s') \<Longrightarrow> dials_held s' = dials_held s"
    by (auto simp: beginFallbackDial_def Let_def split: if_splits)
  have pos: "fallbackDials s k = Some n \<Longrightarrow> 0 < n" for n using good by (simp add: dials_good_def)
  show "dials_good (snd (beginFallbackDial b k s))"
    using good
    by (cases "fallbackDials s k")
      (auto simp: beginFallbackDial_def dials_good_def fallbackMaxDialsPerDomain_def Let_def
        dest: pos intro: less_imp_le)
  fix f x
  show "dials_held (finishDial f k s) = (dials_held s)(k := dials_held s k - 1)" if "0 < dials_held s k"
    by (rule dials_heldE [OF good that]) (auto simp: dials_held_def finish_dials fun_eq_iff)
  show "dials_held (poolStep x s) = dials_held s" by (simp add: dials_held_def poolStep_dials fun_eq_iff)
  show "dials_good (finishDial f k s)" if "0 < dials_held s k"
    by (rule dials_heldE [OF good that])
      (use good in \<open>fastforce simp: dials_good_def finish_dials fallbackMaxDialsPerDomain_def split: if_splits\<close>)
  show "dials_good (poolStep x s)" using good by (simp add: dials_good_def poolStep_dials)
next
  fix b k s s'
  show "beginFallbackDial b k s = (True, s') \<Longrightarrow> cooling_until s k \<le> b"
    by (auto simp: beginFallbackDial_def cooling_until_def Let_def split: if_splits)
  show "cooling_until (snd (beginFallbackDial b k s)) = cooling_until s"
    by (auto simp: beginFallbackDial_def cooling_until_def Let_def fun_eq_iff)
qed

subsection \<open>The pool\<close>

text \<open>
  What holds of the pool once it has been set: it is not empty and has no duplicates, and
  the active domain, overall and of every known datacentre, is in it.
\<close>

definition poolInv :: "Config \<Rightarrow> bool" where
  "poolInv cfg \<longleftrightarrow>
     (let pool = FallbackCFProxyDomains cfg in
      pool \<noteq> [] \<and> distinct pool \<and> [] \<notin> set pool \<and> FallbackCFProxyActive cfg \<in> set pool \<and>
      list_all (\<lambda>dc. map_get [] (FallbackCFProxyPerDCActive cfg) dc \<in> set pool) cfProxyKnownDCs)"

lemma chooseActiveDomain_in: "pool \<noteq> [] \<Longrightarrow> chooseActiveDomain draw pool \<in> set pool"
  by (simp add: chooseActiveDomain_def)

lemma poolInv_fields:
  assumes "poolInv a" and "FallbackCFProxyDomains b = FallbackCFProxyDomains a"
    and "FallbackCFProxyActive b = FallbackCFProxyActive a"
    and "FallbackCFProxyPerDCActive b = FallbackCFProxyPerDCActive a"
  shows "poolInv b"
  using assms by (simp add: poolInv_def)

lemma fold_upd_get:
  "map_get z (fold (\<lambda>k m. m(k \<mapsto> f k)) ks m) k' = (if k' \<in> set ks then f k' else map_get z m k')"
  by (induction ks arbitrary: m) auto

lemma setCFProxyDomains_poolInv: "poolInv (setCFProxyDomains draw dcDraw domains cfg)"
proof -
  let ?pool0 = "appendUniqueDomains [] domains"
  define pool where "pool = (if ?pool0 = [] then defaultCFProxyDomains else ?pool0)"
  have "goodPool defaultCFProxyDomains" "defaultCFProxyDomains \<noteq> []" using default_goodPool by simp_all
  then have pool: "pool \<noteq> []" "distinct pool" "[] \<notin> set pool"
    using appendUnique_distinct [of "[]" domains] appendUnique_set [of "[]" domains]
    by (auto simp: pool_def goodPool_def list_all_iff isLikelyDomain_def)
  have dc: "list_all (\<lambda>dc. map_get [] (FallbackCFProxyPerDCActive (setCFProxyDomains draw dcDraw domains cfg)) dc
      \<in> set pool) cfProxyKnownDCs"
    using pool(1)
    by (auto simp: setCFProxyDomains_def pool_def Let_def list_all_iff fold_upd_get intro!: chooseActiveDomain_in)
  have "FallbackCFProxyActive (setCFProxyDomains draw dcDraw domains cfg) \<in> set pool"
    "FallbackCFProxyDomains (setCFProxyDomains draw dcDraw domains cfg) = pool"
    using pool(1) chooseActiveDomain_in by (simp_all add: setCFProxyDomains_def pool_def Let_def)
  with pool dc show ?thesis by (simp add: poolInv_def)
qed

lemma promote_poolInv: "poolInv cfg \<Longrightarrow> poolInv (promoteCFProxyDomain dc domain cfg)"
  by (auto simp: promoteCFProxyDomain_def poolInv_def Let_def list_all_iff list_ex_iff)

lemma poolStep_poolInv: "poolInv cfg \<Longrightarrow> poolInv (poolStep x cfg)"
proof (cases x)
  case (DomainsForTry draws now dc)
  assume "poolInv cfg"
  then show ?thesis
    unfolding DomainsForTry poolStep.simps
    by (rule poolInv_fields) (rule sameButCooldowns_fields [OF domainsForTry_same])+
next
  case (MarkFailed now domain cooldown)
  assume "poolInv cfg"
  then show ?thesis by (simp add: MarkFailed markCFProxyDomainFailed_def poolInv_def Let_def)
qed (simp_all add: setCFProxyDomains_poolInv promote_poolInv)

lemma begin_poolInv: "poolInv cfg \<Longrightarrow> poolInv (snd (beginFallbackDial now key cfg))"
  by (simp add: beginFallbackDial_def poolInv_def Let_def)

lemma finish_poolInv: "poolInv cfg \<Longrightarrow> poolInv (finishDial r key cfg)"
  by (cases r) (auto simp: finishDial_def finishFallbackDial_def setFailures_def poolInv_def Let_def split: option.splits)

lemma run_poolInv:
  "poolInv cfg \<Longrightarrow> poolInv (fst (resv_run beginFallbackDial finishDial poolStep ops (cfg, out)))"
proof (induction ops arbitrary: cfg out)
  case (Cons op ops)
  show ?case
  proof (cases op)
    case (Begin now key)
    with Cons begin_poolInv [of cfg now key] show ?thesis by (auto split: prod.splits bool.splits)
  next
    case (Finish r key)
    with Cons finish_poolInv show ?thesis by simp
  next
    case (Other x)
    with Cons poolStep_poolInv show ?thesis by simp
  qed
qed simp

subsection \<open>Properties\<close>

text \<open>
  C27. At most four dials to one domain are under way at any time, for the CF proxy and for the
  worker pool separately: whatever the interleaving of reservations, releases (successful,
  failed, cancelled), refreshes of the pool, promotions and failures of other goroutines, the
  counter of a key is exactly the number of its unreleased reservations and never exceeds
  \<^verbatim>\<open>fallbackMaxDialsPerDomain\<close>.
\<close>

theorem fallbackDials_bounded:
  "(case resv_run beginFallbackDial finishDial poolStep ops (cfg\<lparr>fallbackDials := Map.empty\<rparr>, \<lambda>_. 0) of
      (cfg', outstanding) \<Rightarrow>
        map_get 0 (fallbackDials cfg') key = int (outstanding key) \<and>
        int (outstanding key) \<le> fallbackMaxDialsPerDomain)"
proof -
  let ?cfg = "cfg\<lparr>fallbackDials := Map.empty\<rparr>"
  obtain cfg' out where run: "resv_run beginFallbackDial finishDial poolStep ops (?cfg, \<lambda>_. 0) = (cfg', out)"
    by fastforce
  have "dials_good ?cfg" "dials_held ?cfg = (\<lambda>_. 0)" by (simp_all add: dials_good_def dials_held_def fun_eq_iff)
  from dials.run_held [OF this, of ops] run
  have "dials_good cfg'" "dials_held cfg' = out" "out key \<le> 4" by simp_all
  then have "map_get 0 (fallbackDials cfg') key = int (out key)"
    by (cases "fallbackDials cfg' key") (fastforce simp: dials_held_def dials_good_def)+
  then show ?thesis using run \<open>out key \<le> 4\<close> by (simp add: fallbackMaxDialsPerDomain_def)
qed


text \<open>
  The candidates for a dial are exactly the pool's domains that are not cooling down, each
  once, and the active domain of the datacentre comes first when it is among them; the call
  changes nothing but expired cooldowns.
\<close>

theorem cfproxyDomainsForTry_candidates:
  assumes "poolInv cfg"
  shows "case cfproxyDomainsForTry draws now dc cfg of (candidates, cfg') \<Rightarrow>
    distinct candidates \<and>
    set candidates = {d \<in> set (FallbackCFProxyDomains cfg). available cfg now d} \<and>
    (activeFor dc cfg \<in> set candidates \<longrightarrow> hd candidates = activeFor dc cfg) \<and>
    sameButCooldowns cfg cfg'"
proof -
  let ?ds = "FallbackCFProxyDomains cfg" and ?a = "activeFor dc cfg"
  have dist: "distinct ?ds" and ne: "[] \<notin> set ?ds" using assms by (simp_all add: poolInv_def Let_def)
  obtain cs cfg' where eq: "cfproxyDomainsForTry draws now dc cfg = (cs, cfg')" by fastforce
  let ?first = "filter (\<lambda>d. d = ?a \<and> available cfg now d) ?ds"
  let ?sh = "shuffledDomains draws ?ds"
  have cs: "cs = ?first @ filter (\<lambda>d. d \<noteq> ?a \<and> available cfg now d) ?sh" and same: "sameButCooldowns cfg cfg'"
    using domainsForTry_spec [OF dist ne, of draws now dc] eq by simp_all
  have sh: "set ?sh = set ?ds" "distinct ?sh"
    using mset_shuffledDomains [of draws ?ds] dist by (metis set_mset_mset, metis distinct_count_atmost_1 set_mset_mset)
  have "?a \<in> set cs \<Longrightarrow> hd cs = ?a"
  proof -
    assume "?a \<in> set cs"
    then have "?first \<noteq> []" by (auto simp: cs filter_empty_conv)
    moreover have "set ?first \<subseteq> {?a}" by auto
    ultimately show "hd cs = ?a" unfolding cs by (metis (no_types, lifting) hd_append2 hd_in_set singletonD subsetD)
  qed
  moreover have "distinct cs" using dist sh by (auto simp: cs)
  moreover have "set cs = {d \<in> set ?ds. available cfg now d}" using sh by (auto simp: cs)
  ultimately show ?thesis using eq same by simp
qed

text \<open>
  A failed dial cools its domain down: after the failure that started the cooldown, no
  reservation for that domain succeeds before it ends, whichever goroutine asks and however
  often, and a further failure in the meantime is not reported as the first.
\<close>

theorem failed_dial_cools_down:
  assumes "finishFallbackDial now now' (Some e) key cfg = (True, cfg')" and "dials_good cfg'"
    and "\<forall>t \<in> set ts. t < now' + cfproxyFailureCooldown e"
  shows "snd (resv_run beginFallbackDial finishDial poolStep (map (\<lambda>t. Begin t key) ts) (cfg', out)) = out \<and>
         (\<forall>t \<in> set ts. \<not> fst (finishFallbackDial t t' (Some e') key cfg'))"
proof -
  have until: "cooling_until cfg' key = now' + cfproxyFailureCooldown e"
    using assms(1) by (auto simp: finishFallbackDial_def cooling_until_def setFailures_def Let_def split: if_splits)
  then have "\<forall>t \<in> set ts. t < cooling_until cfg' key" using assms(3) by simp
  moreover from this have "\<forall>t \<in> set ts. \<not> fst (finishFallbackDial t t' (Some e') key cfg')"
    by (auto simp: finishFallbackDial_def cooling_until_def Let_def)
  ultimately show ?thesis using dials.burst_refused [OF assms(2)] by blast
qed

subsection \<open>Witnesses\<close>

abbreviation samplePool :: Config where
  "samplePool \<equiv> setCFProxyDomains 0 (\<lambda>_. 0) [''a.tld'', ''b.tld''] zeroConfig"

theorem cfproxyDomainsForTry_candidates_witness:
  "case cfproxyDomainsForTry (\<lambda>_. 0) 5 2 samplePool of (candidates, cfg') \<Rightarrow>
     distinct candidates \<and>
     set candidates = {d \<in> set (FallbackCFProxyDomains samplePool). available samplePool 5 d} \<and>
     (activeFor 2 samplePool \<in> set candidates \<longrightarrow> hd candidates = activeFor 2 samplePool) \<and>
     sameButCooldowns samplePool cfg'"
  by (rule cfproxyDomainsForTry_candidates [OF setCFProxyDomains_poolInv])

abbreviation sampleKey :: fallbackDialKey where
  "sampleKey \<equiv> \<lparr>fdkDomain = ''a.tld'', fdkWorker = False\<rparr>"

theorem failed_dial_cools_down_witness:
  "\<not> fst (finishFallbackDial 30 40 (Some io_EOF) sampleKey
          (snd (finishFallbackDial 5 6 (Some io_EOF) sampleKey zeroConfig)))"
proof -
  let ?cfg = "snd (finishFallbackDial 5 6 (Some io_EOF) sampleKey zeroConfig)"
  have "finishFallbackDial 5 6 (Some io_EOF) sampleKey zeroConfig = (True, ?cfg)" and "dials_good ?cfg"
    by (simp_all add: finishFallbackDial_def zeroConfig_def setFailures_def io_EOF_def newError_def dials_good_def Let_def)
  moreover have "\<forall>t \<in> set [10, 30]. t < 6 + cfproxyFailureCooldown io_EOF"
    by (simp add: cfproxyFailureCooldown_def io_EOF_def newError_def cfProxyFailCooldown_def)
  ultimately have "\<forall>t \<in> set [10, 30]. \<not> fst (finishFallbackDial t 40 (Some io_EOF) sampleKey ?cfg)"
    by (rule failed_dial_cools_down [THEN conjunct2])
  then show ?thesis by simp
qed

end
