(* ===== verification/WorkerPool.thy ===== *)
theory WorkerPool
  imports FallbackDials Handshake
begin

text \<open>
  The pool of worker connections of \<^verbatim>\<open>src/src/worker_pool.go\<close>, one per datacentre and address, and
  \<^verbatim>\<open>connectWorker\<close>, which dials the configured worker domains through the reservations of
  \<^verbatim>\<open>beginFallbackDial\<close> and \<^verbatim>\<open>finishFallbackDial\<close>.
\<close>

definition workerPoolMaxAge :: duration where "workerPoolMaxAge = 100 * Second"

record workerPoolKey =
  wpkDC :: int
  wpkDst :: string

record pooledWorker =
  pkConn :: nat
  pkDomain :: string
  pkCreated :: instant

record workerPool =
  wClosed :: bool
  wIdle :: "workerPoolKey \<rightharpoonup> pooledWorker"
  wRefilling :: "workerPoolKey \<Rightarrow> bool"

definition newWorkerPool :: workerPool where
  "newWorkerPool = \<lparr>wClosed = False, wIdle = Map.empty, wRefilling = \<lambda>_. False\<rparr>"

subsection \<open>Critical sections\<close>

definition workerScheduleRefill :: "Config \<Rightarrow> workerPoolKey \<Rightarrow> workerPool \<Rightarrow> bool \<times> workerPool" where
  "workerScheduleRefill cfg key p =
     (if wClosed p \<or> PoolSize cfg \<le> 0 \<or> wRefilling p key \<or> \<not> hasCFProxyWorkerDomains cfg then (False, p)
      else if wIdle p key \<noteq> None then (False, p)
      else (True, p\<lparr>wRefilling := (wRefilling p)(key := True)\<rparr>))"

text \<open>
  \<^verbatim>\<open>get\<close>: the connection when one is idle and young enough, the connection it closes, whether a
  refill starts, the pool and the counters. \<open>now\<close> is the clock of \<^verbatim>\<open>time.Since\<close>.
\<close>

definition workerPool_get ::
  "Config \<Rightarrow> instant \<Rightarrow> workerPoolKey \<Rightarrow> workerPool \<Rightarrow> Stats
   \<Rightarrow> pooledWorker option \<times> nat list \<times> bool \<times> workerPool \<times> Stats" where
  "workerPool_get cfg now key p st =
     (if wClosed p \<or> PoolSize cfg \<le> 0 then (None, [], False, p, st)
      else let item = wIdle p key;
               p1 = p\<lparr>wIdle := (wIdle p)(key := None)\<rparr>;
               (started, p2) = (if item \<noteq> None then workerScheduleRefill cfg key p1 else (False, p1))
           in case item of
                None \<Rightarrow> (None, [], started, p2, st\<lparr>workerPoolMisses := workerPoolMisses st + 1\<rparr>)
              | Some w \<Rightarrow>
                  (if now - pkCreated w \<ge> workerPoolMaxAge
                   then (None, [pkConn w], started, p2, st\<lparr>workerPoolMisses := workerPoolMisses st + 1\<rparr>)
                   else (Some w, [], started, p2, st\<lparr>workerPoolHits := workerPoolHits st + 1\<rparr>)))"

text \<open>The end of a refilling goroutine: the connection it closes and the pool.\<close>

definition workerRefillDone ::
  "instant \<Rightarrow> (goerror + nat \<times> string) \<Rightarrow> workerPoolKey \<Rightarrow> workerPool \<Rightarrow> nat list \<times> workerPool" where
  "workerRefillDone now r key p =
     (let p1 = p\<lparr>wRefilling := (wRefilling p)(key := False)\<rparr> in
      case r of
        Inl e \<Rightarrow> ([], p1)
      | Inr (conn, domain) \<Rightarrow>
          (if \<not> wClosed p1
           then ([], p1\<lparr>wIdle := (wIdle p1)(key \<mapsto> \<lparr>pkConn = conn, pkDomain = domain, pkCreated = now\<rparr>)\<rparr>)
           else ([conn], p1)))"

definition workerPool_Close :: "workerPool \<Rightarrow> workerPool" where
  "workerPool_Close p = p\<lparr>wClosed := True, wIdle := Map.empty\<rparr>"

fun worker_warmup :: "Config \<Rightarrow> (int \<times> string) list \<Rightarrow> workerPool \<Rightarrow> workerPoolKey list \<times> workerPool" where
  "worker_warmup cfg [] p = ([], p)"
| "worker_warmup cfg ((dc, dst) # defaults) p =
     (if map_get [] (map_of (DCPool cfg)) dc = [] then
        (case workerScheduleRefill cfg \<lparr>wpkDC = dc, wpkDst = dst\<rparr> p of
           (started, p1) \<Rightarrow>
             (case worker_warmup cfg defaults p1 of
                (keys, p2) \<Rightarrow> ((if started then \<lparr>wpkDC = dc, wpkDst = dst\<rparr> # keys else keys), p2)))
      else worker_warmup cfg defaults p)"

definition workerPool_warmup :: "Config \<Rightarrow> workerPool \<Rightarrow> workerPoolKey list \<times> workerPool" where
  "workerPool_warmup cfg p = worker_warmup cfg dcFallbackDefaults p"

subsection \<open>Connecting to a worker\<close>

text \<open>
  The answers to attempt \<open>n\<close>: the context's error before it, the clock, the dial, the write of
  the relay's first bytes, and whether the context is done after it.
\<close>

record workerEnv =
  weCtxErr :: "nat \<Rightarrow> goerror option"
  weNow :: "nat \<Rightarrow> instant"
  weDial :: "nat \<Rightarrow> string \<Rightarrow> goerror + nat"
  weWrite :: "nat \<Rightarrow> goerror option"
  weDone :: "nat \<Rightarrow> bool"
  weNowEnd :: "nat \<Rightarrow> instant"

text \<open>The error of an attempt and the connection it opened.\<close>

definition workerAttempt :: "workerEnv \<Rightarrow> nat \<Rightarrow> string \<Rightarrow> bytes option \<Rightarrow> goerror option \<times> nat option" where
  "workerAttempt env n domain relayInit =
     (let (err, conn) =
        (case weDial env n domain of
           Inl e \<Rightarrow> (Some e, None)
         | Inr c \<Rightarrow> (if relayInit \<noteq> None then weWrite env n else None, Some c))
      in (if weDone env n then Some context_Canceled else err, conn))"

fun connectWorkerLoop ::
  "workerEnv \<Rightarrow> bytes option \<Rightarrow> string list \<Rightarrow> nat \<Rightarrow> nat list \<Rightarrow> Config \<Rightarrow> Stats
   \<Rightarrow> (goerror + nat \<times> string) \<times> nat list \<times> Config \<times> Stats" where
  "connectWorkerLoop env relayInit [] n closedConns cfg st = (Inl errNoDomains, closedConns, cfg, st)"
| "connectWorkerLoop env relayInit (domain # domains) n closedConns cfg st =
     (case weCtxErr env n of
        Some e \<Rightarrow> (Inl e, closedConns, cfg, st)
      | None \<Rightarrow>
          (let key = \<lparr>fdkDomain = domain, fdkWorker = True\<rparr> in
           case beginFallbackDial (weNow env n) key cfg of
             (False, cfg1) \<Rightarrow> connectWorkerLoop env relayInit domains (n + 1) closedConns cfg1 st
           | (True, cfg1) \<Rightarrow>
               (case workerAttempt env n domain relayInit of
                  (err, conn) \<Rightarrow>
                    (case finishFallbackDial (weNowEnd env n) (weNowEnd env n) err key cfg1 of
                       (first, cfg2) \<Rightarrow>
                         (case (err, conn) of
                            (None, Some c) \<Rightarrow> (Inr (c, domain), closedConns, cfg2, st)
                          | (_, Some c) \<Rightarrow>
                              connectWorkerLoop env relayInit domains (n + 1) (c # closedConns) cfg2
                                (st\<lparr>wsErrors := wsErrors st + 1\<rparr>)
                          | (_, None) \<Rightarrow>
                              connectWorkerLoop env relayInit domains (n + 1) closedConns cfg2
                                (st\<lparr>wsErrors := wsErrors st + 1\<rparr>))))))"

definition connectWorker ::
  "workerEnv \<Rightarrow> (nat \<Rightarrow> nat) \<Rightarrow> bytes option \<Rightarrow> Config \<Rightarrow> Stats
   \<Rightarrow> (goerror + nat \<times> string) \<times> nat list \<times> Config \<times> Stats" where
  "connectWorker env draws relayInit cfg st =
     connectWorkerLoop env relayInit (cfproxyWorkerDomainsForTry draws cfg) 0 [] cfg st"

subsection \<open>The reservation of a refill\<close>

datatype workerOp = TakeIdle workerPoolKey | CloseWorkers

fun workerStep :: "workerOp \<Rightarrow> workerPool \<Rightarrow> workerPool" where
  "workerStep (TakeIdle key) p = p\<lparr>wIdle := (wIdle p)(key := None)\<rparr>"
| "workerStep CloseWorkers p = workerPool_Close p"

definition workerFinish :: "instant \<times> (goerror + nat \<times> string) \<Rightarrow> workerPoolKey \<Rightarrow> workerPool \<Rightarrow> workerPool" where
  "workerFinish r key p = (case r of (now, res) \<Rightarrow> snd (workerRefillDone now res key p))"

definition workers_held :: "workerPool \<Rightarrow> workerPoolKey \<Rightarrow> nat" where
  "workers_held p key = of_bool (wRefilling p key)"

text \<open>A key that is being refilled has no idle connection, and a closed pool has none at all.\<close>

definition workers_good :: "workerPool \<Rightarrow> bool" where
  "workers_good p \<longleftrightarrow> (\<forall>key. wRefilling p key \<longrightarrow> wIdle p key = None) \<and> (wClosed p \<longrightarrow> wIdle p = Map.empty)"

lemma workerFinish_refilling: "wRefilling (workerFinish r key p) = (wRefilling p)(key := False)"
  by (cases r) (auto simp: workerFinish_def workerRefillDone_def Let_def split: sum.splits)

lemma workerFinish_good: "workers_good p \<Longrightarrow> workers_good (workerFinish r key p)"
  by (cases r) (auto simp: workers_good_def workerFinish_def workerRefillDone_def Let_def split: sum.splits)

interpretation workers: reservation workerScheduleRefill workerFinish workerStep workers_held 1 workers_good
proof unfold_locales
  fix s b k s' f x
  assume good: "workers_good s"
  show "workers_held s k < 1 \<and> workers_held s' = (workers_held s)(k := workers_held s k + 1)"
    if "workerScheduleRefill b k s = (True, s')"
    using that by (auto simp: workerScheduleRefill_def workers_held_def split: if_splits intro!: ext)
  show "workers_held s' = workers_held s" if "workerScheduleRefill b k s = (False, s')"
    using that by (auto simp: workerScheduleRefill_def split: if_splits)
  show "workers_held (workerFinish f k s) = (workers_held s)(k := workers_held s k - 1)" if "0 < workers_held s k"
    using that by (auto simp: workers_held_def workerFinish_refilling intro!: ext)
  show "workers_held (workerStep x s) = workers_held s"
    by (cases x) (simp_all add: workers_held_def workerPool_Close_def fun_eq_iff)
  show "workers_good (snd (workerScheduleRefill b k s))"
    using good by (auto simp: workers_good_def workerScheduleRefill_def)
  show "workers_good (workerFinish f k s)" by (rule workerFinish_good [OF good])
  show "workers_good (workerStep x s)"
    using good by (cases x) (auto simp: workers_good_def workerPool_Close_def)
qed

subsection \<open>Facts on connecting\<close>

lemma finish_as_dial: "finishFallbackDial t t' err key cfg = (first, cfg') \<Longrightarrow> cfg' = finishDial (t, t', err) key cfg"
  by (simp add: finishDial_def)

lemma dial_cycle:
  assumes "dials_good cfg" and "beginFallbackDial now key cfg = (True, cfg1)"
    and "finishFallbackDial t t' err key cfg1 = (first, cfg2)"
  shows "dials_good cfg2 \<and> dials_held cfg2 = dials_held cfg"
proof -
  have g1: "dials_good cfg1" using dials.good_begin [OF assms(1), of now key] assms(2) by simp
  have h1: "dials_held cfg1 = (dials_held cfg)(key := dials_held cfg key + 1)"
    using dials.begin_taken [OF assms(1,2)] by simp
  then have "0 < dials_held cfg1 key" by simp
  with g1 h1 dials.finish_released [OF g1] dials.good_finish [OF g1] finish_as_dial [OF assms(3)]
  show ?thesis by simp
qed

lemma begin_refused_same: "beginFallbackDial now key cfg = (False, cfg1) \<Longrightarrow> cfg1 = cfg"
  by (auto simp: beginFallbackDial_def Let_def split: if_splits)

definition worker_ok ::
  "workerEnv \<Rightarrow> bytes option \<Rightarrow> string list \<Rightarrow> (fallbackDialKey \<Rightarrow> nat)
   \<Rightarrow> (goerror + nat \<times> string) \<times> nat list \<times> Config \<times> Stats \<Rightarrow> bool" where
  "worker_ok env relayInit ds held res =
     (case res of (r, cc', cfg', st') \<Rightarrow>
        dials_good cfg' \<and> dials_held cfg' = held \<and>
        (case r of Inl e \<Rightarrow> True
         | Inr (c, d) \<Rightarrow> d \<in> set ds \<and> (\<exists>m. weDial env m d = Inr c \<and> \<not> weDone env m \<and>
                           (relayInit \<noteq> None \<longrightarrow> weWrite env m = None))))"

lemma worker_ok_mono: "worker_ok env relayInit ds held res \<Longrightarrow> worker_ok env relayInit (d # ds) held res"
  by (auto simp: worker_ok_def split: prod.splits sum.splits)

lemma connectWorkerLoop_spec:
  assumes "dials_good cfg"
  shows "worker_ok env relayInit ds (dials_held cfg) (connectWorkerLoop env relayInit ds n cc cfg st)"
  using assms
proof (induction ds arbitrary: n cc cfg st)
  case (Cons d ds)
  let ?key = "\<lparr>fdkDomain = d, fdkWorker = True\<rparr>"
  obtain ok cfg1 where beg: "beginFallbackDial (weNow env n) ?key cfg = (ok, cfg1)" by fastforce
  obtain err conn where att: "workerAttempt env n d relayInit = (err, conn)" by fastforce
  obtain first cfg2 where fin: "finishFallbackDial (weNowEnd env n) (weNowEnd env n) err ?key cfg1 = (first, cfg2)"
    by fastforce
  show ?case
  proof (cases "weCtxErr env n = None \<and> ok")
    case True
    have cyc: "dials_good cfg2" "dials_held cfg2 = dials_held cfg"
      using dial_cycle [OF Cons.prems] beg fin True by auto
    show ?thesis
    proof (cases "err = None \<and> conn \<noteq> None")
      case ok: True
      then obtain c where c: "conn = Some c" by auto
      then have "weDial env n d = Inr c \<and> \<not> weDone env n \<and> (relayInit \<noteq> None \<longrightarrow> weWrite env n = None)"
        using att ok by (auto simp: workerAttempt_def split: sum.splits if_splits)
      with True beg att fin cyc ok c show ?thesis by (auto simp: worker_ok_def)
    next
      case False
      obtain cc1 st1 where "connectWorkerLoop env relayInit (d # ds) n cc cfg st =
          connectWorkerLoop env relayInit ds (n + 1) cc1 cfg2 st1"
        using True False beg att fin by (cases conn; cases err) auto
      then show ?thesis
        using worker_ok_mono [OF Cons.IH [OF cyc(1)]] cyc(2) by simp
    qed
  next
    case False
    show ?thesis
    proof (cases "weCtxErr env n")
      case None
      with False beg have "connectWorkerLoop env relayInit (d # ds) n cc cfg st =
          connectWorkerLoop env relayInit ds (n + 1) cc cfg st"
        using begin_refused_same by auto
      then show ?thesis using worker_ok_mono [OF Cons.IH [OF Cons.prems]] by simp
    qed (use Cons.prems in \<open>simp add: worker_ok_def\<close>)
  qed
qed (simp add: worker_ok_def)

subsection \<open>Properties\<close>

text \<open>
  Each key of the worker pool is refilled by at most one goroutine at a time, whatever the
  interleaving of sessions, refills and shutdown, and while it is, no connection is idle for
  it, so that the refill's result never replaces (and loses) another connection; a closed pool
  holds none.
\<close>

theorem workerPool_single_refill:
  "(case resv_run workerScheduleRefill workerFinish workerStep ops (newWorkerPool, \<lambda>_. 0) of
      (p, outstanding) \<Rightarrow>
        outstanding key \<le> 1 \<and> wRefilling p key = (outstanding key = 1) \<and>
        \<not> (wRefilling p key \<and> wIdle p key \<noteq> None) \<and> \<not> (wClosed p \<and> wIdle p key \<noteq> None))"
proof -
  obtain p out where run: "resv_run workerScheduleRefill workerFinish workerStep ops (newWorkerPool, \<lambda>_. 0) = (p, out)"
    by fastforce
  have "workers_good newWorkerPool" "workers_held newWorkerPool = (\<lambda>_. 0)"
    by (simp_all add: workers_good_def workers_held_def newWorkerPool_def fun_eq_iff)
  from workers.run_held [OF this, of ops] run have inv: "workers_good p" "workers_held p = out" "out key \<le> 1" by simp_all
  moreover have "wRefilling p key = (workers_held p key = 1)"
    by (cases "wRefilling p key") (simp_all add: workers_held_def)
  ultimately show ?thesis using run by (auto simp: workers_good_def)
qed

text \<open>
  \<^verbatim>\<open>connectWorker\<close> gives back every reservation it takes, on all its paths: failed and cancelled
  dials, failed writes, success. A connection it returns is to a configured worker, was
  opened by a successful dial, and has been sent the relay's first bytes when there are any.
\<close>

theorem connectWorker_balanced:
  assumes "dials_good cfg"
  shows "case connectWorker env draws relayInit cfg st of (r, closedConns, cfg', st') \<Rightarrow>
     dials_held cfg' = dials_held cfg \<and>
     (case r of Inl e \<Rightarrow> True
      | Inr (c, d) \<Rightarrow> d \<in> set (FallbackCFProxyWorkerDomains cfg) \<and>
          (\<exists>n. weDial env n d = Inr c \<and> \<not> weDone env n \<and> (relayInit \<noteq> None \<longrightarrow> weWrite env n = None)))"
proof -
  have "set (cfproxyWorkerDomainsForTry draws cfg) = set (FallbackCFProxyWorkerDomains cfg)"
    unfolding cfproxyWorkerDomainsForTry_def by (metis mset_shuffledDomains set_mset_mset)
  with connectWorkerLoop_spec [OF assms, where ds = "cfproxyWorkerDomainsForTry draws cfg" and n = 0 and cc = "[]"
      and env = env and relayInit = relayInit and st = st]
  show ?thesis by (auto simp: connectWorker_def worker_ok_def split: prod.splits sum.splits)
qed

definition sampleWorkerEnv :: workerEnv where
  "sampleWorkerEnv = \<lparr>weCtxErr = \<lambda>_. None, weNow = \<lambda>_. 5, weDial = \<lambda>_ _. Inl io_EOF, weWrite = \<lambda>_. None,
     weDone = \<lambda>_. False, weNowEnd = \<lambda>_. 6\<rparr>"

theorem connectWorker_balanced_witness:
  "dials_held (fst (snd (snd (connectWorker sampleWorkerEnv (\<lambda>_. 0) None
      (zeroConfig\<lparr>FallbackCFProxyWorkerDomains := [''w.dev'']\<rparr>) zeroStats)))) = (\<lambda>_. 0)"
proof -
  let ?cfg = "zeroConfig\<lparr>FallbackCFProxyWorkerDomains := [''w.dev'']\<rparr>"
  have "dials_good ?cfg" "dials_held ?cfg = (\<lambda>_. 0)"
    by (simp_all add: dials_good_def dials_held_def zeroConfig_def fun_eq_iff)
  then show ?thesis
    using connectWorker_balanced [of ?cfg, where env = sampleWorkerEnv and draws = "\<lambda>_. 0" and relayInit = None
        and st = zeroStats]
    by (auto split: prod.splits)
qed

end
