(* ===== verification/TCPBackoff.thy ===== *)
theory TCPBackoff
  imports ProxyTypes Reservation
begin

text \<open>
  The direct TCP route of \<^verbatim>\<open>src/src/tcp_backoff.go\<close>: one attempt per address at a time, with an
  exponential backoff between failed attempts, and \<^verbatim>\<open>writeTCPRelayInit\<close> of
  \<^verbatim>\<open>src/src/transport.go\<close>. \<^verbatim>\<open>begin\<close> and \<^verbatim>\<open>finish\<close> are the two critical sections of \<^verbatim>\<open>tcpBackoff.mu\<close>.
\<close>

definition tcpBackoffMin :: duration where "tcpBackoffMin = 30 * Second"
definition tcpBackoffMax :: duration where "tcpBackoffMax = Hour"

definition errTCPBackoff :: goerror where
  "errTCPBackoff = newError ''TCP fallback in backoff or already connecting''"

record tcpAttempt =
  connecting :: bool
  delay :: duration
  retryAfter :: instant

type_synonym tcpBackoff = "string \<rightharpoonup> tcpAttempt"

definition zeroAttempt :: tcpAttempt where
  "zeroAttempt = \<lparr>connecting = False, delay = 0, retryAfter = 0\<rparr>"

definition tcpBackoff_begin :: "instant \<Rightarrow> string \<Rightarrow> tcpBackoff \<Rightarrow> bool \<times> tcpBackoff" where
  "tcpBackoff_begin now address b =
     (let route = map_get zeroAttempt b address in
      if connecting route \<or> now < retryAfter route then (False, b)
      else (True, b(address \<mapsto> route\<lparr>connecting := True\<rparr>)))"

definition tcpBackoff_finish ::
  "instant \<Rightarrow> goerror option \<Rightarrow> string \<Rightarrow> tcpBackoff \<Rightarrow> duration \<times> tcpBackoff" where
  "tcpBackoff_finish now err address b =
     (case err of
        None \<Rightarrow> (0, b(address := None))
      | Some e \<Rightarrow>
          (let route = (map_get zeroAttempt b address)\<lparr>connecting := False\<rparr>;
               d = min (max (delay route * 2) tcpBackoffMin) tcpBackoffMax;
               route' = (if \<not> isCanceled e then route\<lparr>delay := d, retryAfter := now + d\<rparr> else route)
           in if delay route' = 0 then (delay route', b(address := None))
              else (delay route', b(address \<mapsto> route'))))"

subsection \<open>The attempt\<close>

text \<open>
  The answers of the network and of the context: the context's error at the start and at the
  end, the dial, the error of \<^verbatim>\<open>SetWriteDeadline\<close>, and what other goroutines do to the table
  while the attempt is under way.
\<close>

record tcpEnv =
  ctxErrBefore :: "goerror option"
  nowBegin :: instant
  tcpDial :: "goerror + netConn"
  deadlineErr :: "goerror option"
  ctxErrAfter :: "goerror option"
  nowFinish :: instant
  meanwhile :: "tcpBackoff \<Rightarrow> tcpBackoff"

definition writeTCPRelayInit :: "goerror option \<Rightarrow> netConn \<Rightarrow> bytes \<Rightarrow> goerror option \<times> netConn" where
  "writeTCPRelayInit setDeadline conn relayInit =
     (case setDeadline of Some e \<Rightarrow> (Some e, conn) | None \<Rightarrow> conn_Write conn relayInit)"

definition tcpAttemptResult :: "tcpEnv \<Rightarrow> bytes \<Rightarrow> goerror option \<times> netConn option" where
  "tcpAttemptResult env relayInit =
     (let (err, conn) =
        (case tcpDial env of
           Inl e \<Rightarrow> (Some e, None)
         | Inr c \<Rightarrow> (case writeTCPRelayInit (deadlineErr env) c relayInit of (e, c') \<Rightarrow> (e, Some c')))
      in (if ctxErrAfter env \<noteq> None then Some context_Canceled else err, conn))"

definition connectTCPFallback ::
  "tcpEnv \<Rightarrow> string \<Rightarrow> bytes \<Rightarrow> tcpBackoff \<Rightarrow> (goerror + netConn) \<times> tcpBackoff" where
  "connectTCPFallback env address relayInit b =
     (case ctxErrBefore env of
        Some e \<Rightarrow> (Inl e, b)
      | None \<Rightarrow>
          (case tcpBackoff_begin (nowBegin env) address b of
             (False, b1) \<Rightarrow> (Inl errTCPBackoff, b1)
           | (True, b1) \<Rightarrow>
               (case tcpAttemptResult env relayInit of
                  (err, conn) \<Rightarrow>
                    (case tcpBackoff_finish (nowFinish env) err address (meanwhile env b1) of
                       (retry, b2) \<Rightarrow>
                         (case (err, conn) of
                            (Some e, _) \<Rightarrow> (Inl e, b2)
                          | (None, Some c) \<Rightarrow> (Inr c, b2)
                          | (None, None) \<Rightarrow> (Inl (newError ''nil connection''), b2))))))"

subsection \<open>The reservation\<close>

definition tcp_held :: "tcpBackoff \<Rightarrow> string \<Rightarrow> nat" where
  "tcp_held b address = of_bool (connecting (map_get zeroAttempt b address))"

definition tcp_until :: "tcpBackoff \<Rightarrow> string \<Rightarrow> instant" where
  "tcp_until b address = retryAfter (map_get zeroAttempt b address)"

definition tcp_finish :: "instant \<times> goerror option \<Rightarrow> string \<Rightarrow> tcpBackoff \<Rightarrow> tcpBackoff" where
  "tcp_finish r address b = (case r of (now, err) \<Rightarrow> snd (tcpBackoff_finish now err address b))"

lemma zeroAttempt_simps [simp]:
  "connecting zeroAttempt = False" "delay zeroAttempt = 0" "retryAfter zeroAttempt = 0"
  by (simp_all add: zeroAttempt_def)

lemma tcp_finish_held: "tcp_held (tcp_finish r address b) = (tcp_held b)(address := 0)"
proof (rule ext)
  fix k
  obtain now err where r: "r = (now, err)" by fastforce
  show "tcp_held (tcp_finish r address b) k = ((tcp_held b)(address := 0)) k"
    by (cases err) (simp_all add: r tcp_finish_def tcpBackoff_finish_def tcp_held_def Let_def)
qed

interpretation tcp: cooled_reservation tcpBackoff_begin tcp_finish "\<lambda>(_ :: unit) b. b" tcp_held 1 "\<lambda>_. True"
  "\<lambda>now. now" tcp_until
proof unfold_locales
  fix s b k s' f
  show "tcpBackoff_begin b k s = (True, s') \<Longrightarrow> tcp_held s k < 1 \<and> tcp_held s' = (tcp_held s)(k := tcp_held s k + 1)"
    by (auto simp: tcpBackoff_begin_def tcp_held_def Let_def split: if_splits intro!: ext)
  show "tcpBackoff_begin b k s = (False, s') \<Longrightarrow> tcp_held s' = tcp_held s"
    by (auto simp: tcpBackoff_begin_def Let_def split: if_splits)
  show "0 < tcp_held s k \<Longrightarrow> tcp_held (tcp_finish f k s) = (tcp_held s)(k := tcp_held s k - 1)"
    by (auto simp: tcp_finish_held tcp_held_def intro!: ext)
  show "tcpBackoff_begin b k s = (True, s') \<Longrightarrow> tcp_until s k \<le> b"
    by (auto simp: tcpBackoff_begin_def tcp_until_def Let_def split: if_splits)
  show "tcp_until (snd (tcpBackoff_begin b k s)) = tcp_until s"
    by (auto simp: tcpBackoff_begin_def tcp_until_def Let_def fun_eq_iff)
qed simp_all

subsection \<open>The delays\<close>

text \<open>A run of failed attempts on one address: the clock readings and errors of their ends.\<close>

fun tcp_failures :: "string \<Rightarrow> (instant \<times> goerror) list \<Rightarrow> tcpBackoff \<Rightarrow> tcpBackoff" where
  "tcp_failures address [] b = b"
| "tcp_failures address ((now, e) # fs) b =
     tcp_failures address fs (snd (tcpBackoff_finish now (Some e) address b))"

definition backoff_after :: "nat \<Rightarrow> duration" where
  "backoff_after n = (if n = 0 then 0 else min (tcpBackoffMin * 2 ^ (n - 1)) tcpBackoffMax)"

lemma double_capped:
  "1 \<le> p \<Longrightarrow> min (max (min (tcpBackoffMin * p) tcpBackoffMax * 2) tcpBackoffMin) tcpBackoffMax =
   min (tcpBackoffMin * (2 * p)) tcpBackoffMax" for p :: int
  by (simp add: tcpBackoffMin_def tcpBackoffMax_def min_def max_def)

lemma backoff_after_Suc:
  "min (max (backoff_after n * 2) tcpBackoffMin) tcpBackoffMax = backoff_after (Suc n)"
proof (cases n)
  case (Suc m)
  have "(1 :: int) \<le> 2 ^ m" by simp
  from double_capped [OF this] show ?thesis by (simp add: Suc backoff_after_def)
qed (simp add: backoff_after_def tcpBackoffMin_def tcpBackoffMax_def)

lemma backoff_after_pos: "0 < n \<Longrightarrow> 0 < backoff_after n"
  by (simp add: backoff_after_def tcpBackoffMin_def tcpBackoffMax_def)

lemma tcp_finish_step:
  assumes "delay (map_get zeroAttempt b address) = backoff_after n" and "\<not> isCanceled e"
  shows "snd (tcpBackoff_finish now (Some e) address b) address =
    Some \<lparr>connecting = False, delay = backoff_after (Suc n), retryAfter = now + backoff_after (Suc n)\<rparr>"
  using assms backoff_after_pos [of "Suc n"]
  by (simp add: tcpBackoff_finish_def Let_def backoff_after_Suc)

lemma tcp_failures_delay:
  assumes "delay (map_get zeroAttempt b address) = backoff_after n"
    and "list_all (\<lambda>(t, e). \<not> isCanceled e) (fs @ [(now, e)])"
  shows "tcp_failures address (fs @ [(now, e)]) b address =
    Some \<lparr>connecting = False, delay = backoff_after (Suc n + length fs),
          retryAfter = now + backoff_after (Suc n + length fs)\<rparr>"
  using assms
proof (induction fs arbitrary: b n)
  case Nil
  then show ?case using tcp_finish_step [OF Nil.prems(1)] by simp
next
  case (Cons f fs)
  obtain t x where f: "f = (t, x)" by fastforce
  have "snd (tcpBackoff_finish t (Some x) address b) address =
      Some \<lparr>connecting = False, delay = backoff_after (Suc n), retryAfter = t + backoff_after (Suc n)\<rparr>"
    using Cons.prems f by (intro tcp_finish_step) simp_all
  then show ?case using Cons.IH [of _ "Suc n"] Cons.prems f by simp
qed

subsection \<open>Properties\<close>

text \<open>
  C29. Only one attempt per address is under way at a time: after any interleaving of attempts
  that begin and end, an address is marked as connecting exactly when one attempt on it has
  begun and not ended, and never more than one has.
\<close>

theorem tcp_one_attempt_per_address:
  "(case resv_run tcpBackoff_begin tcp_finish (\<lambda>(_ :: unit) b. b) ops (Map.empty, \<lambda>_. 0) of
      (b, outstanding) \<Rightarrow>
        outstanding address \<le> 1 \<and>
        (connecting (map_get zeroAttempt b address) \<longleftrightarrow> outstanding address = 1))"
proof -
  obtain b out where run: "resv_run tcpBackoff_begin tcp_finish (\<lambda>(_ :: unit) b. b) ops (Map.empty, \<lambda>_. 0) = (b, out)"
    by fastforce
  have "tcp_held Map.empty = (\<lambda>_. 0)" by (simp add: tcp_held_def fun_eq_iff)
  with tcp.run_held [of Map.empty "\<lambda>_. 0" ops] run have "tcp_held b = out" "out address \<le> 1" by simp_all
  moreover have "connecting (map_get zeroAttempt b address) \<longleftrightarrow> tcp_held b address = 1"
    by (cases "connecting (map_get zeroAttempt b address)") (simp_all add: tcp_held_def)
  ultimately show ?thesis using run by simp
qed

text \<open>
  The backoff is exponential and bounded: after \<open>n\<close> consecutive failures that are not
  cancellations the delay is 30 seconds times \<open>2 ^ (n - 1)\<close>, at most an hour, no attempt
  starts before the last failure plus that delay, and the first one after it does.
\<close>

theorem tcp_backoff_exponential:
  assumes "list_all (\<lambda>(t, e). \<not> isCanceled e) (fs @ [(now, e)])"
  shows "let b = tcp_failures address (fs @ [(now, e)]) Map.empty;
             d = min (tcpBackoffMin * 2 ^ length fs) tcpBackoffMax
         in delay (map_get zeroAttempt b address) = d \<and>
            (fst (tcpBackoff_begin t address b) \<longleftrightarrow> now + d \<le> t)"
proof -
  have "tcp_failures address (fs @ [(now, e)]) Map.empty address =
    Some \<lparr>connecting = False, delay = backoff_after (Suc 0 + length fs),
          retryAfter = now + backoff_after (Suc 0 + length fs)\<rparr>"
    using assms by (intro tcp_failures_delay) (simp_all add: backoff_after_def)
  then show ?thesis by (auto simp: tcpBackoff_begin_def backoff_after_def Let_def)
qed

text \<open>
  C30. \<^verbatim>\<open>connectTCPFallback\<close> always releases what it has reserved, whatever the dial, the write,
  the context and other goroutines do: a returned connection has been sent the relay init and
  leaves no entry for its address; a cancelled attempt leaves the delay as it was; and the
  address is never left marked as connecting.
\<close>

theorem connectTCPFallback_releases:
  assumes "ctxErrBefore env = None" and "fst (tcpBackoff_begin (nowBegin env) address b)"
  shows "case connectTCPFallback env address relayInit b of
     (Inr c, b') \<Rightarrow> b' address = None \<and> ctxErrAfter env = None \<and>
        (\<exists>c0. tcpDial env = Inr c0 \<and> c = c0\<lparr>outBytes := outBytes c0 @ relayInit\<rparr>)
   | (Inl e, b') \<Rightarrow> \<not> connecting (map_get zeroAttempt b' address) \<and>
        (isCanceled e \<longrightarrow>
           delay (map_get zeroAttempt b' address) =
           delay (map_get zeroAttempt (meanwhile env (snd (tcpBackoff_begin (nowBegin env) address b))) address))"
proof -
  obtain b1 where b1: "tcpBackoff_begin (nowBegin env) address b = (True, b1)"
    using assms(2) by (cases "tcpBackoff_begin (nowBegin env) address b") simp
  obtain err conn where att: "tcpAttemptResult env relayInit = (err, conn)" by fastforce
  let ?b = "meanwhile env b1"
  show ?thesis
  proof (cases err)
    case None
    then obtain c0 where "tcpDial env = Inr c0" "ctxErrAfter env = None" "deadlineErr env = None"
        "conn = Some (c0\<lparr>outBytes := outBytes c0 @ relayInit\<rparr>)"
      using att by (auto simp: tcpAttemptResult_def writeTCPRelayInit_def conn_Write_def
          split: sum.splits option.splits if_splits)
    with None b1 att assms(1) show ?thesis
      by (simp add: connectTCPFallback_def tcpBackoff_finish_def)
  next
    case (Some e)
    have "\<not> connecting (map_get zeroAttempt (snd (tcpBackoff_finish t (Some e) address ?b)) address)" for t
      by (simp add: tcpBackoff_finish_def Let_def)
    moreover have "isCanceled e \<Longrightarrow>
        delay (map_get zeroAttempt (snd (tcpBackoff_finish t (Some e) address ?b)) address) =
        delay (map_get zeroAttempt ?b address)" for t
      by (simp add: tcpBackoff_finish_def Let_def)
    ultimately show ?thesis
      using Some b1 att assms(1)
      by (cases "tcpBackoff_finish (nowFinish env) (Some e) address ?b")
        (simp add: connectTCPFallback_def, metis snd_conv)
  qed
qed

subsection \<open>Witnesses\<close>

theorem tcp_backoff_exponential_witness:
  "\<not> fst (tcpBackoff_begin (200 * Second) ''149.154.167.51:443''
      (tcp_failures ''149.154.167.51:443''
         [(Second, io_EOF), (40 * Second, io_EOF), (110 * Second, io_EOF)] Map.empty))"
  using tcp_backoff_exponential [of "[(Second, io_EOF), (40 * Second, io_EOF)]" "110 * Second" io_EOF
      "''149.154.167.51:443''" "200 * Second"]
  by (simp add: io_EOF_def newError_def tcpBackoffMin_def tcpBackoffMax_def Let_def)

definition sampleTcpEnv :: tcpEnv where
  "sampleTcpEnv = \<lparr>ctxErrBefore = None, nowBegin = 5, tcpDial = Inl io_EOF, deadlineErr = None,
     ctxErrAfter = None, nowFinish = 6, meanwhile = \<lambda>b. b\<rparr>"

theorem connectTCPFallback_releases_witness:
  "\<exists>b'. connectTCPFallback sampleTcpEnv ''a:443'' [1] Map.empty = (Inl io_EOF, b') \<and>
     \<not> connecting (map_get zeroAttempt b' ''a:443'')"
proof -
  have "ctxErrBefore sampleTcpEnv = None" and "fst (tcpBackoff_begin (nowBegin sampleTcpEnv) ''a:443'' Map.empty)"
    by (simp_all add: sampleTcpEnv_def tcpBackoff_begin_def)
  moreover obtain b' where "connectTCPFallback sampleTcpEnv ''a:443'' [1] Map.empty = (Inl io_EOF, b')"
    by (cases "tcpBackoff_finish 6 (Some io_EOF) ''a:443'' [''a:443'' \<mapsto> zeroAttempt\<lparr>connecting := True\<rparr>]")
      (simp add: connectTCPFallback_def sampleTcpEnv_def tcpAttemptResult_def tcpBackoff_begin_def)
  ultimately show ?thesis using connectTCPFallback_releases [of sampleTcpEnv "''a:443''" Map.empty "[1]"] by simp
qed

end
