(* ===== verification/Bridge.thy ===== *)
theory Bridge
  imports Handshake ProxyTypes "HOL-Library.Sublist"
begin

text \<open>
  The data path of \<^verbatim>\<open>src/src/transport.go\<close>: the two copying goroutines of \<^verbatim>\<open>bridgeWS\<close> and of
  \<^verbatim>\<open>tcpFallback\<close>, the idle watchdog, and the loop over domains of \<^verbatim>\<open>wsConnectWithDialer\<close>. What
  the sockets return is an argument: a list of reads, each with its bytes and its error,
  and the error of each write. A list that ends before an error is a goroutine that still
  waits.
\<close>

definition statsFlushBytes :: int where "statsFlushBytes = 256 * 1024"
definition ioIdleTimeout :: duration where "ioIdleTimeout = 5 * Minute"
definition idleWatchdogCheckInterval :: duration where "idleWatchdogCheckInterval = 5 * Second"

type_synonym reads = "(bytes \<times> goerror option) list"

subsection \<open>The splitter of a session\<close>

text \<open>A session has a splitter or, for \<^verbatim>\<open>nil\<close>, sends every read as one message.\<close>

definition splitPart :: "msgSplitter option \<Rightarrow> bytes \<Rightarrow> bytes list \<times> msgSplitter option" where
  "splitPart sp chunk =
     (case sp of None \<Rightarrow> ([chunk], None) | Some m \<Rightarrow> (case splitter_split m chunk of (parts, m') \<Rightarrow> (parts, Some m')))"

definition flushPart :: "msgSplitter option \<Rightarrow> bytes list \<times> msgSplitter option" where
  "flushPart sp =
     (case sp of None \<Rightarrow> ([], None) | Some m \<Rightarrow> (case splitter_flush m of (parts, m') \<Rightarrow> (parts, Some m')))"

definition bufferedPart :: "msgSplitter option \<Rightarrow> bytes" where
  "bufferedPart sp = (case sp of None \<Rightarrow> [] | Some m \<Rightarrow> plainBuf m)"

definition okPart :: "msgSplitter option \<Rightarrow> bool" where
  "okPart sp = (case sp of None \<Rightarrow> True | Some m \<Rightarrow> splitter_ok m)"

subsection \<open>Client to Telegram\<close>

record upState =
  usDec :: stream
  usEnc :: stream
  usSplitter :: "msgSplitter option"
  usSent :: "bytes list"
  usPending :: int
  usBytes :: int
  usPkts :: int
  usStat :: int

text \<open>The messages of one read; \<open>werr n\<close> is the error of \<^verbatim>\<open>WriteMessage\<close> after \<open>n\<close> messages.\<close>

fun sendParts :: "(nat \<Rightarrow> goerror option) \<Rightarrow> bytes list \<Rightarrow> upState \<Rightarrow> goerror option \<times> upState" where
  "sendParts werr [] s = (None, s)"
| "sendParts werr (p # ps) s =
     (case XORKeyStream (usEnc s) p of
        (q, enc) \<Rightarrow>
          (case werr (length (usSent s)) of
             Some e \<Rightarrow> (Some e, s\<lparr>usEnc := enc\<rparr>)
           | None \<Rightarrow> sendParts werr ps (s\<lparr>usEnc := enc, usSent := usSent s @ [q]\<rparr>)))"

text \<open>The flush ignores write errors.\<close>

fun flushParts :: "(nat \<Rightarrow> goerror option) \<Rightarrow> bytes list \<Rightarrow> upState \<Rightarrow> upState" where
  "flushParts werr [] s = s"
| "flushParts werr (p # ps) s =
     (case XORKeyStream (usEnc s) p of
        (q, enc) \<Rightarrow>
          flushParts werr ps
            (if werr (length (usSent s)) = None then s\<lparr>usEnc := enc, usSent := usSent s @ [q]\<rparr>
             else s\<lparr>usEnc := enc\<rparr>))"

definition countUp :: "bytes \<Rightarrow> upState \<Rightarrow> upState" where
  "countUp chunk s =
     (let n = int (length chunk); pending = usPending s + n;
          s1 = s\<lparr>usBytes := usBytes s + n, usPkts := usPkts s + 1\<rparr>
      in if pending \<ge> statsFlushBytes then s1\<lparr>usStat := usStat s + pending, usPending := 0\<rparr>
         else s1\<lparr>usPending := pending\<rparr>)"

text \<open>
  The loop: the operation that ended it, or \<^term>\<open>None\<close> while it waits. When a read completes no
  packet the loop reads on without looking at the read's error, as the code's \<^verbatim>\<open>continue\<close>
  does; the reader reports the error again on the next read.
\<close>

fun upLoop :: "(nat \<Rightarrow> goerror option) \<Rightarrow> reads \<Rightarrow> upState \<Rightarrow> string option \<times> upState" where
  "upLoop werr [] s = (None, s)"
| "upLoop werr ((chunk, err) # rs) s =
     (if chunk \<noteq> [] then
        (case XORKeyStream (usDec s) chunk of
           (plain, dec) \<Rightarrow>
             (case splitPart (usSplitter s) plain of
                (parts, sp) \<Rightarrow>
                  (let s1 = (countUp chunk s)\<lparr>usDec := dec, usSplitter := sp\<rparr> in
                   if parts = [] then upLoop werr rs s1
                   else case sendParts werr parts s1 of
                     (Some e, s2) \<Rightarrow> (Some ''upstream_write'', s2)
                   | (None, s2) \<Rightarrow>
                       (case err of
                          None \<Rightarrow> upLoop werr rs s2
                        | Some e \<Rightarrow>
                            (case flushPart (usSplitter s2) of
                               (ps, sp') \<Rightarrow> (Some ''client_read'', flushParts werr ps (s2\<lparr>usSplitter := sp'\<rparr>)))))))
      else case err of
        None \<Rightarrow> upLoop werr rs s
      | Some e \<Rightarrow>
          (case flushPart (usSplitter s) of
             (ps, sp') \<Rightarrow> (Some ''client_read'', flushParts werr ps (s\<lparr>usSplitter := sp'\<rparr>))))"

text \<open>The goroutine with its deferred addition to the counters.\<close>

definition bridgeUp :: "(nat \<Rightarrow> goerror option) \<Rightarrow> reads \<Rightarrow> upState \<Rightarrow> string option \<times> upState" where
  "bridgeUp werr rs s =
     (case upLoop werr rs s of
        (None, s1) \<Rightarrow> (None, s1)
      | (Some op, s1) \<Rightarrow>
          (Some op, if usPending s1 > 0 then s1\<lparr>usStat := usStat s1 + usPending s1, usPending := 0\<rparr> else s1))"

subsection \<open>Telegram to client\<close>

record downState =
  dsDec :: stream
  dsEnc :: stream
  dsOut :: "bytes list"
  dsPending :: int
  dsBytes :: int
  dsPkts :: int
  dsStat :: int

definition countDown :: "bytes \<Rightarrow> downState \<Rightarrow> downState" where
  "countDown chunk s =
     (let n = int (length chunk); pending = dsPending s + n; s1 = s\<lparr>dsBytes := dsBytes s + n\<rparr>
      in if pending \<ge> statsFlushBytes then s1\<lparr>dsStat := dsStat s + pending, dsPending := 0\<rparr>
         else s1\<lparr>dsPending := pending\<rparr>)"

definition downChunk :: "(nat \<Rightarrow> goerror option) \<Rightarrow> bytes \<Rightarrow> downState \<Rightarrow> goerror option \<times> downState" where
  "downChunk werr chunk s =
     (case XORKeyStream (dsDec s) chunk of
        (plain, dec) \<Rightarrow>
          (case XORKeyStream (dsEnc s) plain of
             (out, enc) \<Rightarrow>
               (let s1 = (countDown chunk s)\<lparr>dsDec := dec, dsEnc := enc\<rparr> in
                case werr (length (dsOut s)) of
                  Some e \<Rightarrow> (Some e, s1)
                | None \<Rightarrow> (None, s1\<lparr>dsOut := dsOut s @ [out]\<rparr>))))"

datatype readEnd = Waiting | MessageEnd | Stopped string

fun downReads :: "(nat \<Rightarrow> goerror option) \<Rightarrow> reads \<Rightarrow> downState \<Rightarrow> readEnd \<times> downState" where
  "downReads werr [] s = (Waiting, s)"
| "downReads werr ((chunk, rerr) # rs) s =
     (case (if chunk \<noteq> [] then downChunk werr chunk s else (None, s)) of
        (Some e, s1) \<Rightarrow> (Stopped ''client_write'', s1)
      | (None, s1) \<Rightarrow>
          (case rerr of
             None \<Rightarrow> downReads werr rs s1
           | Some e \<Rightarrow> (if e = io_EOF then (MessageEnd, s1) else (Stopped ''upstream_body_read'', s1))))"

text \<open>A result of \<^verbatim>\<open>NextReader\<close>: its error, or whether the message is binary and its reads.\<close>

fun downLoop :: "(nat \<Rightarrow> goerror option) \<Rightarrow> (goerror + bool \<times> reads) list \<Rightarrow> downState \<Rightarrow> string option \<times> downState" where
  "downLoop werr [] s = (None, s)"
| "downLoop werr (Inl e # ms) s = (Some ''upstream_read'', s)"
| "downLoop werr (Inr (binary, rs) # ms) s =
     (if \<not> binary then downLoop werr ms s
      else case downReads werr rs (s\<lparr>dsPkts := dsPkts s + 1\<rparr>) of
        (Waiting, s1) \<Rightarrow> (None, s1)
      | (MessageEnd, s1) \<Rightarrow> downLoop werr ms s1
      | (Stopped op, s1) \<Rightarrow> (Some op, s1))"

definition bridgeDown ::
  "(nat \<Rightarrow> goerror option) \<Rightarrow> (goerror + bool \<times> reads) list \<Rightarrow> downState \<Rightarrow> string option \<times> downState" where
  "bridgeDown werr ms s =
     (case downLoop werr ms s of
        (None, s1) \<Rightarrow> (None, s1)
      | (Some op, s1) \<Rightarrow>
          (Some op, if dsPending s1 > 0 then s1\<lparr>dsStat := dsStat s1 + dsPending s1, dsPending := 0\<rparr> else s1))"

subsection \<open>Both directions\<close>

text \<open>
  \<^verbatim>\<open>bridgeWS\<close>: the two goroutines share no stream and no counter, so that their results do not
  depend on how they interleave. The result: whether both have ended, the messages sent, the
  chunks written to the client, and the counters.
\<close>

record bridgeEnv =
  upReads :: reads
  upWriteErr :: "nat \<Rightarrow> goerror option"
  downMsgs :: "(goerror + bool \<times> reads) list"
  downWriteErr :: "nat \<Rightarrow> goerror option"

definition startUp :: "ciphers \<Rightarrow> msgSplitter option \<Rightarrow> Stats \<Rightarrow> upState" where
  "startUp c sp st =
     \<lparr>usDec = cltDec c, usEnc = tgEnc c, usSplitter = sp, usSent = [], usPending = 0, usBytes = 0,
      usPkts = 0, usStat = bytesUp st\<rparr>"

definition startDown :: "ciphers \<Rightarrow> Stats \<Rightarrow> downState" where
  "startDown c st =
     \<lparr>dsDec = tgDec c, dsEnc = cltEnc c, dsOut = [], dsPending = 0, dsBytes = 0, dsPkts = 0,
      dsStat = bytesDown st\<rparr>"

definition bridgeWS ::
  "bridgeEnv \<Rightarrow> ciphers \<Rightarrow> msgSplitter option \<Rightarrow> Stats \<Rightarrow> bool \<times> bytes list \<times> bytes list \<times> Stats" where
  "bridgeWS env c sp st =
     (case bridgeUp (upWriteErr env) (upReads env) (startUp c sp st) of
        (upEnd, u) \<Rightarrow>
          (case bridgeDown (downWriteErr env) (downMsgs env) (startDown c st) of
             (downEnd, d) \<Rightarrow>
               (upEnd \<noteq> None \<and> downEnd \<noteq> None, usSent u, dsOut d,
                st\<lparr>bytesUp := usStat u, bytesDown := dsStat d\<rparr>)))"

subsection \<open>The direct TCP relay\<close>

text \<open>
  One direction of \<^verbatim>\<open>tcpFallback\<close>: decrypt with one peer's stream, encrypt with the other's,
  write. Both goroutines have this loop, with the two pairs of streams.
\<close>

record relayState =
  rsDec :: stream
  rsEnc :: stream
  rsOut :: "bytes list"
  rsPending :: int
  rsStat :: int

fun relayLoop :: "(nat \<Rightarrow> goerror option) \<Rightarrow> reads \<Rightarrow> relayState \<Rightarrow> bool \<times> relayState" where
  "relayLoop werr [] s = (False, s)"
| "relayLoop werr ((chunk, err) # rs) s =
     (if chunk \<noteq> [] then
        (let n = int (length chunk); pending = rsPending s + n;
             s1 = (if pending \<ge> statsFlushBytes then s\<lparr>rsStat := rsStat s + pending, rsPending := 0\<rparr>
                   else s\<lparr>rsPending := pending\<rparr>);
             (plain, dec) = XORKeyStream (rsDec s) chunk;
             (out, enc) = XORKeyStream (rsEnc s) plain;
             s2 = s1\<lparr>rsDec := dec, rsEnc := enc\<rparr>
         in if werr (length (rsOut s)) \<noteq> None then (True, s2)
            else let s3 = s2\<lparr>rsOut := rsOut s @ [out]\<rparr> in
                 if err \<noteq> None then (True, s3) else relayLoop werr rs s3)
      else if err \<noteq> None then (True, s) else relayLoop werr rs s)"

definition relayRun :: "(nat \<Rightarrow> goerror option) \<Rightarrow> reads \<Rightarrow> relayState \<Rightarrow> bool \<times> relayState" where
  "relayRun werr rs s =
     (case relayLoop werr rs s of
        (ended, s1) \<Rightarrow>
          (ended, if ended \<and> rsPending s1 > 0 then s1\<lparr>rsStat := rsStat s1 + rsPending s1, rsPending := 0\<rparr> else s1))"

subsection \<open>The watchdog\<close>

datatype watchEvent = StopSignal | Tick instant instant

text \<open>A tick carries the clock and the time of the last activity. The result: still running, or whether it fired.\<close>

fun runIdleWatchdog :: "duration \<Rightarrow> watchEvent list \<Rightarrow> bool option" where
  "runIdleWatchdog timeout [] = None"
| "runIdleWatchdog timeout (StopSignal # es) = Some False"
| "runIdleWatchdog timeout (Tick now active # es) =
     (if now - active \<ge> timeout then Some True else runIdleWatchdog timeout es)"

subsection \<open>Connecting by domain\<close>

text \<open>
  The response of a WebSocket upgrade is its status code. \<open>windows\<close> selects the platform's
  \<^verbatim>\<open>isConnectionReset\<close>.
\<close>

fun wsConnectWithDialer ::
  "bool \<Rightarrow> (nat \<Rightarrow> goerror option) \<Rightarrow> (nat \<Rightarrow> string \<Rightarrow> (goerror \<times> int option) + (nat \<times> int option))
   \<Rightarrow> string list \<Rightarrow> nat \<Rightarrow> goerror option \<Rightarrow> int option \<Rightarrow> nat option \<times> int option \<times> goerror option" where
  "wsConnectWithDialer windows ctxErr dial [] n lastErr lastResp =
     (None, lastResp, Some (case lastErr of None \<Rightarrow> errNoDomains | Some e \<Rightarrow> e))"
| "wsConnectWithDialer windows ctxErr dial (domain # domains) n lastErr lastResp =
     (case ctxErr n of
        Some e \<Rightarrow> (None, None, Some e)
      | None \<Rightarrow>
          (case dial n domain of
             Inr (conn, resp) \<Rightarrow> (Some conn, resp, None)
           | Inl (e, resp) \<Rightarrow>
               (if isFrontingRetryError windows (Some e) then (None, resp, Some e)
                else wsConnectWithDialer windows ctxErr dial domains (n + 1) (Some e) resp)))"

definition writeWSBinary :: "goerror option \<Rightarrow> goerror option \<Rightarrow> goerror option" where
  "writeWSBinary setDeadline write = (case setDeadline of Some e \<Rightarrow> Some e | None \<Rightarrow> write)"

subsection \<open>Facts on the upstream direction\<close>

interpretation part: part_splitter splitPart flushPart bufferedPart okPart
proof unfold_locales
  fix s :: "msgSplitter option" and c
  show "concat (fst (flushPart s)) = bufferedPart s"
    by (cases s) (simp_all add: flushPart_def bufferedPart_def splitter_flush_integrity split: prod.splits,
      metis fst_conv splitter_flush_integrity)
  assume ok: "okPart s"
  show "concat (fst (splitPart s c)) @ bufferedPart (snd (splitPart s c)) = bufferedPart s @ c"
  proof (cases s)
    case (Some m)
    with ok msg.split_integrity [of m c] show ?thesis
      by (cases "splitter_split m c") (simp add: splitPart_def bufferedPart_def okPart_def)
  qed (simp add: splitPart_def bufferedPart_def)
  show "okPart (snd (splitPart s c))"
  proof (cases s)
    case (Some m)
    with ok msg.split_ok [of m c] show ?thesis
      by (cases "splitter_split m c") (simp add: splitPart_def okPart_def)
  qed (simp add: splitPart_def okPart_def)
qed

abbreviation xchunks :: "stream \<Rightarrow> bytes list \<Rightarrow> bytes list \<times> stream" where
  "xchunks \<equiv> xor_chunks XORKeyStream"

lemma xchunks_append:
  "xchunks s (xs @ ys) = (fst (xchunks s xs) @ fst (xchunks (snd (xchunks s xs)) ys), snd (xchunks (snd (xchunks s xs)) ys))"
  by (induction xs arbitrary: s) (simp_all add: split_beta)

lemma xchunks_concat: "concat (fst (xchunks s cs)) = fst (XORKeyStream s (concat cs))"
proof (cases "cs = []")
  case False
  then show ?thesis using ctr.xor_chunks_concat by blast
qed simp

lemma xchunks_involutive: "fst (xchunks s (fst (xchunks s cs))) = cs"
proof (induction cs arbitrary: s)
  case (Cons c cs)
  have "snd (XORKeyStream s (fst (XORKeyStream s c))) = snd (XORKeyStream s c)" by (rule ctr.xks_state_fst)
  with Cons.IH [of "snd (XORKeyStream s c)"] show ?case by (simp add: split_beta ctr.xks_involutive)
qed simp

lemma sendParts_spec:
  "\<exists>qs. prefix qs ps \<and> usSent (snd (sendParts werr ps s)) = usSent s @ fst (xchunks (usEnc s) qs) \<and>
     (fst (sendParts werr ps s) = None \<longrightarrow>
        qs = ps \<and> usEnc (snd (sendParts werr ps s)) = snd (xchunks (usEnc s) ps))"
proof (induction ps arbitrary: s)
  case (Cons p ps)
  obtain q enc where x: "XORKeyStream (usEnc s) p = (q, enc)" by fastforce
  show ?case
  proof (cases "werr (length (usSent s))")
    case (Some e)
    with x show ?thesis by (intro exI [of _ "[]"]) simp
  next
    case None
    obtain qs where "prefix qs ps"
      "usSent (snd (sendParts werr ps (s\<lparr>usEnc := enc, usSent := usSent s @ [q]\<rparr>))) =
         usSent s @ [q] @ fst (xchunks enc qs)"
      "fst (sendParts werr ps (s\<lparr>usEnc := enc, usSent := usSent s @ [q]\<rparr>)) = None \<longrightarrow>
         qs = ps \<and> usEnc (snd (sendParts werr ps (s\<lparr>usEnc := enc, usSent := usSent s @ [q]\<rparr>))) = snd (xchunks enc ps)"
      using Cons.IH [of "s\<lparr>usEnc := enc, usSent := usSent s @ [q]\<rparr>"] by auto
    with x None show ?thesis by (intro exI [of _ "p # qs"]) (auto simp: split_beta)
  qed
qed simp

lemma sendParts_frame:
  "usDec (snd (sendParts werr ps s)) = usDec s" "usSplitter (snd (sendParts werr ps s)) = usSplitter s"
  "usStat (snd (sendParts werr ps s)) = usStat s" "usPending (snd (sendParts werr ps s)) = usPending s"
  by (induction ps arbitrary: s) (simp_all split: prod.splits option.splits)

lemma countUp_frame [simp]:
  "usDec (countUp c s) = usDec s" "usEnc (countUp c s) = usEnc s" "usSplitter (countUp c s) = usSplitter s"
  "usSent (countUp c s) = usSent s" "usBytes (countUp c s) = usBytes s + int (length c)"
  by (simp_all add: countUp_def Let_def)

lemma flushPart_one: "fst (flushPart sp) = (if bufferedPart sp = [] then [] else [bufferedPart sp])"
  by (cases sp) (simp_all add: flushPart_def bufferedPart_def splitter_flush_def)

lemma flushParts_spec:
  "\<exists>qs. prefix qs (fst (flushPart sp)) \<and>
     usSent (flushParts werr (fst (flushPart sp)) s) = usSent s @ fst (xchunks (usEnc s) qs) \<and>
     (werr (length (usSent s)) = None \<longrightarrow> qs = fst (flushPart sp))"
  by (cases "werr (length (usSent s)) = None")
    (auto simp: flushPart_one split_beta intro: exI [of _ "[]"])

lemma prefix_concat: "prefix qs ps \<Longrightarrow> prefix (concat qs) (concat ps)"
  by (auto simp: prefix_def)

text \<open>
  \<open>sends s s' bs\<close>: between the states \<open>s\<close> and \<open>s'\<close> the messages sent are encryptions, in order
  and with one continuing key stream, of a prefix of \<open>bs\<close>.
\<close>

definition sends :: "upState \<Rightarrow> upState \<Rightarrow> bytes \<Rightarrow> bool" where
  "sends s s' bs \<longleftrightarrow>
     (\<exists>parts. usSent s' = usSent s @ fst (xchunks (usEnc s) parts) \<and> prefix (concat parts) bs)"

lemma sends_refl [simp]: "sends s s bs"
  unfolding sends_def by (intro exI [of _ "[]"]) simp

lemma sends_more: "sends s s' bs \<Longrightarrow> sends s s' (bs @ cs)"
  by (auto simp: sends_def intro: prefix_prefix)

lemma flushParts_sends:
  "sends s (flushParts werr (fst (flushPart (usSplitter s))) (s\<lparr>usSplitter := sp\<rparr>)) (bufferedPart (usSplitter s))"
proof -
  obtain qs where "prefix qs (fst (flushPart (usSplitter s)))"
    "usSent (flushParts werr (fst (flushPart (usSplitter s))) (s\<lparr>usSplitter := sp\<rparr>)) =
       usSent s @ fst (xchunks (usEnc s) qs)"
    using flushParts_spec [of "usSplitter s" werr "s\<lparr>usSplitter := sp\<rparr>"] by auto
  then show ?thesis unfolding sends_def
    by (intro exI [of _ qs]) (auto simp: part.flush_integrity dest: prefix_concat)
qed

lemma sendParts_sends: "sends s (snd (sendParts werr ps s)) (concat ps)"
  using sendParts_spec [of ps werr s] by (auto simp: sends_def dest: prefix_concat)

lemma sendParts_then:
  assumes "fst (sendParts werr ps s) = None" and "sends (snd (sendParts werr ps s)) s' bs"
  shows "sends s s' (concat ps @ bs)"
proof -
  have all: "usSent (snd (sendParts werr ps s)) = usSent s @ fst (xchunks (usEnc s) ps)"
    "usEnc (snd (sendParts werr ps s)) = snd (xchunks (usEnc s) ps)"
    using sendParts_spec [of ps werr s] assms(1) by auto
  obtain qs where "usSent s' = usSent (snd (sendParts werr ps s)) @ fst (xchunks (usEnc (snd (sendParts werr ps s))) qs)"
    "prefix (concat qs) bs" using assms(2) by (auto simp: sends_def)
  with all show ?thesis unfolding sends_def by (intro exI [of _ "ps @ qs"]) (simp add: xchunks_append)
qed

text \<open>A read that brings data, as the loop handles it.\<close>

definition readParts :: "bytes \<Rightarrow> upState \<Rightarrow> bytes list" where
  "readParts chunk s = fst (splitPart (usSplitter s) (fst (XORKeyStream (usDec s) chunk)))"

definition readState :: "bytes \<Rightarrow> upState \<Rightarrow> upState" where
  "readState chunk s = (countUp chunk s)\<lparr>usDec := snd (XORKeyStream (usDec s) chunk),
     usSplitter := snd (splitPart (usSplitter s) (fst (XORKeyStream (usDec s) chunk)))\<rparr>"

lemma readState_frame [simp]:
  "usSent (readState c s) = usSent s" "usEnc (readState c s) = usEnc s"
  "usDec (readState c s) = snd (XORKeyStream (usDec s) c)"
  by (simp_all add: readState_def)

lemma upLoop_data:
  "chunk \<noteq> [] \<Longrightarrow> upLoop werr ((chunk, err) # rs) s =
     (if readParts chunk s = [] then upLoop werr rs (readState chunk s)
      else case sendParts werr (readParts chunk s) (readState chunk s) of
          (Some e, s2) \<Rightarrow> (Some ''upstream_write'', s2)
        | (None, s2) \<Rightarrow> (case err of None \<Rightarrow> upLoop werr rs s2
            | Some e \<Rightarrow> (Some ''client_read'', flushParts werr (fst (flushPart (usSplitter s2)))
                (s2\<lparr>usSplitter := snd (flushPart (usSplitter s2))\<rparr>))))"
  by (simp add: split_beta readParts_def readState_def Let_def split: option.split)

lemma upLoop_empty:
  "upLoop werr (([], err) # rs) s =
     (case err of None \<Rightarrow> upLoop werr rs s
      | Some e \<Rightarrow> (Some ''client_read'', flushParts werr (fst (flushPart (usSplitter s)))
          (s\<lparr>usSplitter := snd (flushPart (usSplitter s))\<rparr>)))"
  by (simp add: split_beta split: option.split)

lemma read_cut:
  assumes "okPart (usSplitter s)"
  shows "bufferedPart (usSplitter s) @ fst (XORKeyStream (usDec s) (chunk @ rest)) =
     concat (readParts chunk s) @ bufferedPart (usSplitter (readState chunk s)) @
       fst (XORKeyStream (usDec (readState chunk s)) rest)"
  using part.split_integrity [OF assms, of "fst (XORKeyStream (usDec s) chunk)"]
  by (simp add: ctr.xks_append_fst readParts_def readState_def flip: append_assoc)

lemma read_ok: "okPart (usSplitter s) \<Longrightarrow> okPart (usSplitter (readState chunk s))"
  using part.split_ok by (simp add: readState_def)

text \<open>What was sent is a prefix of what was received, whatever fails and whenever.\<close>

lemma upLoop_sends:
  "okPart (usSplitter s) \<Longrightarrow>
     sends s (snd (upLoop werr rs s))
       (bufferedPart (usSplitter s) @ fst (XORKeyStream (usDec s) (concat (map fst rs))))"
proof (induction rs arbitrary: s)
  case (Cons r rs)
  obtain chunk err where r: "r = (chunk, err)" by fastforce
  show ?case
  proof (cases "chunk = []")
    case True
    with r Cons show ?thesis
      by (cases err) (simp_all del: upLoop.simps add: upLoop_empty flushParts_sends sends_more)
  next
    case False
    define o2 where "o2 = sendParts werr (readParts chunk s) (readState chunk s)"
    define rest where "rest = fst (XORKeyStream (usDec (readState chunk s)) (concat (map fst rs)))"
    have fr: "usDec (snd o2) = usDec (readState chunk s)" "usSplitter (snd o2) = usSplitter (readState chunk s)"
      by (simp_all add: o2_def sendParts_frame)
    have IH: "sends (snd o2) (snd (upLoop werr rs (snd o2))) (bufferedPart (usSplitter (readState chunk s)) @ rest)"
      using Cons.IH [of "snd o2"] read_ok [OF Cons.prems] by (simp add: fr rest_def)
    have fl: "sends (snd o2) (flushParts werr (fst (flushPart (usSplitter (snd o2))))
        ((snd o2)\<lparr>usSplitter := snd (flushPart (usSplitter (snd o2)))\<rparr>)) (bufferedPart (usSplitter (readState chunk s)) @ rest)"
      using flushParts_sends [of "snd o2"] by (simp add: fr sends_more)
    have "sends (readState chunk s) (snd (upLoop werr (r # rs) s))
        (concat (readParts chunk s) @ bufferedPart (usSplitter (readState chunk s)) @ rest)"
    proof (cases "fst o2")
      case (Some e)
      then have "readParts chunk s \<noteq> []" by (auto simp: o2_def)
      with Some False r have "snd (upLoop werr (r # rs) s) = snd o2"
        by (simp del: upLoop.simps add: upLoop_data split_beta flip: o2_def)
      then show ?thesis by (simp add: o2_def sendParts_sends sends_more)
    next
      case None
      have "readParts chunk s = [] \<Longrightarrow> o2 = (None, readState chunk s)" by (simp add: o2_def)
      with False r None IH fl have "sends (snd o2) (snd (upLoop werr (r # rs) s))
          (bufferedPart (usSplitter (readState chunk s)) @ rest)"
        by (cases "readParts chunk s = []"; cases err)
          (simp_all del: upLoop.simps add: upLoop_data split_beta flip: o2_def)
      with None show ?thesis unfolding o2_def by (rule sendParts_then)
    qed
    then show ?thesis
      using read_cut [OF Cons.prems, of chunk "concat (map fst rs)"]
      by (simp add: sends_def r rest_def del: upLoop.simps)
  qed
qed simp

text \<open>With no write error the messages are exactly what the splitter hands out, and the rest at the end.\<close>

fun splitReads :: "msgSplitter option \<Rightarrow> bytes list \<Rightarrow> bytes list \<times> msgSplitter option" where
  "splitReads sp [] = ([], sp)"
| "splitReads sp (c # cs) =
     (case splitPart sp c of (ps, sp1) \<Rightarrow> (case splitReads sp1 cs of (qs, sp2) \<Rightarrow> (ps @ qs, sp2)))"

lemma splitReads_None [simp]: "splitReads None cs = (cs, None)"
  by (induction cs) (simp_all add: splitPart_def)

lemma splitReads_Some: "splitReads (Some m) cs = (fst (split_chunks m cs), Some (snd (split_chunks m cs)))"
  by (induction cs arbitrary: m) (simp_all add: splitPart_def split_beta)

lemma splitReads_integrity:
  "okPart sp \<Longrightarrow> concat (fst (splitReads sp cs)) @ bufferedPart (snd (splitReads sp cs)) = bufferedPart sp @ concat cs"
proof (induction cs arbitrary: sp)
  case (Cons c cs)
  from Cons.IH [OF part.split_ok [OF Cons.prems, of c]] part.split_integrity [OF Cons.prems, of c]
  show ?case by (simp add: split_beta)
qed simp

lemma sendParts_all:
  "sendParts (\<lambda>_. None) ps s =
     (None, s\<lparr>usEnc := snd (xchunks (usEnc s) ps), usSent := usSent s @ fst (xchunks (usEnc s) ps)\<rparr>)"
  by (induction ps arbitrary: s) (simp_all add: split_beta)

lemma upLoop_runs:
  assumes "[] \<notin> set cs"
  shows "\<exists>s'. upLoop (\<lambda>_. None) (map (\<lambda>c. (c, None)) cs @ rs) s = upLoop (\<lambda>_. None) rs s' \<and>
     usSent s' = usSent s @ fst (xchunks (usEnc s) (fst (splitReads (usSplitter s) (fst (xchunks (usDec s) cs))))) \<and>
     usEnc s' = snd (xchunks (usEnc s) (fst (splitReads (usSplitter s) (fst (xchunks (usDec s) cs))))) \<and>
     usSplitter s' = snd (splitReads (usSplitter s) (fst (xchunks (usDec s) cs)))"
  using assms
proof (induction cs arbitrary: s)
  case Nil
  show ?case by (intro exI [of _ s]) simp
next
  case (Cons c cs)
  define s2 where "s2 = snd (sendParts (\<lambda>_. None) (readParts c s) (readState c s))"
  have step: "upLoop (\<lambda>_. None) (map (\<lambda>c. (c, None)) (c # cs) @ rs) s =
      upLoop (\<lambda>_. None) (map (\<lambda>c. (c, None)) cs @ rs) s2"
  proof (cases "readParts c s = []")
    case True
    with Cons.prems show ?thesis by (simp del: upLoop.simps add: upLoop_data not_sym s2_def)
  next
    case False
    with Cons.prems show ?thesis by (simp del: upLoop.simps add: upLoop_data not_sym sendParts_all s2_def)
  qed
  have s2: "usEnc s2 = snd (xchunks (usEnc s) (readParts c s))"
    "usSent s2 = usSent s @ fst (xchunks (usEnc s) (readParts c s))"
    "usSplitter s2 = snd (splitPart (usSplitter s) (fst (XORKeyStream (usDec s) c)))"
    "usDec s2 = snd (XORKeyStream (usDec s) c)"
    by (simp_all add: s2_def sendParts_all) (simp add: readState_def)
  from Cons.IH [of s2] Cons.prems obtain s' where
    "upLoop (\<lambda>_. None) (map (\<lambda>c. (c, None)) cs @ rs) s2 = upLoop (\<lambda>_. None) rs s'"
    "usSent s' = usSent s2 @ fst (xchunks (usEnc s2) (fst (splitReads (usSplitter s2) (fst (xchunks (usDec s2) cs)))))"
    "usEnc s' = snd (xchunks (usEnc s2) (fst (splitReads (usSplitter s2) (fst (xchunks (usDec s2) cs)))))"
    "usSplitter s' = snd (splitReads (usSplitter s2) (fst (xchunks (usDec s2) cs)))" by auto
  then show ?case unfolding step
    by (intro exI [of _ s']) (simp add: s2 split_beta xchunks_append readParts_def)
qed

lemma bridgeUp_sent [simp]: "usSent (snd (bridgeUp werr rs s)) = usSent (snd (upLoop werr rs s))"
  "fst (bridgeUp werr rs s) = fst (upLoop werr rs s)"
  by (simp_all add: bridgeUp_def split: prod.splits option.splits)

text \<open>A session that ends with the client's half: everything it wrote is delivered.\<close>

lemma bridgeUp_exact:
  assumes "[] \<notin> set cs"
  shows "fst (bridgeUp (\<lambda>_. None) (map (\<lambda>c. (c, None)) cs @ [([], Some e)]) s) = Some ''client_read'' \<and>
     usSent (snd (bridgeUp (\<lambda>_. None) (map (\<lambda>c. (c, None)) cs @ [([], Some e)]) s)) =
       usSent s @ fst (xchunks (usEnc s)
         (fst (splitReads (usSplitter s) (fst (xchunks (usDec s) cs))) @
          fst (flushPart (snd (splitReads (usSplitter s) (fst (xchunks (usDec s) cs)))))))"
proof -
  have fl: "usSent (flushParts (\<lambda>_. None) ps t) = usSent t @ fst (xchunks (usEnc t) ps)" for ps t
    by (induction ps arbitrary: t) (simp_all add: split_beta)
  show ?thesis using upLoop_runs [OF assms, of "[([], Some e)]" s]
    by (auto simp del: upLoop.simps simp add: upLoop_empty fl xchunks_append)
qed

subsection \<open>Accounting\<close>

lemma countUp_stat:
  "0 \<le> usPending s \<Longrightarrow> usPending s < statsFlushBytes \<Longrightarrow>
     0 \<le> usPending (countUp c s) \<and> usPending (countUp c s) < statsFlushBytes \<and>
     usStat (countUp c s) + usPending (countUp c s) = usStat s + usPending s + int (length c)"
  by (auto simp: countUp_def Let_def statsFlushBytes_def)

lemma sendParts_bytes [simp]: "usBytes (snd (sendParts werr ps s)) = usBytes s"
  by (induction ps arbitrary: s) (simp_all split: prod.splits option.splits)

lemma flushParts_frame [simp]:
  "usBytes (flushParts werr ps s) = usBytes s" "usStat (flushParts werr ps s) = usStat s"
  "usPending (flushParts werr ps s) = usPending s"
  by (induction ps arbitrary: s) (simp_all split: prod.splits)

text \<open>
  The shared counter lags behind the bytes read by less than one flush unit, and the bytes
  read are those of an initial part of the client's reads.
\<close>

definition accounted :: "reads \<Rightarrow> upState \<Rightarrow> upState \<Rightarrow> bool" where
  "accounted rs s s' \<longleftrightarrow> 0 \<le> usPending s' \<and> usPending s' < statsFlushBytes \<and>
     (\<exists>ds. prefix ds rs \<and> usBytes s' = usBytes s + int (length (concat (map fst ds)))) \<and>
     usStat s' + usPending s' = usStat s + usPending s + (usBytes s' - usBytes s)"

lemma accounted_Cons:
  assumes "accounted rs s1 s'" and "usStat s1 + usPending s1 = usStat s + usPending s + int (length chunk)"
    and "usBytes s1 = usBytes s + int (length chunk)"
  shows "accounted ((chunk, err) # rs) s s'"
proof -
  from assms(1) obtain ds where "prefix ds rs" "usBytes s' = usBytes s1 + int (length (concat (map fst ds)))"
    by (auto simp: accounted_def)
  with assms show ?thesis unfolding accounted_def
    by (auto intro!: exI [of _ "(chunk, err) # ds"])
qed

lemma accounted_refl: "0 \<le> usPending s \<Longrightarrow> usPending s < statsFlushBytes \<Longrightarrow> accounted rs s s"
  unfolding accounted_def by (auto intro!: exI [of _ "[]"])

lemma upLoop_accounted:
  "0 \<le> usPending s \<Longrightarrow> usPending s < statsFlushBytes \<Longrightarrow> accounted rs s (snd (upLoop werr rs s))"
proof (induction rs arbitrary: s)
  case (Cons r rs)
  obtain chunk err where r: "r = (chunk, err)" by fastforce
  show ?case
  proof (cases "chunk = []")
    case True
    show ?thesis
    proof (cases err)
      case None
      with True r accounted_Cons [OF Cons.IH [OF Cons.prems], of s chunk err] show ?thesis
        by (simp del: upLoop.simps add: upLoop_empty)
    next
      case (Some e)
      with True r accounted_refl [OF Cons.prems, of "r # rs"] show ?thesis
        by (simp del: upLoop.simps add: upLoop_empty accounted_def)
    qed
  next
    case False
    define o2 where "o2 = sendParts werr (readParts chunk s) (readState chunk s)"
    have fr: "usPending (snd o2) = usPending (countUp chunk s)" "usStat (snd o2) = usStat (countUp chunk s)"
      "usBytes (snd o2) = usBytes s + int (length chunk)"
      by (simp_all add: o2_def sendParts_frame readState_def)
    note c = countUp_stat [OF Cons.prems, of chunk]
    have step: "accounted (r # rs) s s'" if "accounted rs (snd o2) s'" for s'
      using accounted_Cons [OF that, of s chunk err] c by (simp add: fr r)
    have here: "accounted rs (snd o2) (snd o2)" using c by (simp add: accounted_refl fr)
    have flushed: "accounted rs (snd o2) (flushParts werr ps ((snd o2)\<lparr>usSplitter := sp\<rparr>))" for ps sp
      using here by (simp add: accounted_def)
    have later: "accounted rs (snd o2) (snd (upLoop werr rs (snd o2)))"
      using Cons.IH [of "snd o2"] c by (simp add: fr)
    have "readParts chunk s = [] \<Longrightarrow> o2 = (None, readState chunk s)" by (simp add: o2_def)
    with False r step [OF here] step [OF later] step [OF flushed] show ?thesis
      by (cases "readParts chunk s = []"; cases "fst o2"; cases err)
        (simp_all del: upLoop.simps add: upLoop_data split_beta flip: o2_def)
  qed
qed (simp add: accounted_refl)

subsection \<open>Facts on the downstream direction\<close>

text \<open>The payload of the binary messages among the results of \<^verbatim>\<open>NextReader\<close>; a message ends at its first error.\<close>

fun readPayload :: "reads \<Rightarrow> bytes" where
  "readPayload [] = []"
| "readPayload ((c, err) # rs) = c @ (if err = None then readPayload rs else [])"

fun binaryPayload :: "(goerror + bool \<times> reads) list \<Rightarrow> bytes" where
  "binaryPayload [] = []"
| "binaryPayload (Inl e # ms) = []"
| "binaryPayload (Inr (binary, rs) # ms) = (if binary then readPayload rs else []) @ binaryPayload ms"

text \<open>
  \<open>delivers s s' bs\<close>: between the two states the client was written a prefix of \<open>bs\<close>,
  decrypted with Telegram's stream and encrypted with the client's.
\<close>

definition recode :: "stream \<Rightarrow> stream \<Rightarrow> bytes \<Rightarrow> bytes" where
  "recode dec enc bs = fst (XORKeyStream enc (fst (XORKeyStream dec bs)))"

definition delivers :: "downState \<Rightarrow> downState \<Rightarrow> bytes \<Rightarrow> bool" where
  "delivers s s' bs \<longleftrightarrow>
     (\<exists>cs. prefix cs bs \<and> concat (dsOut s') = concat (dsOut s) @ recode (dsDec s) (dsEnc s) cs)"

lemma recode_append:
  "recode dec enc (xs @ ys) = recode dec enc xs @
     recode (snd (XORKeyStream dec xs)) (snd (XORKeyStream enc (fst (XORKeyStream dec xs)))) ys"
  by (simp add: recode_def ctr.xks_append_fst)

lemma recode_Nil [simp]: "recode dec enc [] = []"
  using ctr.xks_length [of dec "[]"] ctr.xks_length [of enc "[]"] by (simp add: recode_def)

lemma delivers_refl [simp]: "delivers s s bs"
  unfolding delivers_def by (intro exI [of _ "[]"]) simp

lemma delivers_more: "delivers s s' bs \<Longrightarrow> delivers s s' (bs @ cs)"
  by (auto simp: delivers_def intro: prefix_prefix)

text \<open>\<open>delivered s s' bs\<close>: all of \<open>bs\<close>, and the streams are where \<open>bs\<close> leaves them.\<close>

definition delivered :: "downState \<Rightarrow> downState \<Rightarrow> bytes \<Rightarrow> bool" where
  "delivered s s' bs \<longleftrightarrow>
     concat (dsOut s') = concat (dsOut s) @ recode (dsDec s) (dsEnc s) bs \<and>
     (\<forall>more. recode (dsDec s) (dsEnc s) (bs @ more) = recode (dsDec s) (dsEnc s) bs @ recode (dsDec s') (dsEnc s') more)"

lemma delivered_delivers: "delivered s s' bs \<Longrightarrow> delivers s s' bs"
  by (auto simp: delivered_def delivers_def)

lemma delivered_then: "delivered s s1 bs \<Longrightarrow> delivers s1 s2 cs \<Longrightarrow> delivers s s2 (bs @ cs)"
proof -
  assume d: "delivered s s1 bs" and "delivers s1 s2 cs"
  then obtain ds where "prefix ds cs" "concat (dsOut s2) = concat (dsOut s1) @ recode (dsDec s1) (dsEnc s1) ds"
    by (auto simp: delivers_def)
  with d show ?thesis unfolding delivers_def delivered_def by (intro exI [of _ "bs @ ds"]) simp
qed

lemma delivered_trans: "delivered s s1 bs \<Longrightarrow> delivered s1 s2 cs \<Longrightarrow> delivered s s2 (bs @ cs)"
  unfolding delivered_def by simp

lemma delivered_refl [simp]: "delivered s s []"
  by (simp add: delivered_def)

lemma countDown_frame [simp]:
  "dsDec (countDown c s) = dsDec s" "dsEnc (countDown c s) = dsEnc s" "dsOut (countDown c s) = dsOut s"
  "dsBytes (countDown c s) = dsBytes s + int (length c)"
  by (simp_all add: countDown_def Let_def)

lemma downChunk_delivered:
  "fst (downChunk werr chunk s) = None \<Longrightarrow> delivered s (snd (downChunk werr chunk s)) chunk"
  by (simp add: downChunk_def Let_def delivered_def recode_append split_beta split: option.splits)
    (simp add: recode_def)

lemma downChunk_failed:
  "fst (downChunk werr chunk s) = Some e \<Longrightarrow> dsOut (snd (downChunk werr chunk s)) = dsOut s"
  by (simp add: downChunk_def Let_def split_beta split: option.splits)

lemma delivers_same_out: "dsOut s' = dsOut s \<Longrightarrow> delivers s s' bs"
  unfolding delivers_def by (intro exI [of _ "[]"]) simp

lemma downReads_delivers:
  "delivers s (snd (downReads werr rs s)) (readPayload rs) \<and>
   (fst (downReads werr rs s) = MessageEnd \<longrightarrow> delivered s (snd (downReads werr rs s)) (readPayload rs))"
proof (induction rs arbitrary: s)
  case (Cons r rs)
  obtain chunk rerr where r: "r = (chunk, rerr)" by fastforce
  define o1 where "o1 = (if chunk \<noteq> [] then downChunk werr chunk s else (None, s))"
  have loop: "downReads werr (r # rs) s =
      (case fst o1 of Some e \<Rightarrow> (Stopped ''client_write'', snd o1)
       | None \<Rightarrow> (case rerr of None \<Rightarrow> downReads werr rs (snd o1)
           | Some e \<Rightarrow> (if e = io_EOF then MessageEnd else Stopped ''upstream_body_read'', snd o1)))"
    by (simp add: r split_beta flip: o1_def split: option.split)
  show ?case
  proof (cases "fst o1")
    case (Some e)
    then have "dsOut (snd o1) = dsOut s" by (auto simp: o1_def downChunk_failed split: if_splits)
    with Some show ?thesis unfolding loop by (simp add: delivers_same_out)
  next
    case None
    then have "delivered s (snd o1) chunk" by (auto simp: o1_def downChunk_delivered split: if_splits)
    with None Cons.IH [of "snd o1"] show ?thesis unfolding loop
      by (cases rerr) (auto simp: r delivered_delivers intro: delivered_then delivered_trans)
  qed
qed simp

lemma delivered_pkts [simp]: "delivered (s\<lparr>dsPkts := n\<rparr>) s' = delivered s s'" "delivers (s\<lparr>dsPkts := n\<rparr>) s' = delivers s s'"
  by (simp_all add: fun_eq_iff delivered_def delivers_def)

lemma downLoop_delivers: "delivers s (snd (downLoop werr ms s)) (binaryPayload ms)"
proof (induction ms arbitrary: s)
  case (Cons m ms)
  show ?case
  proof (cases m)
    case (Inr br)
    then obtain binary rs where m: "m = Inr (binary, rs)" by (cases br) simp
    define o1 where "o1 = downReads werr rs (s\<lparr>dsPkts := dsPkts s + 1\<rparr>)"
    have d: "delivers s (snd o1) (readPayload rs)" "fst o1 = MessageEnd \<Longrightarrow> delivered s (snd o1) (readPayload rs)"
      using downReads_delivers [of "s\<lparr>dsPkts := dsPkts s + 1\<rparr>" werr rs] by (simp_all add: o1_def)
    have "downLoop werr (m # ms) s = (if \<not> binary then downLoop werr ms s
        else case fst o1 of Waiting \<Rightarrow> (None, snd o1) | MessageEnd \<Rightarrow> downLoop werr ms (snd o1)
          | Stopped op \<Rightarrow> (Some op, snd o1))"
      by (simp add: m split_beta flip: o1_def split: readEnd.split)
    with m d Cons.IH show ?thesis
      by (cases "fst o1") (auto simp: delivers_more intro: delivered_then simp del: downLoop.simps)
  qed simp
qed simp

subsection \<open>Facts on the direct relay\<close>

lemma relayLoop_relays:
  "\<exists>cs. prefix cs (readPayload rs) \<and>
     concat (rsOut (snd (relayLoop werr rs s))) = concat (rsOut s) @ recode (rsDec s) (rsEnc s) cs"
proof (induction rs arbitrary: s)
  case Nil
  show ?case by (intro exI [of _ "[]"]) simp
next
  case (Cons r rs)
  obtain chunk err where r: "r = (chunk, err)" by fastforce
  define s3 where "s3 = (if rsPending s + int (length chunk) \<ge> statsFlushBytes
      then s\<lparr>rsStat := rsStat s + (rsPending s + int (length chunk)), rsPending := 0\<rparr>
      else s\<lparr>rsPending := rsPending s + int (length chunk)\<rparr>)
     \<lparr>rsDec := snd (XORKeyStream (rsDec s) chunk),
      rsEnc := snd (XORKeyStream (rsEnc s) (fst (XORKeyStream (rsDec s) chunk))),
      rsOut := rsOut s @ [fst (XORKeyStream (rsEnc s) (fst (XORKeyStream (rsDec s) chunk)))]\<rparr>"
  consider "chunk = []" | "chunk \<noteq> []" "werr (length (rsOut s)) \<noteq> None"
    | "chunk \<noteq> []" "werr (length (rsOut s)) = None" "err \<noteq> None"
    | "chunk \<noteq> []" "werr (length (rsOut s)) = None" "err = None" by blast
  then show ?case
  proof cases
    case 1
    with r Cons.IH [of s] show ?thesis by (cases err) (auto intro: exI [of _ "[]"])
  next
    case 2
    with r show ?thesis by (intro exI [of _ "[]"]) (simp add: Let_def split_beta)
  next
    case 3
    with r show ?thesis by (intro exI [of _ chunk]) (simp add: Let_def split_beta recode_def)
  next
    case 4
    with r have step: "relayLoop werr (r # rs) s = relayLoop werr rs s3"
      by (simp add: Let_def split_beta s3_def)
    from Cons.IH [of s3] obtain cs where cs: "prefix cs (readPayload rs)"
      "concat (rsOut (snd (relayLoop werr rs s3))) = concat (rsOut s3) @ recode (rsDec s3) (rsEnc s3) cs" by blast
    have "concat (rsOut s3) @ recode (rsDec s3) (rsEnc s3) cs =
        concat (rsOut s) @ recode (rsDec s) (rsEnc s) (chunk @ cs)"
      by (simp add: s3_def recode_append) (simp add: recode_def)
    with 4 r cs show ?thesis unfolding step by (intro exI [of _ "chunk @ cs"]) simp
  qed
qed

subsection \<open>Properties\<close>

text \<open>
  Accounting: at every moment of an upload the shared counter \<^verbatim>\<open>stats.bytesUp\<close> is behind the
  bytes the session has read by less than \<^verbatim>\<open>statsFlushBytes\<close>; when the goroutine ends, for any
  reason, it is exact, and the bytes counted are those of an initial part of the reads.
\<close>

theorem bridgeUp_accounting:
  assumes "usPending s = 0"
  shows "\<exists>ds. prefix ds rs \<and>
    usBytes (snd (bridgeUp werr rs s)) = usBytes s + int (length (concat (map fst ds))) \<and>
    usStat s + int (length (concat (map fst ds))) - usStat (snd (bridgeUp werr rs s)) \<in>
      (if fst (bridgeUp werr rs s) = None then {0..<statsFlushBytes} else {0})"
proof -
  have "accounted rs s (snd (upLoop werr rs s))"
    using assms by (intro upLoop_accounted) (simp_all add: statsFlushBytes_def)
  then obtain ds where "prefix ds rs" "usBytes (snd (upLoop werr rs s)) = usBytes s + int (length (concat (map fst ds)))"
    "0 \<le> usPending (snd (upLoop werr rs s))" "usPending (snd (upLoop werr rs s)) < statsFlushBytes"
    "usStat (snd (upLoop werr rs s)) + usPending (snd (upLoop werr rs s)) = usStat s + int (length (concat (map fst ds)))"
    using assms by (auto simp: accounted_def)
  then show ?thesis
    by (intro exI [of _ ds]) (auto simp: bridgeUp_def split: prod.splits option.splits)
qed

abbreviation sample_up :: upState where
  "sample_up \<equiv> \<lparr>usDec = telegramRecv [], usEnc = telegramRecv [], usSplitter = None, usSent = [],
     usPending = 0, usBytes = 0, usPkts = 0, usStat = 7\<rparr>"

abbreviation sample_reads :: reads where
  "sample_reads \<equiv> [([1, 2, 3], None), ([4], Some io_EOF), ([], Some io_EOF)]"

theorem bridgeUp_accounting_witness:
  "\<exists>ds. prefix ds sample_reads \<and>
    usBytes (snd (bridgeUp (\<lambda>_. None) sample_reads sample_up)) = usBytes sample_up + int (length (concat (map fst ds))) \<and>
    usStat sample_up + int (length (concat (map fst ds))) - usStat (snd (bridgeUp (\<lambda>_. None) sample_reads sample_up)) \<in>
      (if fst (bridgeUp (\<lambda>_. None) sample_reads sample_up) = None then {0..<statsFlushBytes} else {0})"
  by (rule bridgeUp_accounting [of sample_up sample_reads "\<lambda>_. None"]) simp

text \<open>
  The watchdog closes a session exactly when, before a stop signal, some tick finds that at
  least the timeout has passed since the last activity; a session that is active more often
  is never closed.
\<close>

theorem idle_watchdog_fires_iff:
  "runIdleWatchdog timeout es = Some True \<longleftrightarrow>
     (\<exists>pre now active post. es = pre @ Tick now active # post \<and> timeout \<le> now - active \<and> StopSignal \<notin> set pre)"
proof (induction timeout es rule: runIdleWatchdog.induct)
  case (3 timeout now active es)
  show ?case
  proof (cases "timeout \<le> now - active")
    case True
    then show ?thesis by (auto intro: exI [of _ "[]"])
  next
    case False
    with 3 show ?thesis by (auto simp: Cons_eq_append_conv)
      (metis append_Cons list.set_intros(2) set_ConsD watchEvent.distinct(1))+
  qed
qed (auto simp: Cons_eq_append_conv)

end
