(* ===== verification/Routing.thy ===== *)
theory Routing
  imports WSPool WorkerPool TCPBackoff Bridge
begin

text \<open>
  How a client's session finds its way to Telegram: \<^verbatim>\<open>handleMTProtoClient\<close> of
  \<^verbatim>\<open>src/src/server.go\<close> with its fallbacks, and the fallbacks of \<^verbatim>\<open>src/src/transport.go\<close>. The
  answers of the network, the clock and the random sources are records of arguments; the
  state is the configuration, the two pools, the TCP backoff table and the counters.
\<close>

record proxy =
  pxCfg :: Config
  pxStats :: Stats
  pxPool :: wsPool
  pxWorkers :: workerPool
  pxTCP :: tcpBackoff
  pxClosed :: "nat list"

text \<open>
  A session: the upstream connection, everything sent on it, everything written to the client,
  and whether both directions have ended.
\<close>

datatype upstream = ViaWS nat | ViaWorker nat | ViaCF nat string | ViaTCP string

record session =
  sUpstream :: upstream
  sSent :: "bytes list"
  sClient :: "bytes list"
  sEnded :: bool

definition startWS ::
  "upstream \<Rightarrow> bridgeEnv \<Rightarrow> ciphers \<Rightarrow> msgSplitter option \<Rightarrow> bytes \<Rightarrow> Stats \<Rightarrow> session \<times> Stats" where
  "startWS up env c sp relayInit st =
     (case bridgeWS env c sp st of
        (ended, sent, out, st') \<Rightarrow>
          (\<lparr>sUpstream = up, sSent = relayInit # sent, sClient = out, sEnded = ended\<rparr>, st'))"

subsection \<open>The Cloudflare proxy\<close>

text \<open>
  The answers to the \<open>n\<close>-th domain tried: the context's error before it, the clock, the dial
  with the error or the connection, the write of the relay's bytes, whether the context is
  done after it, and the clock at the end.
\<close>

record cfEnv =
  ceCtxErr :: "nat \<Rightarrow> goerror option"
  ceNow :: "nat \<Rightarrow> instant"
  ceDial :: "nat \<Rightarrow> string \<Rightarrow> goerror + nat"
  ceWrite :: "nat \<Rightarrow> goerror option"
  ceDone :: "nat \<Rightarrow> bool"
  ceNowEnd :: "nat \<Rightarrow> instant"

definition kwsDomain :: "int \<Rightarrow> string \<Rightarrow> string" where
  "kwsDomain dc base = ''kws'' @ strconv_Itoa dc @ ''.'' @ base"

fun cfproxyLoop ::
  "cfEnv \<Rightarrow> int \<Rightarrow> string list \<Rightarrow> nat \<Rightarrow> nat \<Rightarrow> proxy \<Rightarrow> (goerror + nat \<times> string) \<times> proxy" where
  "cfproxyLoop env dc [] n attempts px = (Inl errNoDomains, px)"
| "cfproxyLoop env dc (baseDomain # domains) n attempts px =
     (case ceCtxErr env n of
        Some e \<Rightarrow> (Inl e, px)
      | None \<Rightarrow>
          (if attempts = cfProxyMaxAttempts then (Inl errNoDomains, px)
           else let key = \<lparr>fdkDomain = baseDomain, fdkWorker = False\<rparr> in
             case beginFallbackDial (ceNow env n) key (pxCfg px) of
               (False, cfg1) \<Rightarrow> cfproxyLoop env dc domains (n + 1) attempts (px\<lparr>pxCfg := cfg1\<rparr>)
             | (True, cfg1) \<Rightarrow>
                 (case ceDial env n (kwsDomain dc baseDomain) of
                    Inl e \<Rightarrow>
                      (case finishFallbackDial (ceNowEnd env n) (ceNowEnd env n) (Some e) key cfg1 of
                         (firstFailure, cfg2) \<Rightarrow>
                           cfproxyLoop env dc domains (n + 1) (attempts + 1)
                             (px\<lparr>pxCfg := cfg2, pxStats := (pxStats px)\<lparr>wsErrors := wsErrors (pxStats px) + 1\<rparr>\<rparr>))
                  | Inr ws \<Rightarrow>
                      (case (if ceDone env n then Some context_Canceled else ceWrite env n) of
                         Some e \<Rightarrow>
                           (case finishFallbackDial (ceNowEnd env n) (ceNowEnd env n) (Some e) key cfg1 of
                              (firstFailure, cfg2) \<Rightarrow>
                                cfproxyLoop env dc domains (n + 1) (attempts + 1)
                                  (px\<lparr>pxCfg := cfg2, pxClosed := ws # pxClosed px\<rparr>))
                       | None \<Rightarrow>
                           (case finishFallbackDial (ceNowEnd env n) (ceNowEnd env n) None key cfg1 of
                              (firstFailure, cfg2) \<Rightarrow>
                                (Inr (ws, baseDomain),
                                 px\<lparr>pxCfg := promoteCFProxyDomain dc baseDomain cfg2,
                                    pxStats := (pxStats px)\<lparr>connectionsCF := connectionsCF (pxStats px) + 1\<rparr>\<rparr>))))))"

record routeEnv =
  rePoolNow :: instant
  rePoolNow' :: instant
  reWSWrite :: "goerror option"
  reWorkerNow :: instant
  reWorkerWrite :: "goerror option"
  reWorkerDraws :: "nat \<Rightarrow> nat"
  reWorker :: workerEnv
  reCFDraws :: "nat \<Rightarrow> nat"
  reCFNow :: instant
  reCF :: cfEnv
  reTCP :: tcpEnv
  reBridge :: bridgeEnv
  reTCPDown :: reads

definition cfproxyFallback ::
  "routeEnv \<Rightarrow> int \<Rightarrow> bytes \<Rightarrow> ciphers \<Rightarrow> msgSplitter option \<Rightarrow> proxy \<Rightarrow> (goerror + session) \<times> proxy" where
  "cfproxyFallback env dc relayInit c splitter px =
     (case cfproxyDomainsForTry (reCFDraws env) (reCFNow env) dc (pxCfg px) of
        (domains, cfg1) \<Rightarrow>
          (case cfproxyLoop (reCF env) dc domains 0 0 (px\<lparr>pxCfg := cfg1\<rparr>) of
             (Inl e, px1) \<Rightarrow> (Inl e, px1)
           | (Inr (ws, domain), px1) \<Rightarrow>
               (case startWS (ViaCF ws domain) (reBridge env) c splitter relayInit (pxStats px1) of
                  (s, st) \<Rightarrow> (Inr s, px1\<lparr>pxStats := st\<rparr>))))"

subsection \<open>The Cloudflare Worker\<close>

text \<open>The pooled connection first; when it fails, or there is none, a new one.\<close>

definition workerConn ::
  "routeEnv \<Rightarrow> workerPoolKey \<Rightarrow> bytes \<Rightarrow> proxy \<Rightarrow> (goerror + nat) \<times> proxy" where
  "workerConn env key relayInit px =
     (case workerPool_get (pxCfg px) (reWorkerNow env) key (pxWorkers px) (pxStats px) of
        (item, closedConns, started, w1, st1) \<Rightarrow>
          (let px1 = px\<lparr>pxWorkers := w1, pxStats := st1, pxClosed := closedConns @ pxClosed px\<rparr>;
               px2 = (case item of
                        None \<Rightarrow> px1
                      | Some i \<Rightarrow> (if reWorkerWrite env = None then px1 else px1\<lparr>pxClosed := pkConn i # pxClosed px1\<rparr>))
           in if item \<noteq> None \<and> reWorkerWrite env = None then (Inr (pkConn (the item)), px2)
              else case connectWorker (reWorker env) (reWorkerDraws env) (Some relayInit) (pxCfg px2) (pxStats px2) of
                (r, closedConns', cfg', st') \<Rightarrow>
                  (let px3 = px2\<lparr>pxCfg := cfg', pxStats := st', pxClosed := closedConns' @ pxClosed px2\<rparr> in
                   case r of
                     Inl e \<Rightarrow> (Inl e, px3)
                   | Inr (conn, domain) \<Rightarrow>
                       (Inr conn, px3\<lparr>pxWorkers := snd (workerScheduleRefill (pxCfg px3) key (pxWorkers px3))\<rparr>))))"

definition cfWorkerFallback ::
  "routeEnv \<Rightarrow> int \<Rightarrow> string \<Rightarrow> bytes \<Rightarrow> ciphers \<Rightarrow> proxy \<Rightarrow> (goerror + session) \<times> proxy" where
  "cfWorkerFallback env dc dst relayInit c px =
     (if dst = [] then (Inl errNoDomains, px)
      else case workerConn env \<lparr>wpkDC = dc, wpkDst = dst\<rparr> relayInit px of
        (Inl e, px1) \<Rightarrow> (Inl e, px1)
      | (Inr ws, px1) \<Rightarrow>
          (case startWS (ViaWorker ws) (reBridge env) c None relayInit
                  ((pxStats px1)\<lparr>connectionsCF := connectionsCF (pxStats px1) + 1\<rparr>) of
             (s, st) \<Rightarrow> (Inr s, px1\<lparr>pxStats := st\<rparr>)))"

subsection \<open>Direct TCP\<close>

definition startRelay :: "stream \<Rightarrow> stream \<Rightarrow> int \<Rightarrow> relayState" where
  "startRelay dec enc n = \<lparr>rsDec = dec, rsEnc = enc, rsOut = [], rsPending = 0, rsStat = n\<rparr>"

definition tcpFallback ::
  "routeEnv \<Rightarrow> string \<Rightarrow> bytes \<Rightarrow> ciphers \<Rightarrow> proxy \<Rightarrow> (goerror + session) \<times> proxy" where
  "tcpFallback env dst relayInit c px =
     (case connectTCPFallback (reTCP env) (net_JoinHostPort dst ''443'') relayInit (pxTCP px) of
        (Inl e, b) \<Rightarrow> (Inl e, px\<lparr>pxTCP := b\<rparr>)
      | (Inr r, b) \<Rightarrow>
          (let st = (pxStats px)\<lparr>connectionsTCP := connectionsTCP (pxStats px) + 1\<rparr>;
               (upEnd, u) = relayRun (upWriteErr (reBridge env)) (upReads (reBridge env))
                              (startRelay (cltDec c) (tgEnc c) (bytesUp st));
               (downEnd, d) = relayRun (downWriteErr (reBridge env)) (reTCPDown env)
                                (startRelay (tgDec c) (cltEnc c) (bytesDown st))
           in (Inr \<lparr>sUpstream = ViaTCP dst, sSent = outBytes r # rsOut u, sClient = rsOut d, sEnded = upEnd \<and> downEnd\<rparr>,
               px\<lparr>pxTCP := b, pxStats := st\<lparr>bytesUp := rsStat u, bytesDown := rsStat d\<rparr>\<rparr>)))"

subsection \<open>Falling back\<close>

text \<open>The three closures: whether the route served the client, with its session.\<close>

definition asTried :: "(goerror + session) \<times> proxy \<Rightarrow> session option \<times> proxy" where
  "asTried r = (case r of (Inl e, px) \<Rightarrow> (None, px) | (Inr s, px) \<Rightarrow> (Some s, px))"

definition tryWorker :: "routeEnv \<Rightarrow> int \<Rightarrow> string \<Rightarrow> bytes \<Rightarrow> ciphers \<Rightarrow> proxy \<Rightarrow> session option \<times> proxy" where
  "tryWorker env dc fallback relayInit c px = asTried (cfWorkerFallback env dc fallback relayInit c px)"

definition tryCF :: "routeEnv \<Rightarrow> int \<Rightarrow> 32 word \<Rightarrow> bytes \<Rightarrow> ciphers \<Rightarrow> proxy \<Rightarrow> session option \<times> proxy" where
  "tryCF env dc protoInt relayInit c px =
     asTried (cfproxyFallback env dc relayInit c (Some (newSplitter protoInt)) px)"

definition tryTCP :: "routeEnv \<Rightarrow> string \<Rightarrow> bytes \<Rightarrow> ciphers \<Rightarrow> proxy \<Rightarrow> session option \<times> proxy" where
  "tryTCP env fallback relayInit c px =
     (if fallback = [] then (None, px) else asTried (tcpFallback env fallback relayInit c px))"

text \<open>Go's \<^verbatim>\<open>a() || b()\<close> on two of them.\<close>

definition orElse :: "session option \<times> proxy \<Rightarrow> (proxy \<Rightarrow> session option \<times> proxy) \<Rightarrow> session option \<times> proxy" where
  "orElse r next = (case r of (Some s, px) \<Rightarrow> (Some s, px) | (None, px) \<Rightarrow> next px)"

definition fallbackTarget :: "int \<Rightarrow> string \<Rightarrow> string" where
  "fallbackTarget dc primaryTarget = (if fallbackIP dc = [] then primaryTarget else fallbackIP dc)"

definition doFallback ::
  "routeEnv \<Rightarrow> handshakeInfo \<Rightarrow> bytes \<Rightarrow> ciphers \<Rightarrow> string \<Rightarrow> proxy \<Rightarrow> session option \<times> proxy" where
  "doFallback env hi relayInit c primaryTarget px =
     (let fallback = fallbackTarget (hiDC hi) primaryTarget;
          protoInt = protoFromTag (hiProtoTag hi);
          useWorker = hasCFProxyWorkerDomains (pxCfg px);
          useCF = FallbackCFProxy (pxCfg px) \<and> hasCFProxyDomains (pxCfg px);
          cf = tryCF env (hiDC hi) protoInt relayInit c;
          tcp = tryTCP env fallback relayInit c
      in orElse (if useWorker then tryWorker env (hiDC hi) fallback relayInit c px else (None, px))
           (\<lambda>px1.
              if useCF \<and> FallbackCFProxyPriority (pxCfg px1) then orElse (cf px1) tcp
              else if useCF then orElse (tcp px1) cf
              else tcp px1))"

datatype mtOutcome = StillDrawing | CipherFailed | NoFallback | Served session

definition fallbackOutcome :: "session option \<times> proxy \<Rightarrow> mtOutcome \<times> proxy" where
  "fallbackOutcome r = (case r of (Some s, px) \<Rightarrow> (Served s, px) | (None, px) \<Rightarrow> (NoFallback, px))"

text \<open>\<^term>\<open>None\<close> is a panic.\<close>

definition routeClient ::
  "routeEnv \<Rightarrow> handshakeInfo \<Rightarrow> bytes \<Rightarrow> ciphers \<Rightarrow> proxy \<Rightarrow> mtOutcome \<times> proxy" where
  "routeClient env hi relayInit c px =
     (let targets = map_get [] (map_of (DCPool (pxCfg px))) (hiDC hi);
          primaryTarget = (if targets \<noteq> [] then targets ! 0 else [])
      in case getForDC (pxCfg px) (rePoolNow env) (rePoolNow' env)
                \<lparr>dkDC = hiDC hi, dkIsMedia = hiIsMedia hi\<rparr> (pxPool px) (pxStats px) of
           (ws, closedConns, p1, st) \<Rightarrow>
             (let px1 = px\<lparr>pxPool := p1, pxStats := st, pxClosed := closedConns @ pxClosed px\<rparr> in
              case ws of
                None \<Rightarrow> fallbackOutcome (doFallback env hi relayInit c primaryTarget px1)
              | Some w \<Rightarrow>
                  (if reWSWrite env \<noteq> None
                   then fallbackOutcome (doFallback env hi relayInit c primaryTarget
                          (px1\<lparr>pxClosed := pwConn w # pxClosed px1\<rparr>))
                   else case startWS (ViaWS (pwConn w)) (reBridge env) c
                               (Some (newSplitter (protoFromTag (hiProtoTag hi)))) relayInit
                               ((pxStats px1)\<lparr>connectionsWS := connectionsWS (pxStats px1) + 1\<rparr>) of
                     (s, st') \<Rightarrow> (Served s, px1\<lparr>pxStats := st'\<rparr>))))"

definition handleMTProtoClient ::
  "routeEnv \<Rightarrow> bytes list \<Rightarrow> bytes \<Rightarrow> handshakeInfo \<Rightarrow> bytes \<Rightarrow> proxy \<Rightarrow> (mtOutcome \<times> proxy) option" where
  "handleMTProtoClient env draws rnd2 hi secret px =
     (case generateRelayInit draws rnd2 (hiProtoTag hi) (signedDC (hiDC hi) (hiIsMedia hi)) of
        None \<Rightarrow> Some (StillDrawing, px)
      | Some relayInit \<Rightarrow>
          (case buildCiphers (hiClientDecI hi) relayInit secret of
             None \<Rightarrow> None
           | Some None \<Rightarrow> Some (CipherFailed, px)
           | Some (Some c) \<Rightarrow> Some (routeClient env hi relayInit c px)))"

subsection \<open>Every session relays faithfully\<close>

definition fromTelegram :: "routeEnv \<Rightarrow> session \<Rightarrow> bytes" where
  "fromTelegram env s =
     (case sUpstream s of ViaTCP dst \<Rightarrow> readPayload (reTCPDown env) | _ \<Rightarrow> binaryPayload (downMsgs (reBridge env)))"

definition fromClient :: "routeEnv \<Rightarrow> bytes" where
  "fromClient env = concat (map fst (upReads (reBridge env)))"

text \<open>
  The first thing sent is the relay's handshake; then, encrypted for Telegram, a prefix of
  what the client sent, and to the client, encrypted for it, a prefix of what Telegram sent.
\<close>

definition faithful :: "routeEnv \<Rightarrow> ciphers \<Rightarrow> bytes \<Rightarrow> session \<Rightarrow> bool" where
  "faithful env c relayInit s \<longleftrightarrow>
     (\<exists>up p. sSent s = relayInit # up \<and> concat up = fst (XORKeyStream (tgEnc c) p) \<and>
        prefix p (fst (XORKeyStream (cltDec c) (fromClient env)))) \<and>
     (\<exists>q. prefix q (fromTelegram env s) \<and> concat (sClient s) = recode (tgDec c) (cltEnc c) q)"

lemma bridgeDown_out [simp]: "dsOut (snd (bridgeDown werr ms s)) = dsOut (snd (downLoop werr ms s))"
  by (simp add: bridgeDown_def split: prod.splits option.splits)

lemma relayRun_out [simp]: "rsOut (snd (relayRun werr rs s)) = rsOut (snd (relayLoop werr rs s))"
  by (simp add: relayRun_def split: prod.splits)

lemma xks_prefix: "prefix xs ys \<Longrightarrow> prefix (fst (XORKeyStream s xs)) (fst (XORKeyStream s ys))"
  by (auto simp: prefix_def ctr.xks_append_fst)

lemma readPayload_prefix: "prefix (readPayload rs) (concat (map fst rs))"
  by (induction rs) auto

lemma startWS_faithful:
  assumes "startWS up (reBridge env) c sp relayInit st = (s, st')" and "okPart sp" and "bufferedPart sp = []"
    and "\<And>dst. up \<noteq> ViaTCP dst"
  shows "faithful env c relayInit s"
proof -
  let ?u = "snd (upLoop (upWriteErr (reBridge env)) (upReads (reBridge env)) (startUp c sp st))"
  let ?d = "snd (downLoop (downWriteErr (reBridge env)) (downMsgs (reBridge env)) (startDown c st))"
  have s: "sUpstream s = up" "sSent s = relayInit # usSent ?u" "sClient s = dsOut ?d"
    using assms(1) by (auto simp: startWS_def bridgeWS_def split_beta)
  from upLoop_sends [of "startUp c sp st" "upWriteErr (reBridge env)" "upReads (reBridge env)"] assms(2,3)
  obtain parts where parts: "usSent ?u = fst (xchunks (tgEnc c) parts)"
    "prefix (concat parts) (fst (XORKeyStream (cltDec c) (fromClient env)))"
    by (auto simp: sends_def startUp_def fromClient_def)
  from downLoop_delivers [of "startDown c st" "downWriteErr (reBridge env)" "downMsgs (reBridge env)"]
  obtain q where "prefix q (binaryPayload (downMsgs (reBridge env)))" "concat (dsOut ?d) = recode (tgDec c) (cltEnc c) q"
    by (auto simp: delivers_def startDown_def)
  moreover have "fromTelegram env s = binaryPayload (downMsgs (reBridge env))"
    using assms(4) s by (auto simp: fromTelegram_def split: upstream.split)
  ultimately show ?thesis unfolding faithful_def using s parts xchunks_concat by auto
qed

lemma tcpFallback_parts:
  assumes "tcpFallback env dst relayInit c px = (Inr s, px')"
    and "\<And>r. tcpDial (reTCP env) = Inr r \<Longrightarrow> outBytes r = []"
  shows "sUpstream s = ViaTCP dst"
    and "sSent s = relayInit # rsOut (snd (relayLoop (upWriteErr (reBridge env)) (upReads (reBridge env))
      (startRelay (cltDec c) (tgEnc c) (bytesUp (pxStats px)))))"
    and "sClient s = rsOut (snd (relayLoop (downWriteErr (reBridge env)) (reTCPDown env)
      (startRelay (tgDec c) (cltEnc c) (bytesDown (pxStats px)))))"
proof -
  obtain res b where conn': "connectTCPFallback (reTCP env) (net_JoinHostPort dst ''443'') relayInit (pxTCP px) = (res, b)"
    by fastforce
  with assms(1) obtain r where res: "res = Inr r" by (cases res) (simp_all add: tcpFallback_def)
  note conn = conn' [unfolded res]
  from conn assms(2) have "outBytes r = relayInit"
    by (auto simp: connectTCPFallback_def tcpAttemptResult_def writeTCPRelayInit_def conn_Write_def Let_def
        split: option.splits prod.splits bool.splits sum.splits if_splits)
  with assms(1) show "sUpstream s = ViaTCP dst"
    and "sSent s = relayInit # rsOut (snd (relayLoop (upWriteErr (reBridge env)) (upReads (reBridge env))
      (startRelay (cltDec c) (tgEnc c) (bytesUp (pxStats px)))))"
    and "sClient s = rsOut (snd (relayLoop (downWriteErr (reBridge env)) (reTCPDown env)
      (startRelay (tgDec c) (cltEnc c) (bytesDown (pxStats px)))))"
    by (auto simp: tcpFallback_def conn Let_def split_beta)
qed

lemma tcpFallback_faithful:
  assumes "tcpFallback env dst relayInit c px = (Inr s, px')"
    and "\<And>r. tcpDial (reTCP env) = Inr r \<Longrightarrow> outBytes r = []"
  shows "faithful env c relayInit s"
proof -
  let ?u = "relayLoop (upWriteErr (reBridge env)) (upReads (reBridge env))"
  let ?d = "relayLoop (downWriteErr (reBridge env)) (reTCPDown env)"
  note s = tcpFallback_parts [OF assms]
  obtain cs where cs: "prefix cs (readPayload (upReads (reBridge env)))"
    "concat (rsOut (snd (?u (startRelay (cltDec c) (tgEnc c) (bytesUp (pxStats px)))))) = recode (cltDec c) (tgEnc c) cs"
    using relayLoop_relays [of "upReads (reBridge env)" "upWriteErr (reBridge env)"
        "startRelay (cltDec c) (tgEnc c) (bytesUp (pxStats px))"] by (auto simp: startRelay_def)
  moreover have "prefix (fst (XORKeyStream (cltDec c) cs)) (fst (XORKeyStream (cltDec c) (fromClient env)))"
    using xks_prefix prefix_order.trans [OF cs(1) readPayload_prefix] by (simp add: fromClient_def)
  moreover obtain q where "prefix q (readPayload (reTCPDown env))"
    "concat (rsOut (snd (?d (startRelay (tgDec c) (cltEnc c) (bytesDown (pxStats px)))))) = recode (tgDec c) (cltEnc c) q"
    using relayLoop_relays [of "reTCPDown env" "downWriteErr (reBridge env)"
        "startRelay (tgDec c) (cltEnc c) (bytesDown (pxStats px))"] by (auto simp: startRelay_def)
  ultimately show ?thesis unfolding faithful_def fromTelegram_def s(1) by (auto simp: s recode_def)
qed

definition freshTCP :: "routeEnv \<Rightarrow> bool" where
  "freshTCP env \<longleftrightarrow> (case tcpDial (reTCP env) of Inl e \<Rightarrow> True | Inr r \<Rightarrow> outBytes r = [])"

lemma newSplitter_part [simp]: "okPart (Some (newSplitter p))" "bufferedPart (Some (newSplitter p)) = []"
  "okPart None" "bufferedPart None = []"
  using newSplitter_ok [of p] by (simp_all add: okPart_def bufferedPart_def newSplitter_def)

lemma asTried_Some: "asTried r = (Some s, px) \<longleftrightarrow> r = (Inr s, px)"
  by (cases r; cases "fst r") (auto simp: asTried_def)

lemma orElse_Some:
  "orElse r next = (Some s, px) \<longleftrightarrow> r = (Some s, px) \<or> (\<exists>px1. r = (None, px1) \<and> next px1 = (Some s, px))"
  by (auto simp: orElse_def split: prod.splits option.splits)

text \<open>
  Every session that is served is one that \<^verbatim>\<open>startWS\<close> bridges over some WebSocket, with a splitter
  that holds nothing or without one, or one that \<^verbatim>\<open>tcpFallback\<close> relays: what holds of both holds of all.
\<close>

lemma routeClient_session:
  assumes "routeClient env hi relayInit c px = (Served s, px')"
    and ws: "\<And>up sp st st'. startWS up (reBridge env) c sp relayInit st = (s, st') \<Longrightarrow> okPart sp \<Longrightarrow> bufferedPart sp = [] \<Longrightarrow>
      (\<And>dst. up \<noteq> ViaTCP dst) \<Longrightarrow> P"
    and tcp: "\<And>dst px1 px2. tcpFallback env dst relayInit c px1 = (Inr s, px2) \<Longrightarrow> P"
  shows P
proof -
  have "P" if "tryWorker env dc dst relayInit c px1 = (Some s, px2)" for dc dst px1 px2
    using that by (auto simp: tryWorker_def asTried_Some cfWorkerFallback_def intro: ws split: if_splits prod.splits sum.splits)
  moreover have "P" if "tryCF env dc pr relayInit c px1 = (Some s, px2)" for dc pr px1 px2
    using that by (auto simp: tryCF_def asTried_Some cfproxyFallback_def intro: ws split: if_splits prod.splits sum.splits)
  moreover have "P" if "tryTCP env dst relayInit c px1 = (Some s, px2)" for dst px1 px2
    using that by (auto simp: tryTCP_def asTried_Some intro: tcp split: if_splits)
  ultimately have "P" if "doFallback env hi relayInit c target px1 = (Some s, px2)" for target px1 px2
    using that by (auto simp: doFallback_def Let_def orElse_Some split: if_splits)
  with assms(1) show P
    by (auto simp: routeClient_def fallbackOutcome_def Let_def intro: ws split: prod.splits option.splits if_splits)
qed

lemma freshTCP_dial: "freshTCP env \<Longrightarrow> tcpDial (reTCP env) = Inr r \<Longrightarrow> outBytes r = []"
  by (simp add: freshTCP_def)

lemma routeClient_faithful:
  assumes "freshTCP env" and "routeClient env hi relayInit c px = (Served s, px')"
  shows "faithful env c relayInit s"
  by (rule routeClient_session [OF assms(2)])
    (auto intro: startWS_faithful tcpFallback_faithful freshTCP_dial [OF assms(1)])

text \<open>The sessions that cut the client's bytes into packets: over the pool and over the Cloudflare proxy.\<close>

definition cutsPackets :: "session \<Rightarrow> bool" where
  "cutsPackets s = (case sUpstream s of ViaWS w \<Rightarrow> True | ViaCF w d \<Rightarrow> True | _ \<Rightarrow> False)"

definition sendsWith :: "routeEnv \<Rightarrow> ciphers \<Rightarrow> 32 word \<Rightarrow> bytes \<Rightarrow> session \<Rightarrow> bool" where
  "sendsWith env c pr relayInit s \<longleftrightarrow>
     (\<exists>st. sSent s = relayInit # usSent (snd (bridgeUp (upWriteErr (reBridge env)) (upReads (reBridge env))
        (startUp c (Some (newSplitter pr)) st))))"

lemma startWS_sendsWith:
  "startWS up (reBridge env) c (Some (newSplitter pr)) relayInit st = (s, st') \<Longrightarrow> sendsWith env c pr relayInit s"
  by (auto simp: startWS_def bridgeWS_def sendsWith_def split_beta)

lemma startWS_upstream: "startWS up env c sp relayInit st = (s, st') \<Longrightarrow> sUpstream s = up"
  by (auto simp: startWS_def split: prod.splits)

lemma tryWorker_cuts: "tryWorker env dc dst relayInit c px = (Some s, px') \<Longrightarrow> \<not> cutsPackets s"
  by (auto simp: tryWorker_def asTried_Some cfWorkerFallback_def cutsPackets_def dest!: startWS_upstream
      split: if_splits prod.splits sum.splits)

lemma tryTCP_cuts: "tryTCP env dst relayInit c px = (Some s, px') \<Longrightarrow> \<not> cutsPackets s"
  by (auto simp: tryTCP_def asTried_Some tcpFallback_def cutsPackets_def Let_def split_beta split: if_splits sum.splits)

lemma tryCF_sendsWith: "tryCF env dc pr relayInit c px = (Some s, px') \<Longrightarrow> sendsWith env c pr relayInit s"
  by (auto simp: tryCF_def asTried_Some cfproxyFallback_def intro: startWS_sendsWith
      split: if_splits prod.splits sum.splits)

lemma routeClient_sendsWith:
  assumes "routeClient env hi relayInit c px = (Served s, px')" and "cutsPackets s"
  shows "sendsWith env c (protoFromTag (hiProtoTag hi)) relayInit s"
proof -
  have "sendsWith env c (protoFromTag (hiProtoTag hi)) relayInit s"
    if "doFallback env hi relayInit c target px1 = (Some s, px2)" for target px1 px2
    using that assms(2) tryWorker_cuts tryTCP_cuts tryCF_sendsWith
    by (fastforce simp: doFallback_def Let_def orElse_Some split: if_splits)
  with assms(1) show ?thesis
    by (auto simp: routeClient_def fallbackOutcome_def Let_def intro: startWS_sendsWith
        split: prod.splits option.splits if_splits)
qed

subsection \<open>Reservations and attempts\<close>

text \<open>Failed dials are counted in \<^verbatim>\<open>wsErrors\<close>, failed writes leave a closed connection.\<close>

definition failures :: "proxy \<Rightarrow> int" where
  "failures px = wsErrors (pxStats px) + int (length (pxClosed px))"

definition cf_ok ::
  "cfEnv \<Rightarrow> int \<Rightarrow> string list \<Rightarrow> nat \<Rightarrow> proxy \<Rightarrow> (goerror + nat \<times> string) \<times> proxy \<Rightarrow> bool" where
  "cf_ok env dc ds budget px res =
     (case res of (r, px') \<Rightarrow>
        dials_good (pxCfg px') \<and> dials_held (pxCfg px') = dials_held (pxCfg px) \<and>
        failures px' \<le> failures px + int budget \<and>
        (case r of Inl e \<Rightarrow> True
         | Inr (ws, d) \<Rightarrow> d \<in> set ds \<and>
             (\<exists>n. ceDial env n (kwsDomain dc d) = Inr ws \<and> \<not> ceDone env n \<and> ceWrite env n = None)))"

lemma cf_ok_step:
  assumes "cf_ok env dc ds budget px1 res" and "dials_held (pxCfg px1) = dials_held (pxCfg px)"
    and "failures px1 + int budget \<le> failures px + int budget'"
  shows "cf_ok env dc (d # ds) budget' px res"
  using assms by (auto simp: cf_ok_def split: prod.splits sum.splits)

lemma dials_cong:
  assumes "fallbackDials a = fallbackDials b"
  shows "dials_good a = dials_good b" "dials_held a = dials_held b"
  using assms by (simp add: dials_good_def) (rule ext, simp add: dials_held_def assms)

lemma promote_dials: "dials_good (promoteCFProxyDomain dc d cfg) = dials_good cfg"
  "dials_held (promoteCFProxyDomain dc d cfg) = dials_held cfg"
  using dials_cong [OF poolStep_dials [of "Promote dc d" cfg]] by simp_all

lemma cfproxyLoop_spec:
  assumes "dials_good (pxCfg px)" and "attempts \<le> cfProxyMaxAttempts"
  shows "cf_ok env dc ds (cfProxyMaxAttempts - attempts) px (cfproxyLoop env dc ds n attempts px)"
  using assms
proof (induction ds arbitrary: n attempts px)
  case (Cons d ds)
  let ?key = "\<lparr>fdkDomain = d, fdkWorker = False\<rparr>"
  obtain ok cfg1 where beg: "beginFallbackDial (ceNow env n) ?key (pxCfg px) = (ok, cfg1)" by fastforce
  consider e where "ceCtxErr env n = Some e" | "ceCtxErr env n = None" "attempts = cfProxyMaxAttempts"
    | "ceCtxErr env n = None" "attempts < cfProxyMaxAttempts" "\<not> ok"
    | "ceCtxErr env n = None" "attempts < cfProxyMaxAttempts" "ok"
    using Cons.prems(2) by fastforce
  then show ?case
  proof cases
    case 3
    with beg begin_refused_same [of "ceNow env n" ?key "pxCfg px"] Cons.IH [of px attempts "n + 1"] Cons.prems
    show ?thesis by (auto intro: cf_ok_step)
  next
    case 4
    have fin: "\<exists>first cfg2. finishFallbackDial (ceNowEnd env n) (ceNowEnd env n) err ?key cfg1 = (first, cfg2) \<and>
        dials_good cfg2 \<and> dials_held cfg2 = dials_held (pxCfg px)" for err
      using dial_cycle [OF Cons.prems(1)] beg 4(3) by (metis prod.exhaust_sel)
    have next_try: "cf_ok env dc (d # ds) (cfProxyMaxAttempts - attempts) px
        (cfproxyLoop env dc ds (n + 1) (attempts + 1) px1)"
      if "dials_good (pxCfg px1)" "dials_held (pxCfg px1) = dials_held (pxCfg px)" "failures px1 = failures px + 1" for px1
      using Cons.IH [OF that(1), of "attempts + 1" "n + 1"] 4(2) that(2,3) by (auto intro: cf_ok_step)
    show ?thesis
    proof (cases "ceDial env n (kwsDomain dc d)")
      case (Inl e)
      obtain first cfg2 where f: "finishFallbackDial (ceNowEnd env n) (ceNowEnd env n) (Some e) ?key cfg1 = (first, cfg2)"
        "dials_good cfg2" "dials_held cfg2 = dials_held (pxCfg px)" using fin by blast
      with 4 beg Inl next_try show ?thesis by (simp add: failures_def)
    next
      case (Inr ws)
      show ?thesis
      proof (cases "if ceDone env n then Some context_Canceled else ceWrite env n")
        case None
        obtain first cfg2 where f: "finishFallbackDial (ceNowEnd env n) (ceNowEnd env n) None ?key cfg1 = (first, cfg2)"
          "dials_good cfg2" "dials_held cfg2 = dials_held (pxCfg px)" using fin by blast
        with 4 beg Inr None show ?thesis
          by (auto simp: cf_ok_def promote_dials failures_def split: if_splits)
      next
        case (Some e)
        obtain first cfg2 where f: "finishFallbackDial (ceNowEnd env n) (ceNowEnd env n) (Some e) ?key cfg1 = (first, cfg2)"
          "dials_good cfg2" "dials_held cfg2 = dials_held (pxCfg px)" using fin by blast
        with 4 beg Inr Some next_try show ?thesis by (simp add: failures_def)
      qed
    qed
  qed (use Cons.prems in \<open>simp_all add: cf_ok_def\<close>)
qed (simp add: cf_ok_def)

lemma domainsForTry_dials:
  assumes "cfproxyDomainsForTry draws now dc cfg = (ds, cfg1)"
  shows "dials_good cfg1 = dials_good cfg" "dials_held cfg1 = dials_held cfg"
  using dials_cong [OF poolStep_dials [of "DomainsForTry draws now dc" cfg]] assms by simp_all

text \<open>Every route gives back the reservations it takes.\<close>

definition balanced :: "proxy \<Rightarrow> proxy \<Rightarrow> bool" where
  "balanced px px' \<longleftrightarrow> dials_good (pxCfg px') \<and> dials_held (pxCfg px') = dials_held (pxCfg px)"

lemma balanced_trans: "balanced a b \<Longrightarrow> balanced b c \<Longrightarrow> balanced a c"
  by (simp add: balanced_def)

lemma asTried_snd [simp]: "snd (asTried r) = snd r"
  by (cases r; cases "fst r") (auto simp: asTried_def)

lemma tryCF_balanced:
  assumes "dials_good (pxCfg px)"
  shows "balanced px (snd (tryCF env dc pr relayInit c px))"
proof -
  obtain ds cfg1 where ds: "cfproxyDomainsForTry (reCFDraws env) (reCFNow env) dc (pxCfg px) = (ds, cfg1)" by fastforce
  obtain r px1 where loop: "cfproxyLoop (reCF env) dc ds 0 0 (px\<lparr>pxCfg := cfg1\<rparr>) = (r, px1)" by fastforce
  have "balanced px px1"
    using cfproxyLoop_spec [of "px\<lparr>pxCfg := cfg1\<rparr>" 0 "reCF env" dc ds 0] assms loop domainsForTry_dials [OF ds]
    by (simp add: cf_ok_def balanced_def)
  then show ?thesis
    by (cases r) (auto simp: tryCF_def cfproxyFallback_def ds loop balanced_def split: prod.splits)
qed

lemma tryTCP_cfg: "pxCfg (snd (tryTCP env dst relayInit c px)) = pxCfg px"
  by (simp add: tryTCP_def tcpFallback_def Let_def split_beta split: sum.splits)

lemma workerConn_balanced:
  assumes "dials_good (pxCfg px)"
  shows "balanced px (snd (workerConn env key relayInit px))"
proof -
  have "dials_good (fst (snd (snd (connectWorker e draws ri (pxCfg px) st)))) \<and>
      dials_held (fst (snd (snd (connectWorker e draws ri (pxCfg px) st)))) = dials_held (pxCfg px)" for e draws ri st
    using connectWorkerLoop_spec [OF assms, of e ri "cfproxyWorkerDomainsForTry draws (pxCfg px)" 0 "[]" st]
    by (auto simp: worker_ok_def connectWorker_def split: prod.splits)
  with assms show ?thesis
    by (auto simp: workerConn_def balanced_def Let_def split_beta split: option.splits sum.splits)
qed

lemma tryWorker_balanced:
  assumes "dials_good (pxCfg px)"
  shows "balanced px (snd (tryWorker env dc dst relayInit c px))"
proof -
  obtain r px1 where w: "workerConn env \<lparr>wpkDC = dc, wpkDst = dst\<rparr> relayInit px = (r, px1)" by fastforce
  with workerConn_balanced [OF assms, of env "\<lparr>wpkDC = dc, wpkDst = dst\<rparr>" relayInit] have "balanced px px1" by simp
  with w assms show ?thesis
    by (cases r) (auto simp: tryWorker_def cfWorkerFallback_def balanced_def split: prod.splits)
qed

lemma tryTCP_balanced: "dials_good (pxCfg px) \<Longrightarrow> balanced px (snd (tryTCP env dst relayInit c px))"
  by (simp add: balanced_def tryTCP_cfg)

lemma orElse_balanced:
  assumes "balanced px (snd r)" and "\<And>px1. dials_good (pxCfg px1) \<Longrightarrow> balanced px1 (snd (next px1))"
  shows "balanced px (snd (orElse r next))"
proof (cases "fst r")
  case None
  with assms(1) have "orElse r next = next (snd r)" by (cases r) (simp add: orElse_def)
  with assms show ?thesis by (metis balanced_def balanced_trans)
next
  case (Some s)
  with assms(1) show ?thesis by (cases r) (simp add: orElse_def)
qed

lemma doFallback_balanced:
  assumes "dials_good (pxCfg px)"
  shows "balanced px (snd (doFallback env hi relayInit c target px))"
  unfolding doFallback_def Let_def
proof (rule orElse_balanced)
  show "balanced px (snd (if hasCFProxyWorkerDomains (pxCfg px)
      then tryWorker env (hiDC hi) (fallbackTarget (hiDC hi) target) relayInit c px else (None, px)))"
    using tryWorker_balanced [OF assms] assms by (simp add: balanced_def)
qed (auto intro!: orElse_balanced tryCF_balanced tryTCP_balanced)

lemma routeClient_balanced:
  assumes "dials_good (pxCfg px)"
  shows "balanced px (snd (routeClient env hi relayInit c px))"
proof -
  have "balanced px (snd (fallbackOutcome (doFallback env hi relayInit c target px1)))"
    if "pxCfg px1 = pxCfg px" for target px1
  proof -
    have "snd (fallbackOutcome r) = snd r" for r by (cases r; cases "fst r") (auto simp: fallbackOutcome_def)
    with doFallback_balanced [of px1 env hi relayInit c target] assms that show ?thesis by (simp add: balanced_def)
  qed
  with assms show ?thesis
    by (auto simp: routeClient_def Let_def split_beta split: option.split if_splits) (simp_all add: balanced_def)
qed

subsection \<open>The order of the routes\<close>

datatype routeKind = WorkerRoute | CFRoute | TCPRoute

definition routeOrder :: "Config \<Rightarrow> routeKind list" where
  "routeOrder cfg =
     (if hasCFProxyWorkerDomains cfg then [WorkerRoute] else []) @
     (if FallbackCFProxy cfg \<and> hasCFProxyDomains cfg
      then (if FallbackCFProxyPriority cfg then [CFRoute, TCPRoute] else [TCPRoute, CFRoute])
      else [TCPRoute])"

definition tryRoute ::
  "routeEnv \<Rightarrow> handshakeInfo \<Rightarrow> bytes \<Rightarrow> ciphers \<Rightarrow> string \<Rightarrow> routeKind \<Rightarrow> proxy \<Rightarrow> session option \<times> proxy" where
  "tryRoute env hi relayInit c fallback k px =
     (case k of WorkerRoute \<Rightarrow> tryWorker env (hiDC hi) fallback relayInit c px
      | CFRoute \<Rightarrow> tryCF env (hiDC hi) (protoFromTag (hiProtoTag hi)) relayInit c px
      | TCPRoute \<Rightarrow> tryTCP env fallback relayInit c px)"

fun firstRoute ::
  "(routeKind \<Rightarrow> proxy \<Rightarrow> session option \<times> proxy) \<Rightarrow> routeKind list \<Rightarrow> proxy \<Rightarrow> session option \<times> proxy" where
  "firstRoute route [] px = (None, px)"
| "firstRoute route (k # ks) px = (case route k px of (Some s, px1) \<Rightarrow> (Some s, px1) | (None, px1) \<Rightarrow> firstRoute route ks px1)"

lemma begin_priority: "beginFallbackDial now key cfg = (ok, cfg1) \<Longrightarrow> FallbackCFProxyPriority cfg1 = FallbackCFProxyPriority cfg"
  by (auto simp: beginFallbackDial_def Let_def split: if_splits)

lemma finish_priority:
  "finishFallbackDial t t' err key cfg = (first, cfg1) \<Longrightarrow> FallbackCFProxyPriority cfg1 = FallbackCFProxyPriority cfg"
  by (auto simp: finishFallbackDial_def setFailures_def Let_def split: if_splits option.splits)

lemma connectWorkerLoop_priority:
  "FallbackCFProxyPriority (fst (snd (snd (connectWorkerLoop env ri ds n cc cfg st)))) = FallbackCFProxyPriority cfg"
proof (induction ds arbitrary: n cc cfg st)
  case (Cons d ds)
  then show ?case
    by (auto simp: Let_def split: option.split prod.split bool.split dest: begin_priority finish_priority)
qed simp

lemma tryWorker_priority:
  "FallbackCFProxyPriority (pxCfg (snd (tryWorker env dc dst relayInit c px))) = FallbackCFProxyPriority (pxCfg px)"
proof -
  obtain r px1 where w: "workerConn env \<lparr>wpkDC = dc, wpkDst = dst\<rparr> relayInit px = (r, px1)" by fastforce
  then have "FallbackCFProxyPriority (pxCfg px1) = FallbackCFProxyPriority (pxCfg px)"
    using connectWorkerLoop_priority
    by (auto simp: workerConn_def connectWorker_def Let_def split_beta split: option.splits sum.splits if_splits)
  with w show ?thesis
    by (cases r) (auto simp: tryWorker_def cfWorkerFallback_def split: prod.splits)
qed

lemma orElse_Pair [simp]: "orElse (None, px) next = next px" "orElse (Some s, px) next = (Some s, px)"
  by (simp_all add: orElse_def)

lemma firstRoute_orElse [simp]: "firstRoute route (k # ks) px = orElse (route k px) (firstRoute route ks)"
  by (simp add: orElse_def)

lemma orElse_None [simp]: "orElse r (Pair None) = r"
  by (cases r; cases "fst r") (auto simp: orElse_def)

lemma firstRoute_Nil [simp]: "firstRoute route [] = Pair None"
  by (rule ext) simp

lemma firstRoute_one [simp]: "firstRoute route [k] = route k"
  by (rule ext) (simp del: firstRoute.simps)

lemma doFallback_routes:
  "doFallback env hi relayInit c target px =
     firstRoute (tryRoute env hi relayInit c (fallbackTarget (hiDC hi) target)) (routeOrder (pxCfg px)) px"
proof -
  let ?f = "fallbackTarget (hiDC hi) target"
  let ?route = "tryRoute env hi relayInit c ?f"
  define tail where "tail = (if FallbackCFProxy (pxCfg px) \<and> hasCFProxyDomains (pxCfg px)
      then (if FallbackCFProxyPriority (pxCfg px) then [CFRoute, TCPRoute] else [TCPRoute, CFRoute]) else [TCPRoute])"
  have order: "routeOrder (pxCfg px) = (if hasCFProxyWorkerDomains (pxCfg px) then [WorkerRoute] else []) @ tail"
    by (simp add: routeOrder_def tail_def)
  define body where "body px1 =
      (if (FallbackCFProxy (pxCfg px) \<and> hasCFProxyDomains (pxCfg px)) \<and> FallbackCFProxyPriority (pxCfg px1)
       then orElse (?route CFRoute px1) (?route TCPRoute)
       else if FallbackCFProxy (pxCfg px) \<and> hasCFProxyDomains (pxCfg px)
       then orElse (?route TCPRoute px1) (?route CFRoute) else ?route TCPRoute px1)" for px1
  have rest: "firstRoute ?route tail px1 = body px1"
    if "FallbackCFProxyPriority (pxCfg px1) = FallbackCFProxyPriority (pxCfg px)" for px1
    using that by (simp del: firstRoute.simps add: tail_def body_def)
  have tries: "?route CFRoute = tryCF env (hiDC hi) (protoFromTag (hiProtoTag hi)) relayInit c"
    "?route TCPRoute = tryTCP env ?f relayInit c" "?route WorkerRoute px = tryWorker env (hiDC hi) ?f relayInit c px"
    by (simp_all add: tryRoute_def fun_eq_iff)
  have df: "doFallback env hi relayInit c target px =
      orElse (if hasCFProxyWorkerDomains (pxCfg px) then ?route WorkerRoute px else (None, px)) body"
    unfolding doFallback_def Let_def tries body_def ..
  obtain r px1 where w: "?route WorkerRoute px = (r, px1)" by fastforce
  then have "FallbackCFProxyPriority (pxCfg px1) = FallbackCFProxyPriority (pxCfg px)"
    using tryWorker_priority [of env "hiDC hi" ?f relayInit c px] by (simp add: tries)
  with rest [of px] rest [of px1] w show ?thesis unfolding df order
    by (cases "hasCFProxyWorkerDomains (pxCfg px)"; cases r) (simp_all del: firstRoute.simps)
qed

subsection \<open>A concrete environment\<close>

text \<open>The WebSocket dials fail and TCP works; a few bytes go each way.\<close>

definition sampleCFEnv :: cfEnv where
  "sampleCFEnv = \<lparr>ceCtxErr = \<lambda>_. None, ceNow = \<lambda>_. 5, ceDial = \<lambda>_ _. Inl io_EOF, ceWrite = \<lambda>_. None,
     ceDone = \<lambda>_. False, ceNowEnd = \<lambda>_. 6\<rparr>"

definition sampleBridge :: bridgeEnv where
  "sampleBridge = \<lparr>upReads = [([1, 2, 3], None), ([], Some io_EOF)], upWriteErr = \<lambda>_. None,
     downMsgs = [Inr (True, [([4, 5], Some io_EOF)]), Inl io_EOF], downWriteErr = \<lambda>_. None\<rparr>"

definition sampleRoute :: routeEnv where
  "sampleRoute = \<lparr>rePoolNow = 1, rePoolNow' = 1, reWSWrite = None, reWorkerNow = 1, reWorkerWrite = None,
     reWorkerDraws = \<lambda>_. 0, reWorker = sampleWorkerEnv, reCFDraws = \<lambda>_. 0, reCFNow = 1, reCF = sampleCFEnv,
     reTCP = sampleTcpEnv\<lparr>tcpDial := Inr \<lparr>inBytes = [], inErr = io_EOF, outBytes = [], outErr = None\<rparr>\<rparr>,
     reBridge = sampleBridge, reTCPDown = [([6], Some io_EOF)]\<rparr>"

subsection \<open>Properties\<close>

text \<open>
  C12. The order of the fallbacks: the nested conditions of \<^verbatim>\<open>doFallback\<close> try the enabled routes
  one after the other and stop at the first that serves the client. The Worker comes first
  when workers are configured; then, when the Cloudflare proxy is enabled and has domains,
  the proxy before or after TCP as \<^verbatim>\<open>FallbackCFProxyPriority\<close> says; otherwise TCP alone. So
  no route is skipped and none is tried twice.
\<close>

theorem fallback_order:
  "doFallback env hi relayInit c target px =
     firstRoute (tryRoute env hi relayInit c (fallbackTarget (hiDC hi) target)) (routeOrder (pxCfg px)) px"
  by (rule doFallback_routes)

text \<open>
  C13. A session leaves no reservation behind: whatever the answers of the network on its way
  through the pool and all its fallbacks, the number of dials held for every domain, of the
  Worker and of the Cloudflare proxy, is the same after it has been routed as before.
\<close>

theorem routing_returns_reservations:
  assumes "dials_good (pxCfg px)"
  shows "dials_held (pxCfg (snd (routeClient env hi relayInit c px))) = dials_held (pxCfg px) \<and>
    dials_good (pxCfg (snd (routeClient env hi relayInit c px)))"
  using routeClient_balanced [OF assms] by (simp add: balanced_def)

theorem routing_returns_reservations_witness:
  "dials_held (pxCfg (snd (routeClient sampleRoute
       \<lparr>hiDC = 1, hiIsMedia = True, hiProtoTag = protoTagSecure, hiClientDecI = []\<rparr> [1]
       \<lparr>cltDec = telegramRecv [], cltEnc = telegramRecv [], tgEnc = telegramRecv [], tgDec = telegramRecv []\<rparr>
       \<lparr>pxCfg = zeroConfig\<lparr>FallbackCFProxyWorkerDomains := [''w.dev'']\<rparr>, pxStats = zeroStats, pxPool = newWSPool,
        pxWorkers = newWorkerPool, pxTCP = Map.empty, pxClosed = []\<rparr>))) = (\<lambda>_. 0)"
  (is "dials_held (pxCfg (snd (routeClient _ ?hi _ ?c ?px))) = _")
proof -
  have "dials_good (pxCfg ?px)" "dials_held (pxCfg ?px) = (\<lambda>_. 0)"
    by (simp_all add: dials_good_def dials_held_def zeroConfig_def fun_eq_iff)
  with routing_returns_reservations [of ?px sampleRoute ?hi "[1]" ?c] show ?thesis by simp
qed

text \<open>
  \<^verbatim>\<open>cfproxyFallback\<close> makes at most three attempts, failed dials and failed writes together;
  and a connection it bridges was dialled to the \<^verbatim>\<open>kws\<close> host of one of the candidate domains,
  has accepted the relay's bytes, and the session had not been cancelled.
\<close>

theorem cfproxy_attempts:
  assumes "dials_good (pxCfg px)"
  shows "case cfproxyLoop env dc domains 0 0 px of (r, px') \<Rightarrow>
     (wsErrors (pxStats px') + int (length (pxClosed px'))) - (wsErrors (pxStats px) + int (length (pxClosed px))) \<le> 3 \<and>
     (case r of Inl e \<Rightarrow> True
      | Inr (ws, d) \<Rightarrow> d \<in> set domains \<and>
          (\<exists>n. ceDial env n (kwsDomain dc d) = Inr ws \<and> \<not> ceDone env n \<and> ceWrite env n = None))"
  using cfproxyLoop_spec [OF assms, of 0 env dc domains 0]
  by (auto simp: cf_ok_def failures_def cfProxyMaxAttempts_def split: prod.splits sum.splits)

abbreviation sampleCFProxy :: proxy where
  "sampleCFProxy \<equiv> \<lparr>pxCfg = zeroConfig\<lparr>FallbackCFProxyDomains := [''a.uk'', ''b.uk'']\<rparr>, pxStats = zeroStats,
     pxPool = newWSPool, pxWorkers = newWorkerPool, pxTCP = Map.empty, pxClosed = []\<rparr>"

abbreviation sampleCFAnswers :: cfEnv where
  "sampleCFAnswers \<equiv> sampleCFEnv\<lparr>ceDial := \<lambda>n d. if n = 1 then Inr 9 else Inl io_EOF\<rparr>"

theorem cfproxy_attempts_witness:
  "case cfproxyLoop sampleCFAnswers 2 [''a.uk'', ''b.uk''] 0 0 sampleCFProxy of (r, px') \<Rightarrow>
     (wsErrors (pxStats px') + int (length (pxClosed px'))) - (wsErrors zeroStats + 0) \<le> 3 \<and>
     (case r of Inl e \<Rightarrow> True | Inr (ws, d) \<Rightarrow> d \<in> {''a.uk'', ''b.uk''})"
proof -
  have "dials_good (pxCfg sampleCFProxy)" by (simp add: dials_good_def zeroConfig_def)
  note spec = cfproxy_attempts [OF this, where env = sampleCFAnswers and dc = 2 and domains = "[''a.uk'', ''b.uk'']"]
  obtain r px' where loop: "cfproxyLoop sampleCFAnswers 2 [''a.uk'', ''b.uk''] 0 0 sampleCFProxy = (r, px')" by fastforce
  from spec show ?thesis unfolding loop by (cases r) auto
qed

end
