(* ===== verification/FakeTLSRecords.thy ===== *)
theory FakeTLSRecords
  imports GoNet
begin

text \<open>
  The record layer of Fake TLS: \<^verbatim>\<open>wrapFakeTLSRecords\<close> and \<^verbatim>\<open>fakeTLSConn\<close> of
  \<^verbatim>\<open>src/src/fake_tls.go\<close>, and the probe of a masking site's first encrypted record in
  \<^verbatim>\<open>src/src/fake_tls_profile.go\<close>. The abstract view of a connection is the list of
  payload bytes its records carry (\<open>tls_pending\<close>).
\<close>

subsection \<open>Constants\<close>

definition tlsRecordCCS :: byte where "tlsRecordCCS = 0x14"
definition tlsRecordHandshake :: byte where "tlsRecordHandshake = 0x16"
definition tlsRecordAppData :: byte where "tlsRecordAppData = 0x17"
definition tlsRecordMaxLen :: nat where "tlsRecordMaxLen = 16384"
definition fakeTLSCCSFrame :: bytes where "fakeTLSCCSFrame = [0x14, 0x03, 0x03, 0x00, 0x01, 0x01]"

lemmas tls_defs = tlsRecordCCS_def tlsRecordHandshake_def tlsRecordAppData_def

subsection \<open>Writing\<close>

function wrapFakeTLSRecords :: "bytes \<Rightarrow> bytes" where
  "wrapFakeTLSRecords data =
     (if data = [] then []
      else let chunk = (if length data > tlsRecordMaxLen then take tlsRecordMaxLen data else data)
           in [tlsRecordAppData, 0x03, 0x03] @ putBEUint16 (word_of_nat (length chunk)) @ chunk
              @ wrapFakeTLSRecords (drop (length chunk) data))"
  by pat_completeness auto
termination
  by (relation "measure length") (auto simp: tlsRecordMaxLen_def)

declare wrapFakeTLSRecords.simps [simp del]

record fakeTLSConn =
  raw :: netConn
  readBuf :: bytes

definition fakeTLS_Write :: "fakeTLSConn \<Rightarrow> bytes \<Rightarrow> (nat \<times> goerror option) \<times> fakeTLSConn" where
  "fakeTLS_Write c p =
     (if p = [] then ((0, None), c)
      else case conn_Write (raw c) (wrapFakeTLSRecords p) of
        (Some e, r) \<Rightarrow> ((0, Some e), c\<lparr>raw := r\<rparr>)
      | (None, r) \<Rightarrow> ((length p, None), c\<lparr>raw := r\<rparr>))"

subsection \<open>Reading\<close>

function readTLSPayload :: "netConn \<Rightarrow> (goerror + bytes) \<times> netConn" where
  "readTLSPayload c =
     (case io_ReadFull c 5 of
        (Inl e, c1) \<Rightarrow> (Inl e, c1)
      | (Inr hdr, c1) \<Rightarrow>
          (let recType = hdr ! 0; recLen = unat (beUint16 (hdr ! 3) (hdr ! 4)) in
           if recType = tlsRecordCCS then
             (if recLen > 0 then
                (case io_DiscardN c1 recLen of
                   (Some e, c2) \<Rightarrow> (Inl e, c2)
                 | (None, c2) \<Rightarrow> readTLSPayload c2)
              else readTLSPayload c1)
           else if recType \<noteq> tlsRecordAppData then (Inl io_EOF, c1)
           else if recLen = 0 then readTLSPayload c1
           else io_ReadFull c1 recLen))"
  by pat_completeness auto
termination
  by (relation "measure (\<lambda>c. length (inBytes c))")
    (auto dest!: sym [of _ "io_ReadFull _ _"] sym [of _ "io_DiscardN _ _"]
      io_ReadFull_decreases io_DiscardN_decreases)

declare readTLSPayload.simps [simp del]

text \<open>\<^verbatim>\<open>Read(p)\<close> for a buffer of \<open>n\<close> bytes: the bytes copied into it and the error.\<close>

definition fakeTLS_Read :: "fakeTLSConn \<Rightarrow> nat \<Rightarrow> (bytes \<times> goerror option) \<times> fakeTLSConn" where
  "fakeTLS_Read c n =
     (if n = 0 then (([], None), c)
      else if readBuf c \<noteq> [] then
        ((take n (readBuf c), None), c\<lparr>readBuf := drop n (readBuf c)\<rparr>)
      else case readTLSPayload (raw c) of
        (Inl e, r) \<Rightarrow> (([], Some e), c\<lparr>raw := r\<rparr>)
      | (Inr payload, r) \<Rightarrow>
          (if payload = [] then (([], Some io_EOF), c\<lparr>raw := r\<rparr>)
           else if length payload > n
             then ((take n payload, None), c\<lparr>raw := r, readBuf := drop n payload\<rparr>)
             else ((payload, None), c\<lparr>raw := r\<rparr>)))"

subsection \<open>The abstract stream\<close>

text \<open>
  The payload bytes a list of raw bytes carries: records are taken off the front, change
  cipher spec records are skipped, and anything else or an incomplete record ends the stream.
\<close>

function deframe :: "bytes \<Rightarrow> bytes" where
  "deframe (t # v1 # v2 # l1 # l2 # rest) =
     (let n = unat (beUint16 l1 l2) in
      if length rest < n then []
      else if t = tlsRecordCCS then deframe (drop n rest)
      else if t = tlsRecordAppData then take n rest @ deframe (drop n rest)
      else [])"
| "deframe [] = []"
| "deframe [a] = []"
| "deframe [a, b] = []"
| "deframe [a, b, c] = []"
| "deframe [a, b, c, d] = []"
  by pat_completeness auto
termination
  by (relation "measure length") auto

definition tls_pending :: "fakeTLSConn \<Rightarrow> bytes" where
  "tls_pending c = readBuf c @ deframe (inBytes (raw c))"

lemma take5: "5 \<le> length xs \<Longrightarrow> \<exists>t v1 v2 l1 l2 rest. xs = t # v1 # v2 # l1 # l2 # rest"
  by (auto simp: numeral_eq_Suc Suc_le_length_iff)

lemma io_ReadFull_5:
  "inBytes c = t # v1 # v2 # l1 # l2 # rest \<Longrightarrow>
   io_ReadFull c 5 = (Inr [t, v1, v2, l1, l2], c\<lparr>inBytes := rest\<rparr>)"
  by (simp add: io_ReadFull_def numeral_eq_Suc)

lemma deframe_short: "length xs < 5 \<Longrightarrow> deframe xs = []"
  by (cases xs rule: deframe.cases) auto

text \<open>One payload off the wire is one non-empty piece off the abstract stream.\<close>

text \<open>What \<^verbatim>\<open>readTLSPayload\<close> does with a connection that holds a complete record header.\<close>

lemma readTLSPayload_header:
  assumes "inBytes c = t # v1 # v2 # l1 # l2 # rest" and "n = unat (beUint16 l1 l2)"
  shows "readTLSPayload c =
    (if t = tlsRecordCCS then
       (if n \<le> length rest then readTLSPayload (c\<lparr>inBytes := drop n rest\<rparr>) else (Inl (inErr c), c\<lparr>inBytes := []\<rparr>))
     else if t = tlsRecordAppData \<and> n = 0 then readTLSPayload (c\<lparr>inBytes := rest\<rparr>)
     else if t = tlsRecordAppData then io_ReadFull (c\<lparr>inBytes := rest\<rparr>) n
     else (Inl io_EOF, c\<lparr>inBytes := rest\<rparr>))"
  using assms(2) by (subst readTLSPayload.simps) (auto simp: io_ReadFull_5 [OF assms(1)] io_DiscardN_def Let_def)

lemma readTLSPayload_deframe:
  "case readTLSPayload c of
     (Inr p, c') \<Rightarrow> p \<noteq> [] \<and> deframe (inBytes c) = p @ deframe (inBytes c')
   | (Inl e, c') \<Rightarrow> deframe (inBytes c) = []"
proof (induction "length (inBytes c)" arbitrary: c rule: less_induct)
  case less
  show ?case
  proof (cases "5 \<le> length (inBytes c)")
    case False
    then show ?thesis
      by (subst readTLSPayload.simps) (simp add: io_ReadFull_def deframe_short)
  next
    case True
    then obtain t v1 v2 l1 l2 rest where c: "inBytes c = t # v1 # v2 # l1 # l2 # rest"
      using take5 by blast
    let ?n = "unat (beUint16 l1 l2)"
    have "case readTLSPayload (c\<lparr>inBytes := drop k rest\<rparr>) of
        (Inr p, c') \<Rightarrow> p \<noteq> [] \<and> deframe (drop k rest) = p @ deframe (inBytes c')
      | (Inl e, c') \<Rightarrow> deframe (drop k rest) = []" for k
    proof -
      have "length (inBytes (c\<lparr>inBytes := drop k rest\<rparr>)) < length (inBytes c)" using c by simp
      from less [OF this] show ?thesis by (auto split: prod.splits sum.splits)
    qed
    from this [of ?n] this [of 0] show ?thesis
      by (auto simp: readTLSPayload_header [OF c refl] c io_ReadFull_def Let_def split: prod.splits sum.splits)
  qed
qed

lemma fakeTLS_Read_law:
  assumes "0 < n"
  shows "case fakeTLS_Read c n of
     ((bs, None), c') \<Rightarrow> bs \<noteq> [] \<and> length bs \<le> n \<and> tls_pending c = bs @ tls_pending c'
   | ((bs, Some e), c') \<Rightarrow> bs = [] \<and> tls_pending c = []"
proof (cases "readBuf c = []")
  case False
  with assms show ?thesis by (simp add: fakeTLS_Read_def tls_pending_def)
next
  case True
  with assms readTLSPayload_deframe [of "raw c"] show ?thesis
    by (auto simp: fakeTLS_Read_def tls_pending_def split: prod.splits sum.splits)
qed

lemma fakeTLS_Read_progress:
  "((bs, None), c') = fakeTLS_Read c n \<Longrightarrow> 0 < n \<Longrightarrow> 0 < length bs \<and> length bs \<le> n"
  using fakeTLS_Read_law [of n c] by (auto split: prod.splits option.splits)

text \<open>\<^verbatim>\<open>io.ReadFull\<close> over the record layer: the loop of \<^verbatim>\<open>io.ReadAtLeast\<close>.\<close>

function fakeTLS_ReadLoop :: "fakeTLSConn \<Rightarrow> nat \<Rightarrow> bytes \<Rightarrow> (goerror + bytes) \<times> fakeTLSConn" where
  "fakeTLS_ReadLoop c need got =
     (if need = 0 then (Inr got, c)
      else case fakeTLS_Read c need of
        ((bs, None), c') \<Rightarrow> fakeTLS_ReadLoop c' (need - length bs) (got @ bs)
      | ((bs, Some e), c') \<Rightarrow>
          (Inl (if got @ bs \<noteq> [] \<and> isEOF e then io_ErrUnexpectedEOF else e), c'))"
  by pat_completeness auto
termination
  by (relation "measure (\<lambda>(c, need, got). need)") (auto dest!: fakeTLS_Read_progress)

declare fakeTLS_ReadLoop.simps [simp del]

definition fakeTLS_ReadFull :: "fakeTLSConn \<Rightarrow> nat \<Rightarrow> (goerror + bytes) \<times> fakeTLSConn" where
  "fakeTLS_ReadFull c n = fakeTLS_ReadLoop c n []"

lemma fakeTLS_ReadLoop_law:
  "if need \<le> length (tls_pending c)
   then fst (fakeTLS_ReadLoop c need got) = Inr (got @ take need (tls_pending c)) \<and>
        tls_pending (snd (fakeTLS_ReadLoop c need got)) = drop need (tls_pending c)
   else isl (fst (fakeTLS_ReadLoop c need got))"
proof (induction c need got rule: fakeTLS_ReadLoop.induct)
  case (1 c need got)
  show ?case
  proof (cases "need = 0")
    case True
    then show ?thesis by (subst (1 2 3) fakeTLS_ReadLoop.simps) simp
  next
    case False
    obtain bs e c' where rd: "fakeTLS_Read c need = ((bs, e), c')" by (metis prod.exhaust)
    show ?thesis
    proof (cases e)
      case (Some err)
      with False rd fakeTLS_Read_law [of need c] show ?thesis
        by (subst (3) fakeTLS_ReadLoop.simps) (simp)
    next
      case None
      have law: "bs \<noteq> []" "length bs \<le> need" "tls_pending c = bs @ tls_pending c'"
        using fakeTLS_Read_law [of need c] False rd None by simp_all
      have step: "fakeTLS_ReadLoop c need got = fakeTLS_ReadLoop c' (need - length bs) (got @ bs)"
        using False rd None by (subst fakeTLS_ReadLoop.simps) simp
      have "if need - length bs \<le> length (tls_pending c')
        then fst (fakeTLS_ReadLoop c' (need - length bs) (got @ bs)) =
               Inr ((got @ bs) @ take (need - length bs) (tls_pending c')) \<and>
             tls_pending (snd (fakeTLS_ReadLoop c' (need - length bs) (got @ bs))) =
               drop (need - length bs) (tls_pending c')
        else isl (fst (fakeTLS_ReadLoop c' (need - length bs) (got @ bs)))"
        using "1.IH" [OF False rd [symmetric] refl None] by simp
      with law show ?thesis by (simp add: step split: if_splits)
    qed
  qed
qed

interpretation framed: full_reader fakeTLS_ReadFull tls_pending
proof unfold_locales
  fix n c
  show "n \<le> length (tls_pending c) \<Longrightarrow> fst (fakeTLS_ReadFull c n) = Inr (take n (tls_pending c))"
    using fakeTLS_ReadLoop_law [of n c "[]"] by (simp add: fakeTLS_ReadFull_def)
  show "n \<le> length (tls_pending c) \<Longrightarrow> tls_pending (snd (fakeTLS_ReadFull c n)) = drop n (tls_pending c)"
    using fakeTLS_ReadLoop_law [of n c "[]"] by (simp add: fakeTLS_ReadFull_def)
  show "length (tls_pending c) < n \<Longrightarrow> isl (fst (fakeTLS_ReadFull c n))"
    using fakeTLS_ReadLoop_law [of n c "[]"] by (simp add: fakeTLS_ReadFull_def)
qed

definition writeSide :: "netConn \<Rightarrow> bytes \<times> goerror option" where
  "writeSide c = (outBytes c, outErr c)"

text \<open>Reading leaves the other side of the connection alone: the bytes written and the error of the next write.\<close>

lemma io_ReadFull_out: "writeSide (snd (io_ReadFull c n)) = writeSide c"
  by (simp add: io_ReadFull_def writeSide_def)

lemma io_DiscardN_out: "writeSide (snd (io_DiscardN c n)) = writeSide c"
  by (simp add: io_DiscardN_def writeSide_def)

lemma readTLSPayload_out: "writeSide (snd (readTLSPayload c)) = writeSide c"
proof (induction c rule: readTLSPayload.induct)
  case (1 c)
  obtain r c1 where rd: "io_ReadFull c 5 = (r, c1)" by fastforce
  have o1: "writeSide c1 = writeSide c" using io_ReadFull_out [of c 5] rd by simp
  show ?case
  proof (cases r)
    case (Inl e)
    then show ?thesis by (subst readTLSPayload.simps) (simp add: rd o1)
  next
    case (Inr hdr)
    let ?n = "unat (beUint16 (hdr ! 3) (hdr ! 4))"
    note IH = "1.IH" [OF rd [unfolded Inr, symmetric] refl refl refl]
    obtain d c2 where dn: "io_DiscardN c1 ?n = (d, c2)" by fastforce
    have o2: "writeSide c2 = writeSide c1" using io_DiscardN_out [of c1 ?n] dn by simp
    show ?thesis
      using IH o1 o2 io_ReadFull_out [of c1 ?n]
      by (subst readTLSPayload.simps) (auto simp: rd Inr dn Let_def split: option.splits)
  qed
qed

lemma fakeTLS_Read_out: "writeSide (raw (snd (fakeTLS_Read c n))) = writeSide (raw c)"
  using readTLSPayload_out [of "raw c"] by (auto simp: fakeTLS_Read_def split: prod.splits sum.splits)

lemma fakeTLS_ReadLoop_out: "writeSide (raw (snd (fakeTLS_ReadLoop c need got))) = writeSide (raw c)"
proof (induction c need got rule: fakeTLS_ReadLoop.induct)
  case (1 c need got)
  then show ?case
    using fakeTLS_Read_out [of c need]
    by (subst fakeTLS_ReadLoop.simps) (auto split: prod.splits option.splits)
qed

lemma fakeTLS_ReadFull_out: "writeSide (raw (snd (fakeTLS_ReadFull c n))) = writeSide (raw c)"
  by (simp add: fakeTLS_ReadFull_def fakeTLS_ReadLoop_out)

subsection \<open>Framing and unframing\<close>

lemma tlsRecordMaxLen_bounds [simp]: "0 < tlsRecordMaxLen" "tlsRecordMaxLen < 65536"
  by (simp_all add: tlsRecordMaxLen_def)

lemma deframe_record:
  assumes "length chunk < 65536"
  shows "deframe ([tlsRecordAppData, v1, v2] @ putBEUint16 (word_of_nat (length chunk)) @ chunk @ rest) =
         chunk @ deframe rest"
  using assms by (simp add: putBEUint16_def unat_word_of_nat_small tls_defs)

lemma deframe_wrap: "deframe (wrapFakeTLSRecords data @ rest) = data @ deframe rest"
proof (induction data rule: wrapFakeTLSRecords.induct)
  case (1 data)
  show ?case
  proof (cases "data = []")
    case True
    then show ?thesis by (simp add: wrapFakeTLSRecords.simps)
  next
    case False
    let ?chunk = "if length data > tlsRecordMaxLen then take tlsRecordMaxLen data else data"
    have len: "length ?chunk < 65536" by (simp add: tlsRecordMaxLen_def)
    have split: "?chunk @ drop (length ?chunk) data = data" by simp
    have "wrapFakeTLSRecords data @ rest =
        [tlsRecordAppData, 0x03, 0x03] @ putBEUint16 (word_of_nat (length ?chunk)) @ ?chunk
        @ (wrapFakeTLSRecords (drop (length ?chunk) data) @ rest)"
      using False by (subst wrapFakeTLSRecords.simps) (simp add: Let_def)
    then have "deframe (wrapFakeTLSRecords data @ rest) =
        ?chunk @ deframe (wrapFakeTLSRecords (drop (length ?chunk) data) @ rest)"
      by (simp only: deframe_record [OF len])
    also have "\<dots> = ?chunk @ drop (length ?chunk) data @ deframe rest"
      using "1.IH" [OF False refl] by simp
    finally show ?thesis by (simp only: append.assoc [symmetric] split)
  qed
qed

lemma length_wrapFakeTLSRecords:
  "length (wrapFakeTLSRecords data) =
   length data + 5 * ((length data + tlsRecordMaxLen - 1) div tlsRecordMaxLen)"
proof (induction data rule: wrapFakeTLSRecords.induct)
  case (1 data)
  show ?case
  proof (cases "length data > tlsRecordMaxLen")
    case True
    then have "data \<noteq> []" by auto
    have "length data + tlsRecordMaxLen - 1 = (length data - tlsRecordMaxLen + tlsRecordMaxLen - 1) + tlsRecordMaxLen"
      using True by simp
    then have "(length data + tlsRecordMaxLen - 1) div tlsRecordMaxLen =
        Suc ((length data - tlsRecordMaxLen + tlsRecordMaxLen - 1) div tlsRecordMaxLen)"
      by (simp add: div_add_self2)
    with "1.IH" [OF \<open>data \<noteq> []\<close> refl] True \<open>data \<noteq> []\<close> show ?thesis
      by (subst wrapFakeTLSRecords.simps) (simp add: Let_def)
  next
    case False
    show ?thesis
    proof (cases "data = []")
      case True
      then show ?thesis by (simp add: wrapFakeTLSRecords.simps tlsRecordMaxLen_def)
    next
      case nonempty: False
      have "(length data + tlsRecordMaxLen - 1) div tlsRecordMaxLen = 1"
        using False nonempty by (intro div_nat_eqI) (auto simp: Suc_le_eq neq_Nil_conv)
      then show ?thesis
        using False nonempty
        by (subst wrapFakeTLSRecords.simps) (simp add: Let_def wrapFakeTLSRecords.simps [of "[]"])
    qed
  qed
qed

text \<open>A sequence of writes, and a sequence of reads with buffers of the given sizes that stops at
  the first error.\<close>

fun fakeTLS_Writes :: "fakeTLSConn \<Rightarrow> bytes list \<Rightarrow> fakeTLSConn" where
  "fakeTLS_Writes c [] = c"
| "fakeTLS_Writes c (p # ps) = fakeTLS_Writes (snd (fakeTLS_Write c p)) ps"

fun fakeTLS_Reads :: "fakeTLSConn \<Rightarrow> nat list \<Rightarrow> bytes list \<times> goerror option \<times> fakeTLSConn" where
  "fakeTLS_Reads c [] = ([], None, c)"
| "fakeTLS_Reads c (n # ns) =
     (case fakeTLS_Read c n of
        ((bs, Some e), c1) \<Rightarrow> ([bs], Some e, c1)
      | ((bs, None), c1) \<Rightarrow> (case fakeTLS_Reads c1 ns of (bss, e, c2) \<Rightarrow> (bs # bss, e, c2)))"

lemma fakeTLS_Write_out:
  "outErr (raw c) = None \<Longrightarrow>
   fakeTLS_Write c p =
     ((length p, None), c\<lparr>raw := (raw c)\<lparr>outBytes := outBytes (raw c) @ wrapFakeTLSRecords p\<rparr>\<rparr>)"
  by (cases p) (simp_all add: fakeTLS_Write_def conn_Write_def wrapFakeTLSRecords.simps [of "[]"])

lemma fakeTLS_Writes_out:
  "outErr (raw c) = None \<Longrightarrow>
   outBytes (raw (fakeTLS_Writes c ps)) = outBytes (raw c) @ concat (map wrapFakeTLSRecords ps)"
  by (induction ps arbitrary: c) (simp_all add: fakeTLS_Write_out)

lemma deframe_wraps: "deframe (concat (map wrapFakeTLSRecords ps)) = concat ps"
  by (induction ps) (simp_all add: deframe_wrap)

lemma fakeTLS_Reads_law:
  assumes "0 \<notin> set ns"
  shows "case fakeTLS_Reads c ns of
     (bss, None, c') \<Rightarrow> tls_pending c = concat bss @ tls_pending c'
   | (bss, Some e, c') \<Rightarrow> tls_pending c = concat bss"
  using assms
proof (induction ns arbitrary: c)
  case (Cons n ns)
  obtain bs e c1 where rd: "fakeTLS_Read c n = ((bs, e), c1)" by (metis prod.exhaust)
  show ?case
  proof (cases e)
    case None
    with fakeTLS_Read_law [of n c] rd Cons.prems have "tls_pending c = bs @ tls_pending c1" by simp
    with Cons.IH [of c1] Cons.prems rd None show ?thesis
      by (auto split: prod.splits option.splits)
  next
    case (Some err)
    with fakeTLS_Read_law [of n c] rd Cons.prems show ?thesis by simp
  qed
qed simp

subsection \<open>The probe of the masking site\<close>

text \<open>
  \<^verbatim>\<open>probeFakeTLSConn\<close>. What \<^verbatim>\<open>crypto/tls\<close> does until it is stopped is an argument: the
  client hello it writes, or the error the handshake ends with when that is not
  \<^verbatim>\<open>errFakeTLSProbeHelloSent\<close>.
\<close>

function probeRecords :: "netConn \<Rightarrow> (goerror + nat) \<times> netConn" where
  "probeRecords c =
     (case io_ReadFull c 5 of
        (Inl e, c1) \<Rightarrow> (Inl e, c1)
      | (Inr header, c1) \<Rightarrow>
          (let len = unat (beUint16 (header ! 3) (header ! 4)) in
           if header ! 1 \<noteq> 0x03 \<or> header ! 2 \<noteq> 0x03 \<or> len = 0 \<or> len > tlsRecordMaxLen + 256
           then (Inl (newError ''invalid profile TLS record''), c1)
           else if header ! 0 = tlsRecordAppData then (Inr len, c1)
           else if header ! 0 = tlsRecordHandshake \<or> header ! 0 = tlsRecordCCS then
             (case io_DiscardN c1 len of
                (Some e, c2) \<Rightarrow> (Inl e, c2)
              | (None, c2) \<Rightarrow> probeRecords c2)
           else (Inl (newError ''unexpected profile TLS record''), c1)))"
  by pat_completeness auto
termination
  by (relation "measure (\<lambda>c. length (inBytes c))")
    (auto dest!: sym [of _ "io_ReadFull _ _"] sym [of _ "io_DiscardN _ _"]
      io_ReadFull_decreases io_DiscardN_decreases)

declare probeRecords.simps [simp del]

definition probeFakeTLSConn ::
  "goerror option \<Rightarrow> (goerror option + bytes) \<Rightarrow> netConn \<Rightarrow> (goerror + nat) \<times> netConn" where
  "probeFakeTLSConn setDeadline hello conn =
     (case setDeadline of
        Some e \<Rightarrow> (Inl e, conn)
      | None \<Rightarrow>
          (case hello of
             Inl e \<Rightarrow> (Inl (newError ''send profile ClientHello''), conn)
           | Inr h \<Rightarrow> probeRecords (snd (conn_Write conn h))))"

lemma probeRecords_bounds:
  "fst (probeRecords c) = Inr len \<Longrightarrow> 0 < len \<and> len \<le> tlsRecordMaxLen + 256"
proof (induction c rule: probeRecords.induct)
  case (1 c)
  show ?case
    using "1.prems" "1.IH"
    by (subst (asm) probeRecords.simps) (auto simp: Let_def split: prod.splits sum.splits if_splits option.splits)
qed

text \<open>A flight of records, and the length the probe finds in it.\<close>

definition tls_record :: "byte \<Rightarrow> bytes \<Rightarrow> bytes" where
  "tls_record t body = [t, 0x03, 0x03] @ putBEUint16 (word_of_nat (length body)) @ body"

lemma tls_record_read:
  "inBytes c = tls_record t body @ rest \<Longrightarrow>
   io_ReadFull c 5 = (Inr ([t, 0x03, 0x03] @ putBEUint16 (word_of_nat (length body))),
                      c\<lparr>inBytes := body @ rest\<rparr>)"
  by (simp add: tls_record_def putBEUint16_def io_ReadFull_5)

lemma probeRecords_data:
  assumes "inBytes c = tls_record tlsRecordAppData body @ rest"
    and "body \<noteq> []" and "length body \<le> tlsRecordMaxLen + 256"
  shows "fst (probeRecords c) = Inr (length body)"
proof -
  have small: "length body < 65536" using assms(3) by (simp add: tlsRecordMaxLen_def)
  show ?thesis
    using assms(2,3) small
    by (subst probeRecords.simps)
      (simp add: tls_record_read [OF assms(1)] putBEUint16_def unat_word_of_nat_small Let_def)
qed

lemma probeRecords_skip:
  assumes "inBytes c = tls_record t body @ rest" and "t = tlsRecordHandshake \<or> t = tlsRecordCCS"
    and "body \<noteq> []" and "length body \<le> tlsRecordMaxLen + 256"
  shows "probeRecords c = probeRecords (c\<lparr>inBytes := rest\<rparr>)"
proof -
  have small: "length body < 65536" using assms(4) by (simp add: tlsRecordMaxLen_def)
  have "t \<noteq> tlsRecordAppData" using assms(2) by (auto simp: tls_defs)
  then show ?thesis
    using assms(2-4) small
    by (subst probeRecords.simps)
      (simp add: tls_record_read [OF assms(1)] putBEUint16_def unat_word_of_nat_small Let_def io_DiscardN_def)
qed

fun tls_flight :: "(byte \<times> bytes) list \<Rightarrow> bytes" where
  "tls_flight [] = []"
| "tls_flight ((t, body) # recs) = tls_record t body @ tls_flight recs"

definition tls_skippable :: "byte \<times> bytes \<Rightarrow> bool" where
  "tls_skippable r = (case r of (t, body) \<Rightarrow>
     (t = tlsRecordHandshake \<or> t = tlsRecordCCS) \<and> body \<noteq> [] \<and> length body \<le> tlsRecordMaxLen + 256)"

lemma probeRecords_flight:
  assumes "list_all tls_skippable recs" and "body \<noteq> []" and "length body \<le> tlsRecordMaxLen + 256"
    and "inBytes c = tls_flight recs @ tls_record tlsRecordAppData body @ rest"
  shows "fst (probeRecords c) = Inr (length body)"
  using assms
proof (induction recs arbitrary: c)
  case Nil
  then show ?case using probeRecords_data by simp
next
  case (Cons r recs)
  obtain t b where r: "r = (t, b)" by fastforce
  have "probeRecords c = probeRecords (c\<lparr>inBytes := tls_flight recs @ tls_record tlsRecordAppData body @ rest\<rparr>)"
    using Cons.prems by (intro probeRecords_skip [of c t b]) (auto simp: r tls_skippable_def)
  then show ?case using Cons.IH Cons.prems by simp
qed

lemma deframe_CCS: "deframe (concat (replicate k fakeTLSCCSFrame) @ rest) = deframe rest"
  by (induction k) (simp_all add: fakeTLSCCSFrame_def tls_defs beUint16_def)

lemma wrap_within_capacity:
  "length (wrapFakeTLSRecords data) \<le> length data + (length data div tlsRecordMaxLen + 1) * 5"
proof -
  have "(length data + tlsRecordMaxLen - 1) div tlsRecordMaxLen \<le> (length data + tlsRecordMaxLen) div tlsRecordMaxLen"
    by (intro div_le_mono) simp
  moreover have "(length data + tlsRecordMaxLen) div tlsRecordMaxLen = length data div tlsRecordMaxLen + 1"
    by (simp add: div_add_self2)
  ultimately have "(length data + tlsRecordMaxLen - 1) div tlsRecordMaxLen \<le> length data div tlsRecordMaxLen + 1"
    by (simp only:)
  from mult_le_mono2 [OF this, of 5] show ?thesis
    unfolding length_wrapFakeTLSRecords by (simp only: mult.commute [of _ 5] nat_add_left_cancel_le)
qed

subsection \<open>Properties\<close>

text \<open>
  C23. Every write through \<^verbatim>\<open>fakeTLSConn\<close> arrives: the bytes written by one side, in any
  number of writes of any sizes, are the bytes \<^verbatim>\<open>io.ReadFull\<close> returns on the other side, in
  order, whatever the record boundaries, even behind any number of change cipher spec
  records; what was not asked for stays available.
\<close>

theorem fakeTLS_write_read:
  assumes "outErr (raw w) = None" and "outBytes (raw w) = []" and "readBuf r = []"
    and "inBytes (raw r) = concat (replicate k fakeTLSCCSFrame) @ outBytes (raw (fakeTLS_Writes w ps))"
    and "n \<le> length (concat ps)"
  shows "fst (fakeTLS_ReadFull r n) = Inr (take n (concat ps)) \<and>
         tls_pending (snd (fakeTLS_ReadFull r n)) = drop n (concat ps)"
proof -
  have "tls_pending r = concat ps"
    using assms(1-4) by (simp add: tls_pending_def deframe_CCS fakeTLS_Writes_out deframe_wraps)
  with assms(5) framed.read_ok [of n r] framed.read_rest [of n r] show ?thesis by simp
qed

text \<open>
  C24. \<^verbatim>\<open>fakeTLSConn.Read\<close> refines a byte stream: reads with non-empty buffers of any sizes
  return, one after the other, exactly the payload bytes of the records on the wire, with
  nothing lost, repeated or reordered between a record and the read buffer; and when a read
  reports an error, every payload byte in front of it has been delivered.
\<close>

theorem fakeTLS_Read_refines_stream:
  assumes "0 \<notin> set ns"
  shows "case fakeTLS_Reads c ns of
     (bss, None, c') \<Rightarrow> tls_pending c = concat bss @ tls_pending c'
   | (bss, Some e, c') \<Rightarrow> tls_pending c = concat bss"
  by (rule fakeTLS_Reads_law [OF assms])

text \<open>
  \<^verbatim>\<open>wrapFakeTLSRecords\<close> adds exactly one five-byte header per started 16 KiB, so its
  output fits the capacity it allocates.
\<close>

theorem wrapFakeTLSRecords_length:
  "length (wrapFakeTLSRecords data) =
     length data + 5 * ((length data + tlsRecordMaxLen - 1) div tlsRecordMaxLen) \<and>
   length (wrapFakeTLSRecords data) \<le> length data + (length data div tlsRecordMaxLen + 1) * 5"
  by (rule conjI [OF length_wrapFakeTLSRecords wrap_within_capacity])

text \<open>
  The probe of a masking site skips the handshake and change cipher spec records of the
  server's flight and returns the length of the first application data record.
\<close>

theorem probeFakeTLSConn_flight:
  assumes "list_all tls_skippable recs" and "body \<noteq> []" and "length body \<le> tlsRecordMaxLen + 256"
    and "inBytes c = tls_flight recs @ tls_record tlsRecordAppData body @ rest"
  shows "fst (probeFakeTLSConn None (Inr hello) c) = Inr (length body)"
proof -
  have "inBytes (snd (conn_Write c hello)) = inBytes c" by (simp add: conn_Write_def split: option.splits)
  with assms probeRecords_flight show ?thesis by (simp add: probeFakeTLSConn_def)
qed

subsection \<open>Witnesses\<close>

abbreviation sample_conn :: "bytes \<Rightarrow> netConn" where
  "sample_conn bs \<equiv> \<lparr>inBytes = bs, inErr = io_EOF, outBytes = [], outErr = None\<rparr>"

theorem fakeTLS_write_read_witness:
  "fst (fakeTLS_ReadFull
      \<lparr>raw = sample_conn (fakeTLSCCSFrame @ outBytes (raw (fakeTLS_Writes \<lparr>raw = sample_conn [], readBuf = []\<rparr>
          [[1, 2, 3], [], [4]]))), readBuf = []\<rparr> 4) = Inr [1, 2, 3, 4]"
  using fakeTLS_write_read [of "\<lparr>raw = sample_conn [], readBuf = []\<rparr>"
      "\<lparr>raw = sample_conn (fakeTLSCCSFrame @ outBytes (raw (fakeTLS_Writes \<lparr>raw = sample_conn [], readBuf = []\<rparr>
          [[1, 2, 3], [], [4]]))), readBuf = []\<rparr>" 1 "[[1, 2, 3], [], [4]]" 4]
  by simp

theorem fakeTLS_Read_refines_stream_witness:
  "case fakeTLS_Reads \<lparr>raw = sample_conn [0x17, 3, 3, 0, 3, 7, 8, 9], readBuf = [5, 6]\<rparr> [4, 1, 2, 9] of
     (bss, None, c') \<Rightarrow> [5, 6, 7, 8, 9] = concat bss @ tls_pending c'
   | (bss, Some e, c') \<Rightarrow> [5, 6, 7, 8, 9] = concat bss"
proof -
  have "tls_pending \<lparr>raw = sample_conn [0x17, 3, 3, 0, 3, 7, 8, 9], readBuf = [5, 6]\<rparr> = [5, 6, 7, 8, 9]"
    by (simp add: tls_pending_def tls_defs beUint16_def)
  then show ?thesis
    using fakeTLS_Read_refines_stream [of "[4, 1, 2, 9]"
        "\<lparr>raw = sample_conn [0x17, 3, 3, 0, 3, 7, 8, 9], readBuf = [5, 6]\<rparr>"]
    by (auto simp del: fakeTLS_Reads.simps split: prod.splits option.splits)
qed

theorem probeFakeTLSConn_flight_witness:
  "fst (probeFakeTLSConn None (Inr [1]) (sample_conn
      (tls_flight [(tlsRecordHandshake, [2, 0]), (tlsRecordCCS, [1])] @ tls_record tlsRecordAppData [7, 7, 7]))) = Inr 3"
  using probeFakeTLSConn_flight [of "[(tlsRecordHandshake, [2, 0]), (tlsRecordCCS, [1])]" "[7, 7, 7]"
      "sample_conn (tls_flight [(tlsRecordHandshake, [2, 0]), (tlsRecordCCS, [1])] @ tls_record tlsRecordAppData [7, 7, 7])"
      "[]" "[1]"]
  by (simp add: tls_skippable_def tlsRecordMaxLen_def)

end
