(* ===== verification/FakeTLSHello.thy ===== *)
theory FakeTLSHello
  imports FakeTLSRecords Handshake GoStrings
begin

text \<open>
  The Fake TLS handshake of \<^verbatim>\<open>src/src/fake_tls.go\<close>: the authentication of a client hello, the
  parser of the fields the answer depends on, the server's flight, the hand-over to the
  masking site, and \<^verbatim>\<open>acceptFakeTLSClient\<close>, which composes them. Slices of what the client
  sent are taken in the option monad, whose \<^term>\<open>None\<close> is a run-time panic.
\<close>

definition tlsClientRandomOffset :: nat where "tlsClientRandomOffset = 11"
definition tlsClientRandomLen :: nat where "tlsClientRandomLen = 32"
definition tlsSessionIDOffset :: nat where "tlsSessionIDOffset = 44"
definition tlsSessionIDLen :: nat where "tlsSessionIDLen = 32"
definition tlsTimestampTolerance :: int where "tlsTimestampTolerance = 120"
definition tlsGroupX25519 :: "16 word" where "tlsGroupX25519 = 0x001d"
definition tlsGroupX25519MLKEM768 :: "16 word" where "tlsGroupX25519MLKEM768 = 0x11ec"

lemmas hello_layout = tlsClientRandomOffset_def tlsClientRandomLen_def tlsSessionIDOffset_def tlsSessionIDLen_def

subsection \<open>Authentication of the client hello\<close>

definition hmacSHA256 :: "bytes \<Rightarrow> bytes \<Rightarrow> bytes" where
  "hmacSHA256 key data = hmac_Sum key data"

text \<open>
  \<open>now\<close> is \<^verbatim>\<open>time.Now().Unix()\<close>. The inner \<^term>\<open>None\<close> is the refusal
  \<^verbatim>\<open>return nil, nil, false\<close>.
\<close>

definition verifyFakeTLSClientHello :: "int \<Rightarrow> bytes \<Rightarrow> bytes \<Rightarrow> (bytes \<times> bytes) option option" where
  "verifyFakeTLSClientHello now data secret =
     (if length data < 43 then Some None
      else do {
        d0 \<leftarrow> go_index 0 data;
        d5 \<leftarrow> go_index 5 data;
        if d0 \<noteq> tlsRecordHandshake \<or> d5 \<noteq> 0x01 then Some None
        else do {
          hello \<leftarrow> go_slice tlsClientRandomOffset (tlsClientRandomOffset + tlsClientRandomLen) data;
          let clientRandom = go_copy (replicate tlsClientRandomLen 0) hello;
          let zeroed = overwrite tlsClientRandomOffset (replicate tlsClientRandomLen 0)
                         (go_copy (replicate (length data) 0) data);
          let expected = hmacSHA256 secret zeroed;
          e28 \<leftarrow> go_slice 0 28 expected;
          c28 \<leftarrow> go_slice 0 28 clientRandom;
          if e28 \<noteq> c28 then Some None
          else do {
            cts \<leftarrow> go_slice 28 32 clientRandom;
            ets \<leftarrow> go_slice 28 32 expected;
            let tsXor = xorBytes cts ets;
            let timestamp = uint (leUint32 (tsXor ! 0) (tsXor ! 1) (tsXor ! 2) (tsXor ! 3));
            if now - timestamp > tlsTimestampTolerance \<or> timestamp - now > tlsTimestampTolerance
            then Some None
            else if length data \<ge> tlsSessionIDOffset + tlsSessionIDLen then do {
              d43 \<leftarrow> go_index 43 data;
              if d43 = 0x20 then do {
                sid \<leftarrow> go_slice tlsSessionIDOffset (tlsSessionIDOffset + tlsSessionIDLen) data;
                Some (Some (clientRandom, go_copy (replicate tlsSessionIDLen 0) sid))
              }
              else Some (Some (clientRandom, replicate tlsSessionIDLen 0))
            }
            else Some (Some (clientRandom, replicate tlsSessionIDLen 0))
          }
        }
      })"

subsection \<open>The parser\<close>

record fakeTLSClientHelloInfo =
  cipherSuites :: "16 word list"
  keyShares :: "16 word \<rightharpoonup> nat"

definition emptyHelloInfo :: fakeTLSClientHelloInfo where
  "emptyHelloInfo = \<lparr>cipherSuites = [], keyShares = Map.empty\<rparr>"

text \<open>\<^verbatim>\<open>binary.BigEndian.Uint16(b[i:i+2])\<close>.\<close>

definition go_be16 :: "nat \<Rightarrow> bytes \<Rightarrow> 16 word option" where
  "go_be16 i b = do { s \<leftarrow> go_slice i (i + 2) b; Some (beUint16 (s ! 0) (s ! 1)) }"

text \<open>The loop over the cipher suites, from offset \<open>off\<close> on.\<close>

function parseSuites :: "bytes \<Rightarrow> nat \<Rightarrow> nat \<Rightarrow> 16 word list option" where
  "parseSuites data off suitesLen =
     (if off < suitesLen then do {
        s \<leftarrow> go_be16 off data;
        ss \<leftarrow> parseSuites data (off + 2) suitesLen;
        Some (s # ss)
      }
      else Some [])"
  by pat_completeness auto
termination by (relation "measure (\<lambda>(data, off, n). n - off)") auto

text \<open>
  The loop over the key shares of one extension. \<open>Some None\<close> is \<^verbatim>\<open>return empty\<close>; the first
  share of a group wins.
\<close>

function parseShares :: "bytes \<Rightarrow> (16 word \<rightharpoonup> nat) \<Rightarrow> (16 word \<rightharpoonup> nat) option option" where
  "parseShares shares m =
     (if shares = [] then Some (Some m)
      else if length shares < 4 then Some None
      else do {
        grp \<leftarrow> go_be16 0 shares;
        kl \<leftarrow> go_be16 2 shares;
        shares1 \<leftarrow> go_slice 4 (length shares) shares;
        if unat kl > length shares1 then Some None
        else do {
          let m1 = (if m grp = None then m(grp \<mapsto> unat kl) else m);
          shares2 \<leftarrow> go_slice (unat kl) (length shares1) shares1;
          parseShares shares2 m1
        }
      })"
  by pat_completeness auto
termination
  by (relation "measure (\<lambda>(shares, m). length shares)") (auto simp: go_slice_eq_Some slice_def)

text \<open>The loop over the extensions.\<close>

function parseExtensions :: "bytes \<Rightarrow> fakeTLSClientHelloInfo \<Rightarrow> fakeTLSClientHelloInfo option" where
  "parseExtensions data info =
     (if data = [] then Some info
      else if length data < 4 then Some emptyHelloInfo
      else do {
        extType \<leftarrow> go_be16 0 data;
        extLen \<leftarrow> go_be16 2 data;
        data1 \<leftarrow> go_slice 4 (length data) data;
        if unat extLen > length data1 then Some emptyHelloInfo
        else do {
          ext \<leftarrow> go_slice 0 (unat extLen) data1;
          data2 \<leftarrow> go_slice (unat extLen) (length data1) data1;
          if extType \<noteq> 0x0033 then parseExtensions data2 info
          else if length ext < 2 then Some emptyHelloInfo
          else do {
            l \<leftarrow> go_be16 0 ext;
            if unat l \<noteq> length ext - 2 then Some emptyHelloInfo
            else do {
              shares \<leftarrow> go_slice 2 (length ext) ext;
              r \<leftarrow> parseShares shares (keyShares info);
              case r of
                None \<Rightarrow> Some emptyHelloInfo
              | Some m \<Rightarrow> parseExtensions data2 (info\<lparr>keyShares := m\<rparr>)
            }
          }
        }
      })"
  by pat_completeness auto
termination
  by (relation "measure (\<lambda>(data, info). length data)") (auto simp: go_slice_eq_Some slice_def)

declare parseSuites.simps [simp del] parseShares.simps [simp del] parseExtensions.simps [simp del]

text \<open>
  \<^verbatim>\<open>parseFakeTLSClientHello\<close>, in the order of its stages: the headers and the session id, the
  cipher suites, the compression methods and the extensions.
\<close>

definition parseHelloAfterSuites :: "16 word list \<Rightarrow> bytes \<Rightarrow> fakeTLSClientHelloInfo option" where
  "parseHelloAfterSuites suites data = do {
     c \<leftarrow> go_index 0 data;
     let compressionLen = unat c;
     if compressionLen = 0 \<or> 1 + compressionLen + 2 > length data then Some emptyHelloInfo
     else do {
       data1 \<leftarrow> go_slice (1 + compressionLen) (length data) data;
       el \<leftarrow> go_be16 0 data1;
       if unat el \<noteq> length data1 - 2 then Some emptyHelloInfo
       else do {
         data2 \<leftarrow> go_slice 2 (length data1) data1;
         parseExtensions data2 \<lparr>cipherSuites = suites, keyShares = Map.empty\<rparr>
       }
     }
   }"

definition parseHelloTail :: "bytes \<Rightarrow> fakeTLSClientHelloInfo option" where
  "parseHelloTail data = do {
     sl \<leftarrow> go_be16 0 data;
     let suitesLen = unat sl;
     data1 \<leftarrow> go_slice 2 (length data) data;
     if suitesLen = 0 \<or> suitesLen mod 2 \<noteq> 0 \<or> suitesLen \<ge> length data1 then Some emptyHelloInfo
     else do {
       suites \<leftarrow> parseSuites data1 0 suitesLen;
       data2 \<leftarrow> go_slice suitesLen (length data1) data1;
       parseHelloAfterSuites suites data2
     }
   }"

definition parseFakeTLSClientHello :: "bytes \<Rightarrow> fakeTLSClientHelloInfo option" where
  "parseFakeTLSClientHello data =
     (if length data < 44 then Some emptyHelloInfo
      else do {
        d0 \<leftarrow> go_index 0 data;
        d5 \<leftarrow> go_index 5 data;
        recLen \<leftarrow> go_be16 3 data;
        d6 \<leftarrow> go_index 6 data;
        d7 \<leftarrow> go_index 7 data;
        d8 \<leftarrow> go_index 8 data;
        if d0 \<noteq> tlsRecordHandshake \<or> d5 \<noteq> 0x01 \<or> unat recLen \<noteq> length data - 5 \<or>
           push_bit 16 (unat d6) OR push_bit 8 (unat d7) OR unat d8 \<noteq> length data - 9
        then Some emptyHelloInfo
        else do {
          d43 \<leftarrow> go_index 43 data;
          let sessionLen = unat d43;
          if sessionLen > 32 \<or> 44 + sessionLen + 2 > length data then Some emptyHelloInfo
          else do {
            rest \<leftarrow> go_slice (44 + sessionLen) (length data) data;
            parseHelloTail rest
          }
        }
      })"

subsection \<open>The server's flight\<close>

text \<open>
  Randomness is an argument: \<open>randInt w\<close> is \<^verbatim>\<open>rand.Int(rand.Reader, w)\<close>, and a
  \<open>helloRandom\<close> holds the ephemeral public key and the bytes \<^verbatim>\<open>rand.Read\<close> fills a buffer of
  a given size with.
\<close>

definition randomIntInRange :: "(int \<Rightarrow> goerror + int) \<Rightarrow> int \<Rightarrow> int \<Rightarrow> goerror + int" where
  "randomIntInRange randInt minVal maxVal =
     (if maxVal < minVal then Inl (newError ''invalid range'')
      else case randInt (maxVal - minVal + 1) of
        Inl e \<Rightarrow> Inl e
      | Inr n \<Rightarrow> Inr (minVal + n))"

record helloRandom =
  publicKey :: "goerror + bytes"
  ciphertextRead :: "nat \<Rightarrow> goerror + bytes"
  encDataRead :: "nat \<Rightarrow> goerror + bytes"
  randInt :: "int \<Rightarrow> goerror + int"

definition selectCipher :: "16 word list \<Rightarrow> 16 word" where
  "selectCipher offered =
     (case find (\<lambda>preferred. list_ex (\<lambda>o'. o' = preferred) offered) [0x1301, 0x1303, 0x1302] of
        Some p \<Rightarrow> p | None \<Rightarrow> 0x1301)"

definition selectKeyShare ::
  "helloRandom \<Rightarrow> fakeTLSClientHelloInfo \<Rightarrow> goerror + (16 word \<times> bytes)" where
  "selectKeyShare rnd info =
     (case publicKey rnd of
        Inl e \<Rightarrow> Inl e
      | Inr pub \<Rightarrow>
          (if keyShares info tlsGroupX25519MLKEM768 = Some 1216 then
             (case ciphertextRead rnd 1088 of
                Inl e \<Rightarrow> Inl e
              | Inr ciphertext \<Rightarrow> Inr (tlsGroupX25519MLKEM768, ciphertext @ pub))
           else Inr (tlsGroupX25519, pub)))"

definition serverHelloRecord :: "bytes \<Rightarrow> 16 word \<Rightarrow> 16 word \<Rightarrow> bytes \<Rightarrow> bytes" where
  "serverHelloRecord sessionID cipherSuite grp keyShare =
     (let sh0 = (replicate 44 0)[0 := tlsRecordHandshake, 1 := 0x03, 2 := 0x03, 5 := 0x02,
                                 9 := 0x03, 10 := 0x03, 43 := word_of_nat (length sessionID)];
          sh = sh0 @ sessionID @ putBEUint16 cipherSuite @ [0x00]
               @ putBEUint16 (word_of_nat (14 + length keyShare))
               @ [0x00, 0x2b, 0x00, 0x02, 0x03, 0x04, 0x00, 0x33]
               @ putBEUint16 (word_of_nat (4 + length keyShare))
               @ putBEUint16 grp
               @ putBEUint16 (word_of_nat (length keyShare))
               @ keyShare;
          sh1 = overwrite 3 (putBEUint16 (word_of_nat (length sh - 5))) sh
      in overwrite 7 (putBEUint16 (word_of_nat (length sh - 9))) sh1)"

definition encSizeFor :: "helloRandom \<Rightarrow> int \<Rightarrow> goerror + int" where
  "encSizeFor rnd appDataLen =
     (if appDataLen \<le> 0 then randomIntInRange (randInt rnd) 64 160
      else Inr (max 64 (min appDataLen (int tlsRecordMaxLen))))"

definition appDataRecord :: "bytes \<Rightarrow> bytes" where
  "appDataRecord encData =
     [tlsRecordAppData, 0x03, 0x03] @ putBEUint16 (word_of_nat (length encData)) @ encData"

definition buildFakeTLSServerHello ::
  "helloRandom \<Rightarrow> bytes \<Rightarrow> bytes \<Rightarrow> bytes \<Rightarrow> fakeTLSClientHelloInfo \<Rightarrow> int \<Rightarrow> goerror + bytes" where
  "buildFakeTLSServerHello rnd secret clientRandom sessionID info appDataLen =
     (case selectKeyShare rnd info of
        Inl e \<Rightarrow> Inl e
      | Inr (grp, keyShare) \<Rightarrow>
          (let sh = serverHelloRecord sessionID (selectCipher (cipherSuites info)) grp keyShare in
           case encSizeFor rnd appDataLen of
             Inl e \<Rightarrow> Inl e
           | Inr encSize \<Rightarrow>
               (case encDataRead rnd (nat encSize) of
                  Inl e \<Rightarrow> Inl e
                | Inr encData \<Rightarrow>
                    (let response = sh @ fakeTLSCCSFrame @ appDataRecord encData;
                         serverRandom = hmacSHA256 secret (clientRandom @ response)
                     in Inr (overwrite 11 serverRandom response)))))"

subsection \<open>Redirect, masking and the connect link\<close>

definition crlf :: string where "crlf = [CHR 0x0D, CHR 0x0A]"

definition writeFakeTLSRedirect :: "netConn \<Rightarrow> string \<Rightarrow> goerror option \<times> netConn" where
  "writeFakeTLSRedirect client domain =
     conn_Write client (string_bytes
       (''HTTP/1.1 301 Moved Permanently'' @ crlf @ ''Location: https://'' @ domain @ ''/'' @ crlf
        @ ''Content-Length: 0'' @ crlf @ ''Connection: close'' @ crlf @ crlf))"

definition fakeTLSConnectLink :: "string \<Rightarrow> int \<Rightarrow> string \<Rightarrow> string \<Rightarrow> string" where
  "fakeTLSConnectLink host port secretHex domain =
     ''tg://proxy?server='' @ host @ ''&port='' @ strconv_Itoa port @ ''&secret=ee'' @ secretHex
     @ hex_EncodeToString (string_bytes domain)"

text \<open>
  One direction of the masking relay: the first \<open>k\<close> bytes of what \<open>src\<close> still delivers are
  copied to \<open>dst\<close>. Which of the two copies ends first, and so where each stops, is the
  network's choice: \<open>up\<close> and \<open>down\<close> are arguments.
\<close>

definition copySome :: "nat \<Rightarrow> netConn \<Rightarrow> netConn \<Rightarrow> netConn \<times> netConn" where
  "copySome k dst src =
     (snd (conn_Write dst (take k (inBytes src))), src\<lparr>inBytes := drop k (inBytes src)\<rparr>)"

definition proxyToMaskingDomain ::
  "(goerror + netConn) \<Rightarrow> nat \<Rightarrow> nat \<Rightarrow> netConn \<Rightarrow> bytes \<Rightarrow> netConn \<times> netConn option" where
  "proxyToMaskingDomain dial up down client initial =
     (case dial of
        Inl e \<Rightarrow> (client, None)
      | Inr upstream \<Rightarrow>
          (case (if initial \<noteq> [] then conn_Write upstream initial else (None, upstream)) of
             (Some e, upstream1) \<Rightarrow> (client, Some upstream1)
           | (None, upstream1) \<Rightarrow>
               (let (upstream2, client1) = copySome up upstream1 client;
                    (client2, upstream3) = copySome down client1 upstream2
                in (client2, Some upstream3))))"

subsection \<open>Accepting a client\<close>

record acceptEnv =
  nowUnix :: int
  rnd :: helloRandom
  dialMasking :: "goerror + netConn"
  copyUp :: nat
  copyDown :: nat
  ctxDone :: bool

text \<open>The 64-byte handshake and the wrapped connection, the client's socket, and the masking site's.\<close>

type_synonym acceptResult = "(fakeTLSConn \<times> bytes) option \<times> netConn \<times> netConn option"

text \<open>From the verified client hello on, and from the complete client hello on.\<close>

definition answerFakeTLSClient ::
  "acceptEnv \<Rightarrow> netConn \<Rightarrow> bytes \<Rightarrow> int \<Rightarrow> bytes \<Rightarrow> bytes \<Rightarrow> bytes \<Rightarrow> acceptResult option" where
  "answerFakeTLSClient env client secret appDataLen clientHello clientRandom sessionID = do {
     info \<leftarrow> parseFakeTLSClientHello clientHello;
     case buildFakeTLSServerHello (rnd env) secret clientRandom sessionID info appDataLen of
       Inl e \<Rightarrow> Some (None, client, None)
     | Inr serverHello \<Rightarrow>
         (case randomIntInRange (randInt (rnd env)) 8000 24000 of
            Inl e \<Rightarrow> Some (None, client, None)
          | Inr delay \<Rightarrow>
              (if ctxDone env then Some (None, client, None)
               else case conn_Write client serverHello of
                 (Some e, client1) \<Rightarrow> Some (None, client1, None)
               | (None, client1) \<Rightarrow>
                   (case fakeTLS_ReadFull \<lparr>raw = client1, readBuf = []\<rparr> handshakeLen of
                      (Inl e, wrapped) \<Rightarrow> Some (None, raw wrapped, None)
                    | (Inr hs, wrapped) \<Rightarrow> Some (Some (wrapped, hs), raw wrapped, None))))
   }"

definition judgeFakeTLSClient :: "acceptEnv \<Rightarrow> netConn \<Rightarrow> bytes \<Rightarrow> int \<Rightarrow> bytes \<Rightarrow> acceptResult option" where
  "judgeFakeTLSClient env client secret appDataLen clientHello = do {
     v \<leftarrow> verifyFakeTLSClientHello (nowUnix env) clientHello secret;
     case v of
       None \<Rightarrow>
         (let (client1, site) =
            proxyToMaskingDomain (dialMasking env) (copyUp env) (copyDown env) client clientHello
          in Some (None, client1, site))
     | Some (clientRandom, sessionID) \<Rightarrow>
         answerFakeTLSClient env client secret appDataLen clientHello clientRandom sessionID
   }"

definition acceptFakeTLSClient ::
  "acceptEnv \<Rightarrow> netConn \<Rightarrow> bytes \<Rightarrow> string \<Rightarrow> int \<Rightarrow> acceptResult option" where
  "acceptFakeTLSClient env client secret maskingDomain appDataLen =
     (case io_ReadFull client 1 of
        (Inl e, client1) \<Rightarrow> Some (None, client1, None)
      | (Inr first, client1) \<Rightarrow>
          (if first ! 0 \<noteq> tlsRecordHandshake
           then Some (None, snd (writeFakeTLSRedirect client1 maskingDomain), None)
           else case io_ReadFull client1 4 of
             (Inl e, client2) \<Rightarrow> Some (None, client2, None)
           | (Inr hdr, client2) \<Rightarrow>
               (let tlsHeader = first @ hdr; recordLen = unat (beUint16 (tlsHeader ! 3) (tlsHeader ! 4)) in
                if recordLen \<le> 0 \<or> recordLen > 64 * 1024 then Some (None, client2, None)
                else case io_ReadFull client2 recordLen of
                  (Inl e, client3) \<Rightarrow> Some (None, client3, None)
                | (Inr recordBody, client3) \<Rightarrow>
                    judgeFakeTLSClient env client3 secret appDataLen (tlsHeader @ recordBody))))"

subsection \<open>No input makes the parser panic\<close>

lemma go_be16_Some [simp]: "i + 2 \<le> length b \<Longrightarrow> go_be16 i b = Some (beUint16 (b ! i) (b ! (i + 1)))"
  by (simp add: go_be16_def slice_def)

lemma go_index_0 [simp]: "b \<noteq> [] \<Longrightarrow> go_index 0 b = Some (b ! 0)"
  by (cases b) simp_all

lemma parseSuites_total:
  "even off \<Longrightarrow> even n \<Longrightarrow> n \<le> length data \<Longrightarrow> \<exists>ss. parseSuites data off n = Some ss"
proof (induction data off n rule: parseSuites.induct)
  case (1 data off n)
  show ?case
  proof (cases "off < n")
    case True
    with "1.prems" have "off + 2 \<le> length data" by presburger
    with True "1.IH" [OF True _ ] "1.prems" show ?thesis
      by (subst parseSuites.simps) auto
  qed (simp add: parseSuites.simps)
qed

lemma parseShares_total: "\<exists>r. parseShares shares m = Some r"
proof (induction shares m rule: parseShares.induct)
  case (1 shares m)
  then show ?case
    by (subst parseShares.simps) (auto simp: Let_def slice_def split: if_splits)
qed

lemma parseExtensions_total: "\<exists>r. parseExtensions data info = Some r"
proof (induction data info rule: parseExtensions.induct)
  case (1 data info)
  show ?case
  proof (cases "length data < 4")
    case True
    then show ?thesis by (subst parseExtensions.simps) auto
  next
    case False
    define ext where "ext = slice 0 (unat (beUint16 (data ! 2) (data ! 3))) (slice 4 (length data) data)"
    obtain r where r: "parseShares (slice 2 (length ext) ext) (keyShares info) = Some r"
      using parseShares_total by blast
    show ?thesis
      using False "1.IH" r
      by (subst parseExtensions.simps) (auto simp: Let_def ext_def split: option.splits if_splits)
  qed
qed

lemma parseHelloAfterSuites_total:
  assumes "data \<noteq> []"
  shows "\<exists>r. parseHelloAfterSuites suites data = Some r"
proof -
  define data1 where "data1 = slice (1 + unat (data ! 0)) (length data) data"
  show ?thesis
  proof (cases "unat (data ! 0) = 0 \<or> 1 + unat (data ! 0) + 2 > length data")
    case False
    then have "2 \<le> length data1" by (auto simp: data1_def)
    with False assms parseExtensions_total show ?thesis
      by (auto simp: parseHelloAfterSuites_def Let_def data1_def [symmetric])
  qed (use assms in \<open>simp add: parseHelloAfterSuites_def Let_def\<close>)
qed

lemma parseHelloTail_total:
  assumes "2 \<le> length data"
  shows "\<exists>r. parseHelloTail data = Some r"
proof -
  let ?n = "unat (beUint16 (data ! 0) (data ! 1))"
  show ?thesis
  proof (cases "?n = 0 \<or> ?n mod 2 \<noteq> 0 \<or> ?n \<ge> length data - 2")
    case True
    with assms show ?thesis by (simp add: parseHelloTail_def Let_def)
  next
    case False
    then have "even ?n" "?n \<le> length (slice 2 (length data) data)" using assms by auto
    then obtain ss where ss: "parseSuites (slice 2 (length data) data) 0 ?n = Some ss"
      using parseSuites_total by (metis even_zero)
    have "slice ?n (length data - 2) (slice 2 (length data) data) \<noteq> []"
      using False by (auto simp: slice_def)
    with assms False ss parseHelloAfterSuites_total show ?thesis
      by (simp add: parseHelloTail_def Let_def)
  qed
qed

lemma parse_total: "\<exists>info. parseFakeTLSClientHello data = Some info"
proof (cases "length data < 44")
  case False
  then have "data \<noteq> []" by auto
  with False show ?thesis
    by (auto simp: parseFakeTLSClientHello_def Let_def intro!: parseHelloTail_total)
qed (simp add: parseFakeTLSClientHello_def)

subsection \<open>Signing and verifying\<close>

lemma length_hmacSHA256 [simp]: "length (hmacSHA256 key data) = 32"
  by (simp add: hmacSHA256_def)

definition helloRandom_of :: "bytes \<Rightarrow> bytes" where
  "helloRandom_of data = slice 11 43 data"

definition helloMac :: "bytes \<Rightarrow> bytes \<Rightarrow> bytes" where
  "helloMac secret data = hmacSHA256 secret (overwrite 11 (replicate 32 0) data)"

definition helloTimestamp :: "bytes \<Rightarrow> bytes \<Rightarrow> int" where
  "helloTimestamp secret data =
     (let t = xorBytes (drop 28 (helloRandom_of data)) (drop 28 (helloMac secret data))
      in uint (leUint32 (t ! 0) (t ! 1) (t ! 2) (t ! 3)))"

definition helloSession :: "bytes \<Rightarrow> bytes" where
  "helloSession data = (if length data \<ge> 76 \<and> data ! 43 = 0x20 then slice 44 76 data else replicate 32 0)"

lemma length_helloMac [simp]: "length (helloMac secret data) = 32"
  by (simp add: helloMac_def)

lemma verify_eq:
  assumes "43 \<le> length data"
  shows "verifyFakeTLSClientHello now data secret =
    Some (if data ! 0 = tlsRecordHandshake \<and> data ! 5 = 0x01 \<and>
             take 28 (helloMac secret data) = take 28 (helloRandom_of data) \<and>
             \<bar>now - helloTimestamp secret data\<bar> \<le> 120
          then Some (helloRandom_of data, helloSession data) else None)"
proof -
  have "data \<noteq> []" using assms by auto
  with assms show ?thesis
    by (auto simp: verifyFakeTLSClientHello_def hello_layout helloRandom_of_def helloMac_def
        helloTimestamp_def helloSession_def tlsTimestampTolerance_def Let_def slice_0 slice_to_end)
qed

lemma verify_total: "verifyFakeTLSClientHello now data secret \<noteq> None"
  using verify_eq [of data now secret]
  by (cases "43 \<le> length data") (simp_all add: verifyFakeTLSClientHello_def)

text \<open>
  The client's side: the digest of the hello with a zeroed random, with the time of sending
  folded into its last four bytes.
\<close>

definition signClientHello :: "bytes \<Rightarrow> 32 word \<Rightarrow> bytes \<Rightarrow> bytes" where
  "signClientHello secret ts data =
     (let mac = hmacSHA256 secret (overwrite 11 (replicate 32 0) data)
      in overwrite 11 (take 28 mac @ xorBytes (drop 28 mac) (putLEUint32 ts)) data)"

lemma length_signClientHello [simp]:
  "43 \<le> length data \<Longrightarrow> length (signClientHello secret ts data) = length data"
  by (simp add: signClientHello_def Let_def)

lemma sign_random:
  assumes "43 \<le> length data"
  shows "helloRandom_of (signClientHello secret ts data) =
         take 28 (helloMac secret data) @ xorBytes (drop 28 (helloMac secret data)) (putLEUint32 ts)"
proof -
  let ?m = "take 28 (helloMac secret data) @ xorBytes (drop 28 (helloMac secret data)) (putLEUint32 ts)"
  have "slice 11 (11 + length ?m) (overwrite 11 ?m data) = ?m"
    using assms by (intro slice_overwrite_same) simp
  then show ?thesis
    by (simp add: helloRandom_of_def signClientHello_def helloMac_def Let_def)
qed

lemma sign_mac:
  "43 \<le> length data \<Longrightarrow> helloMac secret (signClientHello secret ts data) = helloMac secret data"
  by (simp add: helloMac_def signClientHello_def Let_def overwrite_overwrite)

lemma length4E:
  assumes "length xs = 4"
  obtains a b c d where "xs = [a, b, c, d]"
  using assms by (auto simp: numeral_eq_Suc length_Suc_conv)

lemma xor_both_sides: "(a XOR x) XOR a = (x :: 'a::len word)"
  by (simp add: xor.commute [of a x] xor.assoc)

lemma sign_timestamp:
  assumes "43 \<le> length data"
  shows "helloTimestamp secret (signClientHello secret ts data) = uint ts"
proof -
  obtain a b c d where m: "drop 28 (helloMac secret data) = [a, b, c, d]"
    by (rule length4E [of "drop 28 (helloMac secret data)"]) simp
  show ?thesis
    using assms
    by (simp add: helloTimestamp_def sign_random sign_mac m Let_def xorBytes_def putLEUint32_def
        xor_both_sides)
qed

lemma sign_outside:
  assumes "43 \<le> length data" and "k < 11 \<or> 43 \<le> k" and "k < length data"
  shows "signClientHello secret ts data ! k = data ! k"
  using assms by (simp add: signClientHello_def Let_def nth_overwrite_outside)

subsection \<open>Encoding a client hello\<close>

text \<open>The wire format of the fields the parser looks at, as RFC 8446 gives it.\<close>

datatype clientExt = KeyShareExt "(16 word \<times> bytes) list" | OtherExt "16 word" bytes

definition encodeSuites :: "16 word list \<Rightarrow> bytes" where
  "encodeSuites ss = concat (map putBEUint16 ss)"

definition opaque16 :: "bytes \<Rightarrow> bytes" where
  "opaque16 b = putBEUint16 (word_of_nat (length b)) @ b"

definition encodeShares :: "(16 word \<times> bytes) list \<Rightarrow> bytes" where
  "encodeShares shs = concat (map (\<lambda>(g, k). putBEUint16 g @ opaque16 k) shs)"

fun extBody :: "clientExt \<Rightarrow> bytes" where
  "extBody (KeyShareExt shs) = opaque16 (encodeShares shs)"
| "extBody (OtherExt t b) = b"

fun extType :: "clientExt \<Rightarrow> 16 word" where
  "extType (KeyShareExt shs) = 0x0033"
| "extType (OtherExt t b) = t"

definition encodeExts :: "clientExt list \<Rightarrow> bytes" where
  "encodeExts es = concat (map (\<lambda>e. putBEUint16 (extType e) @ opaque16 (extBody e)) es)"

definition encodeHelloTail :: "16 word list \<Rightarrow> bytes \<Rightarrow> clientExt list \<Rightarrow> bytes" where
  "encodeHelloTail suites compr es =
     opaque16 (encodeSuites suites) @ [word_of_nat (length compr)] @ compr @ opaque16 (encodeExts es)"

definition encodeHello :: "bytes \<Rightarrow> bytes \<Rightarrow> 16 word list \<Rightarrow> bytes \<Rightarrow> clientExt list \<Rightarrow> bytes" where
  "encodeHello random session suites compr es =
     (let body = [0x03, 0x03] @ random @ [word_of_nat (length session)] @ session @ encodeHelloTail suites compr es
      in [tlsRecordHandshake, 0x03, 0x01]
         @ opaque16 ([0x01, 0x00] @ opaque16 body))"

fun offeredShares :: "clientExt list \<Rightarrow> (16 word \<times> nat) list" where
  "offeredShares [] = []"
| "offeredShares (KeyShareExt shs # es) = map (\<lambda>(g, k). (g, length k)) shs @ offeredShares es"
| "offeredShares (OtherExt t b # es) = offeredShares es"

definition wfExt :: "clientExt \<Rightarrow> bool" where
  "wfExt e \<longleftrightarrow> length (extBody e) < 65536 \<and>
     (case e of KeyShareExt shs \<Rightarrow> list_all (\<lambda>(g, k). length k < 65536) shs | OtherExt t b \<Rightarrow> t \<noteq> 0x0033)"

lemma length_opaque16 [simp]: "length (opaque16 b) = 2 + length b"
  by (simp add: opaque16_def)

lemma put_not_Nil [simp]: "putBEUint16 a \<noteq> []" "opaque16 b \<noteq> []"
  by (simp_all add: putBEUint16_def opaque16_def)

lemma go_be16_put [simp]: "go_be16 0 (putBEUint16 a @ r) = Some a"
  by (simp add: putBEUint16_def)

lemma go_be16_put2 [simp]: "go_be16 2 (putBEUint16 a @ putBEUint16 b @ r) = Some b"
  by (simp add: putBEUint16_def)

lemma go_be16_opaque [simp]: "go_be16 0 (opaque16 b @ r) = Some (word_of_nat (length b))"
  by (simp add: opaque16_def)

lemma go_be16_opaque2 [simp]: "go_be16 2 (putBEUint16 a @ opaque16 b @ r) = Some (word_of_nat (length b))"
  by (simp add: opaque16_def)

lemma drop_put4: "drop 4 (putBEUint16 a @ opaque16 b @ r) = b @ r"
  by (simp add: opaque16_def putBEUint16_def)

lemma drop_opaque_end [simp]: "drop 2 (opaque16 b) = b"
  by (simp add: opaque16_def)

lemma drop_opaque: "drop 2 (opaque16 b @ r) = b @ r"
  by (simp add: opaque16_def)

lemma parseSuites_encode:
  "parseSuites (pre @ encodeSuites ss @ rest) (length pre) (length pre + 2 * length ss) = Some ss"
proof (induction ss arbitrary: pre)
  case Nil
  then show ?case by (simp add: parseSuites.simps)
next
  case (Cons s ss)
  have be: "go_be16 (length pre) (pre @ putBEUint16 s @ encodeSuites ss @ rest) = Some s"
    by (simp add: putBEUint16_def nth_append)
  show ?case
    using Cons.IH [of "pre @ putBEUint16 s"]
    by (subst parseSuites.simps) (simp add: encodeSuites_def be [unfolded encodeSuites_def])
qed

lemma parseShares_encode:
  "list_all (\<lambda>(g, k). length k < 65536) shs \<Longrightarrow>
   parseShares (encodeShares shs) m = Some (Some (map_of (map (\<lambda>(g, k). (g, length k)) shs) ++ m))"
proof (induction shs arbitrary: m)
  case Nil
  then show ?case by (simp add: parseShares.simps encodeShares_def)
next
  case (Cons sh shs)
  obtain g k where sh: "sh = (g, k)" by fastforce
  have len: "unat (word_of_nat (length k) :: 16 word) = length k"
    using Cons.prems sh by (simp add: unat_word_of_nat_small)
  have enc: "encodeShares (sh # shs) = putBEUint16 g @ opaque16 k @ encodeShares shs"
    by (simp add: encodeShares_def sh)
  let ?m = "if m g = None then m(g \<mapsto> length k) else m"
  have "parseShares (encodeShares (sh # shs)) m = parseShares (encodeShares shs) ?m"
    unfolding enc
    by (subst parseShares.simps) (simp add: slice_to_end drop_put4 len Let_def)
  also have "\<dots> = Some (Some (map_of (map (\<lambda>(g, k). (g, length k)) shs) ++ ?m))"
    using Cons by simp
  also have "map_of (map (\<lambda>(g, k). (g, length k)) shs) ++ ?m =
      map_of (map (\<lambda>(g, k). (g, length k)) (sh # shs)) ++ m"
    by (auto simp: sh map_add_def split: option.splits)
  finally show ?case .
qed

lemma parseExtensions_encode:
  "list_all wfExt es \<Longrightarrow>
   parseExtensions (encodeExts es) info =
     Some (info\<lparr>keyShares := map_of (offeredShares es) ++ keyShares info\<rparr>)"
proof (induction es arbitrary: info)
  case Nil
  then show ?case by (simp add: parseExtensions.simps encodeExts_def)
next
  case (Cons e es)
  have enc: "encodeExts (e # es) = putBEUint16 (extType e) @ opaque16 (extBody e) @ encodeExts es"
    by (simp add: encodeExts_def)
  have len: "unat (word_of_nat (length (extBody e)) :: 16 word) = length (extBody e)"
    using Cons.prems by (simp add: wfExt_def unat_word_of_nat_small)
  show ?case
  proof (cases e)
    case (OtherExt t b)
    then have "t \<noteq> 0x0033" using Cons.prems by (simp add: wfExt_def)
    then have "parseExtensions (encodeExts (e # es)) info = parseExtensions (encodeExts es) info"
      unfolding enc using len OtherExt
      by (subst parseExtensions.simps) (simp add: slice_to_end drop_put4)
    with Cons OtherExt show ?thesis by simp
  next
    case (KeyShareExt shs)
    let ?m = "map_of (map (\<lambda>(g, k). (g, length k)) shs) ++ keyShares info"
    have wf: "list_all (\<lambda>(g, k). length k < 65536) shs" and "length (encodeShares shs) < 65534"
      using Cons.prems KeyShareExt by (simp_all add: wfExt_def)
    then have len2: "unat (word_of_nat (length (encodeShares shs)) :: 16 word) = length (encodeShares shs)"
      by (simp add: unat_word_of_nat_small)
    have dr: "slice 2 (Suc (Suc (length b))) (opaque16 b) = b" for b
      using drop_opaque [of b "[]"] by (simp add: slice_to_end)
    have be: "go_be16 0 (opaque16 b) = Some (word_of_nat (length b))" for b
      using go_be16_opaque [of b "[]"] by simp
    have "parseExtensions (encodeExts (e # es)) info =
        parseExtensions (encodeExts es) (info\<lparr>keyShares := ?m\<rparr>)"
      unfolding enc using len KeyShareExt
      by (subst parseExtensions.simps)
        (simp add: slice_to_end drop_put4 slice_0 be len2 dr parseShares_encode [OF wf]
          del: go_be16_Some drop_drop)
    with Cons KeyShareExt show ?thesis by simp
  qed
qed

lemma length_encodeSuites [simp]: "length (encodeSuites ss) = 2 * length ss"
  by (induction ss) (simp_all add: encodeSuites_def)

lemma parseHelloTail_encode:
  assumes "suites \<noteq> []" and "length suites < 32768" and "compr \<noteq> []" and "length compr < 256"
    and "list_all wfExt es" and "length (encodeExts es) < 65536"
  shows "parseHelloTail (encodeHelloTail suites compr es) =
         Some \<lparr>cipherSuites = suites, keyShares = map_of (offeredShares es)\<rparr>"
proof -
  let ?after = "[word_of_nat (length compr)] @ compr @ opaque16 (encodeExts es)"
  have n: "unat (2 * word_of_nat (length suites) :: 16 word) = 2 * length suites"
    using assms(2) unat_word_of_nat_small [of "2 * length suites", where ?'a = 16] by simp
  have c: "unat (word_of_nat (length compr) :: byte) = length compr"
    and x: "unat (word_of_nat (length (encodeExts es)) :: 16 word) = length (encodeExts es)"
    using assms by (simp_all add: unat_word_of_nat_small)
  have "parseHelloTail (encodeHelloTail suites compr es) = parseHelloAfterSuites suites ?after"
    using assms(1) parseSuites_encode [of "[]" suites ?after]
    by (simp add: parseHelloTail_def encodeHelloTail_def n slice_to_end drop_opaque Let_def)
  also have "\<dots> = parseExtensions (encodeExts es) \<lparr>cipherSuites = suites, keyShares = Map.empty\<rparr>"
    using assms(3) drop_opaque [of "encodeExts es" "[]"] go_be16_opaque [of "encodeExts es" "[]"]
    by (simp add: parseHelloAfterSuites_def c x slice_to_end Let_def)
  finally show ?thesis by (simp add: parseExtensions_encode [OF assms(5)])
qed

lemma nat_or_be16: "push_bit 8 (unat hi) OR unat (lo :: byte) = unat (beUint16 hi lo)"
proof -
  have "256 * unat hi < 65536" using unat_byte_less [of hi] by simp
  then have "unat (push_bit 8 (ucast hi) :: 16 word) = push_bit 8 (unat hi)"
    by (simp add: push_bit_eq_mult unat_word_ariths)
  then show ?thesis by (simp add: beUint16_def unsigned_or_eq)
qed

lemma parse_encode:
  assumes "length random = 32" and "length session \<le> 32"
    and "suites \<noteq> []" and "length suites < 32768" and "compr \<noteq> []" and "length compr < 256"
    and "list_all wfExt es" and "length (encodeExts es) < 65536"
    and "length (encodeHello random session suites compr es) < 65536"
  shows "parseFakeTLSClientHello (encodeHello random session suites compr es) =
         Some \<lparr>cipherSuites = suites, keyShares = map_of (offeredShares es)\<rparr>"
proof -
  define tail where "tail = encodeHelloTail suites compr es"
  define front where "front = [tlsRecordHandshake, 0x03, 0x01]
      @ putBEUint16 (word_of_nat (39 + length session + length tail)) @ [0x01, 0x00]
      @ putBEUint16 (word_of_nat (35 + length session + length tail)) @ [0x03, 0x03]"
  let ?h = "encodeHello random session suites compr es"
  have h: "?h = front @ random @ [word_of_nat (length session)] @ session @ tail"
    using assms(1) by (simp add: encodeHello_def front_def tail_def opaque16_def Let_def ac_simps)
  have lf: "length front = 11" by (simp add: front_def)
  have len: "length ?h = 44 + length session + length tail" using assms(1) lf h by simp
  have lt: "2 \<le> length tail" by (simp add: tail_def encodeHelloTail_def)
  have s43: "?h ! 43 = word_of_nat (length session)"
    using assms(1) lf by (simp add: h nth_append)
  have sl: "unat (word_of_nat (length session) :: byte) = length session"
    using assms(2) by (simp add: unat_word_of_nat_small)
  have be3: "unat (beUint16 (?h ! 3) (?h ! 4)) = length ?h - 5"
    and be7: "unat (beUint16 (?h ! 7) (?h ! 8)) = length ?h - 9"
    using assms(9) len
    by (simp_all add: h front_def putBEUint16_def unat_word_of_nat_small del: of_nat_add)
  have b: "?h ! 0 = tlsRecordHandshake" "?h ! 5 = 0x01" "?h ! 6 = 0"
    by (simp_all add: h front_def putBEUint16_def)
  have dr: "drop (44 + length session) ?h = tail"
    using assms(1) lf by (simp add: h)
  have ne: "?h \<noteq> []" using len by auto
  have "parseFakeTLSClientHello ?h = parseHelloTail (drop (44 + length session) ?h)"
    using len lt be3 be7 b s43 sl ne assms(2)
    by (simp add: parseFakeTLSClientHello_def nat_or_be16 Let_def slice_to_end)
  also have "\<dots> = Some \<lparr>cipherSuites = suites, keyShares = map_of (offeredShares es)\<rparr>"
    unfolding dr tail_def by (rule parseHelloTail_encode [OF assms(3-8)])
  finally show ?thesis .
qed

subsection \<open>The server's flight as records\<close>

text \<open>
  The server hello message of RFC 8446, with every length field computed from what it
  counts.
\<close>

definition serverHelloMessage :: "bytes \<Rightarrow> bytes \<Rightarrow> 16 word \<Rightarrow> 16 word \<Rightarrow> bytes \<Rightarrow> bytes" where
  "serverHelloMessage random sessionID cipherSuite grp keyShare =
     [0x02, 0x00] @ opaque16 ([0x03, 0x03] @ random @ [word_of_nat (length sessionID)] @ sessionID
       @ putBEUint16 cipherSuite @ [0x00]
       @ opaque16 (putBEUint16 0x002b @ opaque16 [0x03, 0x04]
                   @ putBEUint16 0x0033 @ opaque16 (putBEUint16 grp @ opaque16 keyShare)))"

lemma hello_prefix:
  "(replicate 44 (0 :: byte))[0 := tlsRecordHandshake, 1 := 0x03, 2 := 0x03, 5 := 0x02, 9 := 0x03, 10 := 0x03, 43 := n] =
   [tlsRecordHandshake, 0x03, 0x03, 0x00, 0x00, 0x02, 0x00, 0x00, 0x00, 0x03, 0x03] @ replicate 32 0 @ [n]"
proof -
  have "replicate 44 (0 :: byte) = replicate (11 + (32 + 1)) 0" by simp
  also have "\<dots> = replicate 11 0 @ replicate 32 0 @ replicate 1 0" by (simp only: replicate_add)
  also have "replicate 1 (0 :: byte) = [0]" by simp
  also have "replicate 11 (0 :: byte) = [0, 0, 0, 0, 0, 0, 0, 0, 0, 0, 0]"
    by (simp add: numeral_eq_Suc)
  finally show ?thesis by (simp add: list_update_append)
qed

lemma patch_lengths:
  "overwrite 7 (putBEUint16 b) (overwrite 3 (putBEUint16 a) ([x0, x1, x2, x3, x4, x5, x6, x7, x8] @ rest)) =
   [x0, x1, x2] @ putBEUint16 a @ [x5, x6] @ putBEUint16 b @ rest"
  by (simp add: overwrite_def putBEUint16_def)

lemma serverHelloRecord_message:
  "serverHelloRecord sessionID cipherSuite grp keyShare =
   tls_record tlsRecordHandshake (serverHelloMessage (replicate 32 0) sessionID cipherSuite grp keyShare)"
proof -
  define z where "z = replicate 32 (0 :: byte)"
  have "length z = 32" by (simp add: z_def)
  define kx where "kx = putBEUint16 0x002b @ opaque16 [0x03, 0x04]
      @ putBEUint16 0x0033 @ opaque16 (putBEUint16 grp @ opaque16 keyShare)"
  define rest where "rest = [0x03, 0x03] @ z @ [word_of_nat (length sessionID)] @ sessionID
      @ putBEUint16 cipherSuite @ [0x00] @ opaque16 kx"
  have kx: "kx = [0x00, 0x2b, 0x00, 0x02, 0x03, 0x04, 0x00, 0x33]
      @ putBEUint16 (word_of_nat (4 + length keyShare)) @ putBEUint16 grp
      @ putBEUint16 (word_of_nat (length keyShare)) @ keyShare"
    by (simp add: kx_def opaque16_def) (simp add: putBEUint16_def)
  let ?nine = "[tlsRecordHandshake, 0x03, 0x03, 0x00, 0x00, 0x02, 0x00, 0x00, 0x00] :: bytes"
  have "([tlsRecordHandshake, 0x03, 0x03, 0x00, 0x00, 0x02, 0x00, 0x00, 0x00, 0x03, 0x03] @ z
       @ [word_of_nat (length sessionID)]) @ sessionID @ putBEUint16 cipherSuite @ [0x00]
      @ putBEUint16 (word_of_nat (14 + length keyShare)) @ [0x00, 0x2b, 0x00, 0x02, 0x03, 0x04, 0x00, 0x33]
      @ putBEUint16 (word_of_nat (4 + length keyShare)) @ putBEUint16 grp
      @ putBEUint16 (word_of_nat (length keyShare)) @ keyShare = ?nine @ rest"
    by (simp add: rest_def opaque16_def kx)
  note sh = this [folded append_assoc]
  have len: "length (?nine @ rest) - 5 = 4 + length rest" "length (?nine @ rest) - 9 = length rest"
    by simp_all
  have "serverHelloRecord sessionID cipherSuite grp keyShare =
      [tlsRecordHandshake, 0x03, 0x03] @ putBEUint16 (word_of_nat (4 + length rest)) @ [0x02, 0x00]
      @ putBEUint16 (word_of_nat (length rest)) @ rest"
    unfolding serverHelloRecord_def hello_prefix z_def [symmetric] Let_def append_assoc [symmetric] sh
    unfolding len patch_lengths by (simp only: append_assoc)
  then show ?thesis
    by (simp add: tls_record_def serverHelloMessage_def opaque16_def rest_def kx_def z_def)
qed

text \<open>
  What \<^verbatim>\<open>crypto/rand\<close> and \<^verbatim>\<open>crypto/ecdh\<close> promise when the system's entropy source works: reads
  fill the whole buffer, a draw is below its bound, and an X25519 public key has 32 bytes.
\<close>

definition okRandom :: "helloRandom \<Rightarrow> bool" where
  "okRandom r \<longleftrightarrow>
     (\<exists>pub. publicKey r = Inr pub \<and> length pub = 32) \<and>
     (\<forall>n. \<exists>bs. ciphertextRead r n = Inr bs \<and> length bs = n) \<and>
     (\<forall>n. \<exists>bs. encDataRead r n = Inr bs \<and> length bs = n) \<and>
     (\<forall>w > 0. \<exists>k. randInt r w = Inr k \<and> 0 \<le> k \<and> k < w)"

text \<open>The client's check of the server's random.\<close>

definition clientAccepts :: "bytes \<Rightarrow> bytes \<Rightarrow> bytes \<Rightarrow> bool" where
  "clientAccepts secret clientRandom flight \<longleftrightarrow>
     slice 11 43 flight = hmacSHA256 secret (clientRandom @ overwrite 11 (replicate 32 0) flight)"

lemma randomIntInRange_ok:
  assumes "okRandom r" and "lo \<le> hi"
  obtains k where "randomIntInRange (randInt r) lo hi = Inr k" and "lo \<le> k" and "k \<le> hi"
proof -
  have "0 < hi - lo + 1" using assms(2) by simp
  then obtain k where "randInt r (hi - lo + 1) = Inr k" "0 \<le> k" "k < hi - lo + 1"
    using assms(1) unfolding okRandom_def by blast
  with assms(2) that [of "lo + k"] show ?thesis by (simp add: randomIntInRange_def)
qed

lemma selectKeyShare_ok:
  assumes "okRandom r"
  obtains grp ks where "selectKeyShare r info = Inr (grp, ks)" and "length ks \<in> {32, 1120}"
proof -
  obtain pub where pub: "publicKey r = Inr pub" "length pub = 32"
    using assms by (auto simp: okRandom_def)
  obtain ct where ct: "ciphertextRead r 1088 = Inr ct" "length ct = 1088"
    using assms unfolding okRandom_def by blast
  show ?thesis
  proof (cases "keyShares info tlsGroupX25519MLKEM768 = Some 1216")
    case True
    with pub ct that [of tlsGroupX25519MLKEM768 "ct @ pub"] show ?thesis by (simp add: selectKeyShare_def)
  next
    case False
    with pub that [of tlsGroupX25519 pub] show ?thesis by (simp add: selectKeyShare_def)
  qed
qed

lemma encSizeFor_ok:
  assumes "okRandom r"
  obtains n where "encSizeFor r len = Inr n" and "64 \<le> n" and "n \<le> 16384"
    and "0 < len \<Longrightarrow> n = max 64 (min len 16384)"
proof (cases "len \<le> 0")
  case True
  obtain k where "randomIntInRange (randInt r) 64 160 = Inr k" "64 \<le> k" "k \<le> 160"
    by (rule randomIntInRange_ok [OF assms, of 64 160]) simp_all
  with True that [of k] show ?thesis by (simp add: encSizeFor_def)
next
  case False
  with that [of "max 64 (min len 16384)"] show ?thesis by (simp add: encSizeFor_def tlsRecordMaxLen_def)
qed

lemma overwrite_hello_random:
  assumes "length z = 32" and "length r = 32"
  shows "overwrite 11 r (tls_record t (serverHelloMessage z sid suite grp ks) @ rest) =
         tls_record t (serverHelloMessage r sid suite grp ks) @ rest"
  using assms by (simp add: overwrite_def tls_record_def serverHelloMessage_def opaque16_def putBEUint16_def)

lemma slice_hello_random:
  assumes "length r = 32"
  shows "slice 11 43 (tls_record t (serverHelloMessage r sid suite grp ks) @ rest) = r"
  using assms by (simp add: slice_def tls_record_def serverHelloMessage_def opaque16_def putBEUint16_def)

lemma buildFakeTLSServerHello_flight:
  assumes "selectKeyShare r info = Inr (grp, ks)" and "encSizeFor r len = Inr n"
    and "encDataRead r (nat n) = Inr enc"
  defines "suite \<equiv> selectCipher (cipherSuites info)"
  shows "\<exists>random. length random = 32 \<and>
    buildFakeTLSServerHello r secret clientRandom sid info len =
      Inr (tls_flight [(tlsRecordHandshake, serverHelloMessage random sid suite grp ks), (tlsRecordCCS, [1])]
           @ tls_record tlsRecordAppData enc) \<and>
    clientAccepts secret clientRandom
      (tls_flight [(tlsRecordHandshake, serverHelloMessage random sid suite grp ks), (tlsRecordCCS, [1])]
       @ tls_record tlsRecordAppData enc)"
proof -
  define rest where "rest = fakeTLSCCSFrame @ appDataRecord enc"
  define z where "z = replicate 32 (0 :: byte)"
  define mac where "mac = hmacSHA256 secret (clientRandom @
      tls_record tlsRecordHandshake (serverHelloMessage z sid suite grp ks) @ rest)"
  have len: "length z = 32" "length mac = 32" by (simp_all add: z_def mac_def)
  have rest: "tls_record tlsRecordCCS [1] @ tls_record tlsRecordAppData enc = rest"
    by (simp add: rest_def fakeTLSCCSFrame_def tls_record_def appDataRecord_def tls_defs putBEUint16_def)
  have "buildFakeTLSServerHello r secret clientRandom sid info len =
      Inr (overwrite 11 mac (tls_record tlsRecordHandshake (serverHelloMessage z sid suite grp ks) @ rest))"
    using assms by (simp add: buildFakeTLSServerHello_def serverHelloRecord_message mac_def z_def rest_def Let_def)
  also have "overwrite 11 mac (tls_record tlsRecordHandshake (serverHelloMessage z sid suite grp ks) @ rest) =
      tls_record tlsRecordHandshake (serverHelloMessage mac sid suite grp ks) @ rest"
    by (rule overwrite_hello_random [OF len])
  finally have "buildFakeTLSServerHello r secret clientRandom sid info len =
      Inr (tls_record tlsRecordHandshake (serverHelloMessage mac sid suite grp ks) @ rest)" .
  moreover have "clientAccepts secret clientRandom
      (tls_record tlsRecordHandshake (serverHelloMessage mac sid suite grp ks) @ rest)"
    using slice_hello_random [OF len(2)] overwrite_hello_random [OF len(2,1)]
    by (simp add: clientAccepts_def mac_def z_def)
  ultimately show ?thesis using len(2) rest by (intro exI [of _ mac]) simp
qed

subsection \<open>Accepting a client\<close>

text \<open>The bytes of one whole handshake record.\<close>

definition helloRecord :: "bytes \<Rightarrow> bool" where
  "helloRecord hello \<longleftrightarrow> 5 < length hello \<and> hello ! 0 = tlsRecordHandshake \<and>
     unat (beUint16 (hello ! 3) (hello ! 4)) = length hello - 5"

lemma unat_beUint16_less: "unat (beUint16 a b) < 65536"
  using unsigned_less [of "beUint16 a b"] by simp

lemma answer_total: "answerFakeTLSClient env client secret len hello random sid \<noteq> None"
  using parse_total [of hello]
  by (auto simp: answerFakeTLSClient_def split: sum.splits prod.splits option.splits)

lemma judge_total: "judgeFakeTLSClient env client secret len hello \<noteq> None"
  using verify_total [of "nowUnix env" hello secret] answer_total [of env client secret len hello]
  by (auto simp: judgeFakeTLSClient_def Let_def split: option.splits prod.splits)

lemma accept_total: "acceptFakeTLSClient env client secret domain len \<noteq> None"
  using judge_total by (simp add: acceptFakeTLSClient_def Let_def split: sum.splits prod.splits)

lemma accept_hello:
  assumes "inBytes client = hello @ rest" and "helloRecord hello"
  shows "acceptFakeTLSClient env client secret domain len =
         judgeFakeTLSClient env (client\<lparr>inBytes := rest\<rparr>) secret len hello"
proof -
  obtain t v1 v2 l1 l2 body where hello: "hello = t # v1 # v2 # l1 # l2 # body"
    using assms(2) take5 [of hello] by (auto simp: helloRecord_def)
  have n: "unat (beUint16 l1 l2) = length body" and t: "t = tlsRecordHandshake" and "body \<noteq> []"
    using assms(2) by (auto simp: helloRecord_def hello)
  have "length body \<le> 64 * 1024"
    using unat_beUint16_less [of l1 l2] n by simp
  moreover have r1: "io_ReadFull client 1 = (Inr [t], client\<lparr>inBytes := v1 # v2 # l1 # l2 # body @ rest\<rparr>)"
    using assms(1) by (simp add: io_ReadFull_def hello)
  moreover have r4: "io_ReadFull (client\<lparr>inBytes := v1 # v2 # l1 # l2 # body @ rest\<rparr>) 4 =
      (Inr [v1, v2, l1, l2], client\<lparr>inBytes := body @ rest\<rparr>)"
    by (simp add: io_ReadFull_def)
  moreover have rb: "io_ReadFull (client\<lparr>inBytes := body @ rest\<rparr>) (length body) =
      (Inr body, client\<lparr>inBytes := rest\<rparr>)"
    by (simp add: io_ReadFull_def)
  ultimately show ?thesis
    using n t \<open>body \<noteq> []\<close> by (simp add: acceptFakeTLSClient_def hello Let_def)
qed

lemma answer_accepts:
  assumes "okRandom (rnd env)" and "\<not> ctxDone env" and "outErr client = None"
    and "64 \<le> length (deframe (inBytes client))"
  shows "\<exists>wrapped flight. answerFakeTLSClient env client secret len hello random sid =
      Some (Some (wrapped, take 64 (deframe (inBytes client))), raw wrapped, None) \<and>
      tls_pending wrapped = drop 64 (deframe (inBytes client)) \<and>
      clientAccepts secret random flight \<and>
      writeSide (raw wrapped) = (outBytes client @ flight, None)"
proof -
  obtain info where info: "parseFakeTLSClientHello hello = Some info" using parse_total by blast
  obtain grp ks where ks: "selectKeyShare (rnd env) info = Inr (grp, ks)"
    by (rule selectKeyShare_ok [OF assms(1)])
  obtain n where n: "encSizeFor (rnd env) len = Inr n" by (rule encSizeFor_ok [OF assms(1)])
  obtain enc where enc: "encDataRead (rnd env) (nat n) = Inr enc"
    using assms(1) unfolding okRandom_def by blast
  obtain flight where flight: "buildFakeTLSServerHello (rnd env) secret random sid info len = Inr flight"
      "clientAccepts secret random flight"
    using buildFakeTLSServerHello_flight [OF ks n enc] by blast
  obtain k where k: "randomIntInRange (randInt (rnd env)) 8000 24000 = Inr k"
    by (rule randomIntInRange_ok [OF assms(1), of 8000 24000]) simp_all
  let ?c = "\<lparr>raw = client\<lparr>outBytes := outBytes client @ flight\<rparr>, readBuf = []\<rparr>"
  have pend: "tls_pending ?c = deframe (inBytes client)" by (simp add: tls_pending_def)
  have "fst (fakeTLS_ReadFull ?c 64) = Inr (take 64 (deframe (inBytes client)))"
    "tls_pending (snd (fakeTLS_ReadFull ?c 64)) = drop 64 (deframe (inBytes client))"
    using framed.read_ok [of 64 ?c] framed.read_rest [of 64 ?c] assms(4) pend by simp_all
  moreover have "writeSide (raw (snd (fakeTLS_ReadFull ?c 64))) = (outBytes client @ flight, None)"
    using assms(3) by (simp add: fakeTLS_ReadFull_out) (simp add: writeSide_def)
  ultimately show ?thesis
    using assms(2,3) info flight k
    by (intro exI [of _ "snd (fakeTLS_ReadFull ?c 64)"] exI [of _ flight])
      (cases "fakeTLS_ReadFull ?c 64", simp add: answerFakeTLSClient_def conn_Write_def handshakeLen_def)
qed

lemma answer_Some_length:
  assumes "answerFakeTLSClient env client secret len hello random sid = Some (Some (w, hs), c', site)"
  shows "length hs = 64"
proof -
  obtain info where info: "parseFakeTLSClientHello hello = Some info" using parse_total by blast
  obtain flight where fl: "buildFakeTLSServerHello (rnd env) secret random sid info len = Inr flight"
    using assms by (auto simp: answerFakeTLSClient_def info split: sum.splits)
  obtain k where k: "randomIntInRange (randInt (rnd env)) 8000 24000 = Inr k" and "\<not> ctxDone env"
    using assms by (auto simp: answerFakeTLSClient_def info fl split: sum.splits if_splits)
  moreover obtain e c1 where "conn_Write client flight = (e, c1)" by fastforce
  moreover from this have "e = None"
    using assms k \<open>\<not> ctxDone env\<close> by (auto simp: answerFakeTLSClient_def info fl split: option.splits)
  ultimately obtain x where "fakeTLS_ReadFull x 64 = (Inr hs, w)"
    using assms by (auto simp: answerFakeTLSClient_def handshakeLen_def info fl split: sum.splits prod.splits)
  then show ?thesis using framed.read_length [of x 64 hs] by simp
qed

lemma accept_Some_authentic:
  assumes "acceptFakeTLSClient env client secret domain len = Some (Some (w, hs), c', site)"
  shows "\<exists>hello rest. inBytes client = hello @ rest \<and> helloRecord hello \<and>
           verifyFakeTLSClientHello (nowUnix env) hello secret \<noteq> Some None \<and> length hs = 64"
proof -
  obtain first c1 where r1: "io_ReadFull client 1 = (Inr first, c1)"
    using assms by (auto simp: acceptFakeTLSClient_def split: sum.splits prod.splits)
  then have t: "first ! 0 = tlsRecordHandshake"
    using assms by (auto simp: acceptFakeTLSClient_def split: if_splits)
  then obtain hdr c2 where r4: "io_ReadFull c1 4 = (Inr hdr, c2)"
    using assms r1 by (auto simp: acceptFakeTLSClient_def split: sum.splits prod.splits)
  let ?n = "unat (beUint16 ((first @ hdr) ! 3) ((first @ hdr) ! 4))"
  obtain body c3 where rb: "io_ReadFull c2 ?n = (Inr body, c3)" and n0: "0 < ?n"
    and j: "judgeFakeTLSClient env c3 secret len (first @ hdr @ body) = Some (Some (w, hs), c', site)"
    using assms r1 t r4 by (auto simp: acceptFakeTLSClient_def Let_def split: sum.splits prod.splits if_splits)
  have lens: "length first = 1" "length hdr = 4" "length body = ?n"
    using raw.read_length [of client 1] raw.read_length [of c1 4] raw.read_length [of c2 ?n] r1 r4 rb by simp_all
  have "inBytes client = (first @ hdr @ body) @ inBytes c3"
    using raw.read_prefix [of client 1] raw.read_prefix [of c1 4] raw.read_prefix [of c2 ?n] r1 r4 rb by simp
  moreover have "helloRecord (first @ hdr @ body)"
    using lens t n0 by (simp add: helloRecord_def nth_append)
  moreover have "verifyFakeTLSClientHello (nowUnix env) (first @ hdr @ body) secret \<noteq> Some None"
    using j by (auto simp: judgeFakeTLSClient_def split: prod.splits)
  moreover have "length hs = 64"
    using j by (auto simp: judgeFakeTLSClient_def bind_eq_Some_conv
        dest: answer_Some_length split: option.splits prod.splits)
  ultimately show ?thesis by blast
qed

lemma sign_first: "43 \<le> length data \<Longrightarrow> signClientHello secret ts data ! 0 = data ! 0"
  by (rule sign_outside) auto

lemma selectCipher_offered:
  "set offered \<inter> {0x1301, 0x1302, 0x1303} \<noteq> {} \<Longrightarrow> selectCipher offered \<in> set offered"
  by (auto simp: selectCipher_def list_ex_iff)

lemma helloRecord_sign:
  "helloRecord data \<Longrightarrow> 43 \<le> length data \<Longrightarrow> helloRecord (signClientHello secret ts data)"
  by (auto simp: helloRecord_def sign_outside sign_first)

lemma verify_sign:
  assumes "43 \<le> length data" and "data ! 0 = tlsRecordHandshake" and "data ! 5 = 0x01"
  shows "verifyFakeTLSClientHello now (signClientHello secret ts data) secret =
    Some (if \<bar>now - uint ts\<bar> \<le> 120
          then Some (helloRandom_of (signClientHello secret ts data), helloSession (signClientHello secret ts data))
          else None)"
  using assms
  by (subst verify_eq) (simp_all add: sign_outside sign_first sign_timestamp sign_mac sign_random)

lemma accept_signed:
  assumes "okRandom (rnd env)" and "\<not> ctxDone env" and "outErr client = None"
    and "helloRecord data" and "43 \<le> length data" and "data ! 5 = 0x01"
    and "\<bar>nowUnix env - uint ts\<bar> \<le> 120"
    and "inBytes client = signClientHello secret ts data @ concat (map wrapFakeTLSRecords ps)"
    and "64 \<le> length (concat ps)"
  shows "\<exists>wrapped flight.
    acceptFakeTLSClient env client secret domain len =
      Some (Some (wrapped, take 64 (concat ps)), raw wrapped, None) \<and>
    tls_pending wrapped = drop 64 (concat ps) \<and>
    writeSide (raw wrapped) = (outBytes client @ flight, None) \<and>
    clientAccepts secret (helloRandom_of (signClientHello secret ts data)) flight"
proof -
  let ?h = "signClientHello secret ts data"
  have v: "verifyFakeTLSClientHello (nowUnix env) ?h secret = Some (Some (helloRandom_of ?h, helloSession ?h))"
    using assms by (simp add: verify_sign helloRecord_def)
  have "acceptFakeTLSClient env client secret domain len =
      answerFakeTLSClient env (client\<lparr>inBytes := concat (map wrapFakeTLSRecords ps)\<rparr>) secret len ?h
        (helloRandom_of ?h) (helloSession ?h)"
    using accept_hello [OF assms(8) helloRecord_sign [OF assms(4,5)], of env secret domain len]
    by (simp add: judgeFakeTLSClient_def v)
  then show ?thesis
    using answer_accepts [of env "client\<lparr>inBytes := concat (map wrapFakeTLSRecords ps)\<rparr>" secret len ?h
        "helloRandom_of ?h" "helloSession ?h"] assms(1-3,9)
    by (auto simp: deframe_wraps)
qed

subsection \<open>Properties\<close>

text \<open>
  C20. A Telegram client gets through: a client that signs its hello with the secret within
  two minutes of the proxy's clock, and then sends its MTProto bytes in records of any sizes,
  is accepted with exactly its first 64 bytes as handshake, the rest of its bytes stays
  readable on the wrapped connection, and the flight it has been sent carries the digest the
  client checks.
\<close>

theorem acceptFakeTLSClient_serves_client:
  assumes "okRandom (rnd env)" and "\<not> ctxDone env" and "outErr client = None"
    and "helloRecord data" and "43 \<le> length data" and "data ! 5 = 0x01"
    and "\<bar>nowUnix env - uint ts\<bar> \<le> 120"
    and "inBytes client = signClientHello secret ts data @ concat (map wrapFakeTLSRecords ps)"
    and "64 \<le> length (concat ps)"
  shows "\<exists>wrapped flight.
    acceptFakeTLSClient env client secret domain len =
      Some (Some (wrapped, take 64 (concat ps)), raw wrapped, None) \<and>
    tls_pending wrapped = drop 64 (concat ps) \<and>
    outBytes (raw wrapped) = outBytes client @ flight \<and>
    clientAccepts secret (helloRandom_of (signClientHello secret ts data)) flight"
  using accept_signed [OF assms] by (force simp: writeSide_def)


text \<open>
  Whatever bytes a client sends, and whatever the network and the clock do,
  \<^verbatim>\<open>acceptFakeTLSClient\<close> returns without a slice or index out of range, through the verifier
  and through all loops of the client hello parser.
\<close>

theorem acceptFakeTLSClient_never_panics:
  "\<exists>res. acceptFakeTLSClient env client secret domain len = Some res"
  using accept_total [of env client secret domain len] by simp

text \<open>
  A hello signed with the secret verifies exactly when its timestamp is within 120
  seconds of the clock, in both directions, and the verifier returns the hello's own random
  and session id.
\<close>

theorem verifyFakeTLSClientHello_signed:
  assumes "43 \<le> length data" and "data ! 0 = tlsRecordHandshake" and "data ! 5 = 0x01"
  shows "verifyFakeTLSClientHello now (signClientHello secret ts data) secret =
    Some (if \<bar>now - uint ts\<bar> \<le> 120
          then Some (helloRandom_of (signClientHello secret ts data), helloSession (signClientHello secret ts data))
          else None)"
  by (rule verify_sign [OF assms])

text \<open>
  C25. Parsing an encoded client hello returns the cipher suites in the order the client listed
  them and, for every group, the length of the first key share offered for it, over all its
  key share extensions and past all others.
\<close>

theorem parseFakeTLSClientHello_roundtrip:
  assumes "length random = 32" and "length session \<le> 32"
    and "suites \<noteq> []" and "length suites < 32768" and "compr \<noteq> []" and "length compr < 256"
    and "list_all wfExt es" and "length (encodeExts es) < 65536"
    and "length (encodeHello random session suites compr es) < 65536"
  shows "parseFakeTLSClientHello (encodeHello random session suites compr es) =
         Some \<lparr>cipherSuites = suites, keyShares = map_of (offeredShares es)\<rparr>"
  by (rule parse_encode [OF assms])

text \<open>
  C26. The server's flight is one server hello record with consistent lengths, one change
  cipher spec record and one application data record of 64 to 16384 bytes; it echoes the
  session id, picks a cipher suite the client offered whenever there is a common one, and its random is
  the digest the client checks.
\<close>

theorem buildFakeTLSServerHello_valid:
  assumes "okRandom r"
  shows "\<exists>random grp ks enc flight.
    flight = tls_flight [(tlsRecordHandshake,
                 serverHelloMessage random sid (selectCipher (cipherSuites info)) grp ks), (tlsRecordCCS, [1])]
             @ tls_record tlsRecordAppData enc \<and>
    buildFakeTLSServerHello r secret clientRandom sid info len = Inr flight \<and>
    clientAccepts secret clientRandom flight \<and> 64 \<le> length enc \<and> length enc \<le> tlsRecordMaxLen \<and>
    (set (cipherSuites info) \<inter> {0x1301, 0x1302, 0x1303} \<noteq> {} \<longrightarrow>
       selectCipher (cipherSuites info) \<in> set (cipherSuites info))"
proof -
  obtain grp ks where ks: "selectKeyShare r info = Inr (grp, ks)" by (rule selectKeyShare_ok [OF assms])
  obtain n where n: "encSizeFor r len = Inr n" "64 \<le> n" "n \<le> 16384" by (rule encSizeFor_ok [OF assms])
  obtain enc where enc: "encDataRead r (nat n) = Inr enc" "length enc = nat n"
    using assms unfolding okRandom_def by blast
  have "64 \<le> length enc" "length enc \<le> tlsRecordMaxLen" using n enc(2) by (simp_all add: tlsRecordMaxLen_def)
  moreover obtain random where
    "buildFakeTLSServerHello r secret clientRandom sid info len =
       Inr (tls_flight [(tlsRecordHandshake,
             serverHelloMessage random sid (selectCipher (cipherSuites info)) grp ks), (tlsRecordCCS, [1])]
           @ tls_record tlsRecordAppData enc)"
    "clientAccepts secret clientRandom
       (tls_flight [(tlsRecordHandshake,
             serverHelloMessage random sid (selectCipher (cipherSuites info)) grp ks), (tlsRecordCCS, [1])]
           @ tls_record tlsRecordAppData enc)"
    using buildFakeTLSServerHello_flight [OF ks n(1) enc(1)] by blast
  ultimately show ?thesis using selectCipher_offered by (intro exI conjI) (rule refl | assumption | blast)+
qed

text \<open>
  The profile is reproduced: when the first encrypted record of the masking site has a
  length between 64 and 16384, a probe of the proxy's own answer finds that same length.
\<close>

theorem probe_of_own_flight:
  assumes "okRandom r" and "64 \<le> len" and "len \<le> 16384" and "length sid \<le> 32"
    and "buildFakeTLSServerHello r secret clientRandom sid info len = Inr flight"
    and "inBytes c = flight @ rest"
  shows "fst (probeFakeTLSConn None (Inr hello) c) = Inr (nat len)"
proof -
  obtain grp ks where ks: "selectKeyShare r info = Inr (grp, ks)" "length ks \<in> {32, 1120}"
    by (rule selectKeyShare_ok [OF assms(1)])
  have n: "encSizeFor r len = Inr len" using assms(2,3) by (simp add: encSizeFor_def tlsRecordMaxLen_def)
  obtain enc where enc: "encDataRead r (nat len) = Inr enc" "length enc = nat len"
    using assms(1) unfolding okRandom_def by blast
  obtain random where random: "length random = 32"
    "buildFakeTLSServerHello r secret clientRandom sid info len =
       Inr (tls_flight [(tlsRecordHandshake,
             serverHelloMessage random sid (selectCipher (cipherSuites info)) grp ks), (tlsRecordCCS, [1])]
           @ tls_record tlsRecordAppData enc)"
    using buildFakeTLSServerHello_flight [OF ks(1) n enc(1)] by blast
  have "list_all tls_skippable [(tlsRecordHandshake,
      serverHelloMessage random sid (selectCipher (cipherSuites info)) grp ks), (tlsRecordCCS, [1])]"
    using ks(2) assms(4) random(1) by (auto simp: tls_skippable_def serverHelloMessage_def tlsRecordMaxLen_def)
  moreover have "enc \<noteq> []" and "length enc \<le> tlsRecordMaxLen + 256"
    using enc(2) assms(2,3) by (auto simp: tlsRecordMaxLen_def)
  moreover have "inBytes (snd (conn_Write c hello)) = tls_flight [(tlsRecordHandshake,
      serverHelloMessage random sid (selectCipher (cipherSuites info)) grp ks), (tlsRecordCCS, [1])]
      @ tls_record tlsRecordAppData enc @ rest"
    using assms(5,6) random(2) by (simp add: conn_Write_def split: option.splits)
  ultimately have "fst (probeRecords (snd (conn_Write c hello))) = Inr (length enc)"
    by (rule probeRecords_flight)
  then show ?thesis using enc(2) by (simp add: probeFakeTLSConn_def)
qed

text \<open>
  C22. A hello that does not verify is masked: the site is sent the client's own bytes from the
  first one on, the whole hello and then what follows it, the client is sent the site's
  answer, and no byte of the proxy's own.
\<close>

theorem rejected_hello_is_masked:
  assumes "inBytes client = hello @ rest" and "helloRecord hello"
    and "verifyFakeTLSClientHello (nowUnix env) hello secret = Some None"
    and "dialMasking env = Inr site" and "outErr site = None" and "outErr client = None"
  shows "\<exists>client' site'. acceptFakeTLSClient env client secret domain len = Some (None, client', Some site') \<and>
    outBytes site' = outBytes site @ hello @ take (copyUp env) rest \<and>
    outBytes client' = outBytes client @ take (copyDown env) (inBytes site)"
proof -
  have "hello \<noteq> []" using assms(2) by (auto simp: helloRecord_def)
  then show ?thesis
    using accept_hello [OF assms(1,2), of env secret domain len] assms(3-6)
    by (simp add: judgeFakeTLSClient_def proxyToMaskingDomain_def copySome_def conn_Write_def)
qed

subsection \<open>Witnesses\<close>

definition sampleRandom :: helloRandom where
  "sampleRandom = \<lparr>publicKey = Inr (replicate 32 7), ciphertextRead = \<lambda>n. Inr (replicate n 1),
                   encDataRead = \<lambda>n. Inr (replicate n 2), randInt = \<lambda>w. Inr 0\<rparr>"

definition sampleEnv :: acceptEnv where
  "sampleEnv = \<lparr>nowUnix = 1000, rnd = sampleRandom, dialMasking = Inr (sample_conn [8, 9]),
                copyUp = 1, copyDown = 2, ctxDone = False\<rparr>"

definition sampleHello :: bytes where
  "sampleHello = [0x16, 3, 1, 0, 38, 1] @ replicate 37 0"

definition sampleClient :: netConn where
  "sampleClient = sample_conn (signClientHello [1, 2] 900 sampleHello
                    @ concat (map wrapFakeTLSRecords [replicate 60 1, replicate 5 2]))"

lemma okRandom_sample: "okRandom sampleRandom"
  by (auto simp: okRandom_def sampleRandom_def)

lemma sampleHello_record: "helloRecord sampleHello" "43 \<le> length sampleHello" "sampleHello ! 5 = 0x01"
  "sampleHello ! 0 = tlsRecordHandshake"
  by (simp_all add: helloRecord_def sampleHello_def tls_defs beUint16_def)

theorem acceptFakeTLSClient_serves_client_witness:
  "\<exists>wrapped flight. acceptFakeTLSClient sampleEnv sampleClient [1, 2] ''example.org'' 0 =
      Some (Some (wrapped, take 64 (replicate 60 1 @ replicate 5 2)), raw wrapped, None) \<and>
    tls_pending wrapped = [2] \<and> outBytes (raw wrapped) = flight"
  using acceptFakeTLSClient_serves_client [of sampleEnv sampleClient sampleHello 900 "[1, 2]"
      "[replicate 60 1, replicate 5 2]" "''example.org''" 0] okRandom_sample sampleHello_record
  by (auto simp: sampleEnv_def sampleClient_def)


theorem verifyFakeTLSClientHello_signed_witness:
  "verifyFakeTLSClientHello 1000 (signClientHello [1, 2] 879 sampleHello) [1, 2] = Some None"
  using verifyFakeTLSClientHello_signed [of sampleHello 1000 "[1, 2]" 879] sampleHello_record by simp

theorem parseFakeTLSClientHello_roundtrip_witness:
  "parseFakeTLSClientHello (encodeHello (replicate 32 1) [] [0x1302, 0x1301] [0]
      [OtherExt 0x002b [2, 3, 4], KeyShareExt [(0x001d, [5, 6]), (0x001d, [7])]]) =
   Some \<lparr>cipherSuites = [0x1302, 0x1301], keyShares = [0x001d \<mapsto> Suc (Suc 0)]\<rparr>"
  using parseFakeTLSClientHello_roundtrip [of "replicate 32 1" "[]" "[0x1302, 0x1301]" "[0]"
      "[OtherExt 0x002b [2, 3, 4], KeyShareExt [(0x001d, [5, 6]), (0x001d, [7])]]"]
  by (simp add: wfExt_def encodeExts_def encodeShares_def encodeHello_def encodeHelloTail_def encodeSuites_def)

theorem buildFakeTLSServerHello_valid_witness:
  "\<exists>flight. buildFakeTLSServerHello sampleRandom [1] [2] [3] emptyHelloInfo 100 = Inr flight \<and>
     clientAccepts [1] [2] flight"
  using buildFakeTLSServerHello_valid [OF okRandom_sample, of "[3]" emptyHelloInfo "[1]" "[2]" 100] by blast

theorem probe_of_own_flight_witness:
  "\<exists>flight. fst (probeFakeTLSConn None (Inr [1]) (sample_conn flight)) = Inr 100 \<and>
     buildFakeTLSServerHello sampleRandom [1] [2] [3] emptyHelloInfo 100 = Inr flight"
proof -
  obtain flight where "buildFakeTLSServerHello sampleRandom [1] [2] [3] emptyHelloInfo 100 = Inr flight"
    by (auto simp: buildFakeTLSServerHello_def selectKeyShare_def sampleRandom_def encSizeFor_def
        emptyHelloInfo_def Let_def)
  with probe_of_own_flight [OF okRandom_sample _ _ _ this, of "sample_conn flight" "[]" "[1]"]
  show ?thesis by auto
qed

theorem rejected_hello_is_masked_witness:
  "\<exists>client' site'. acceptFakeTLSClient sampleEnv (sample_conn [0x16, 3, 1, 0, 1, 2, 77, 78]) [1] ''example.org'' 0 =
      Some (None, client', Some site') \<and>
    outBytes site' = [0x16, 3, 1, 0, 1, 2, 77] \<and> outBytes client' = [8, 9]"
  using rejected_hello_is_masked [of "sample_conn [0x16, 3, 1, 0, 1, 2, 77, 78]" "[0x16, 3, 1, 0, 1, 2]" "[77, 78]"
      sampleEnv "[1]" "sample_conn [8, 9]" "''example.org''" 0]
  by (simp add: helloRecord_def verifyFakeTLSClientHello_def sampleEnv_def tls_defs beUint16_def)

end
