(* ===== verification/Server.thy ===== *)
theory Server
  imports Routing FakeTLSHello
begin

text \<open>
  The front of \<^verbatim>\<open>src/src/server.go\<close>: \<^verbatim>\<open>handleClient\<close>, from the accepted connection to the session,
  and the accept loop of \<^verbatim>\<open>serve\<close> with its limit on concurrent sessions and its backoff.
\<close>

definition acceptBackoffMin :: duration where "acceptBackoffMin = 5 * Millisecond"
definition acceptBackoffMax :: duration where "acceptBackoffMax = 1 * Second"

subsection \<open>One client\<close>

record clientEnv =
  clAccept :: acceptEnv
  clRoute :: routeEnv
  clDraws :: "bytes list"
  clRnd2 :: bytes

datatype clientOutcome =
    Refused netConn "netConn option"
  | Disconnected netConn
  | BadHandshake netConn
  | Handled mtOutcome

definition bumpActive :: "int \<Rightarrow> proxy \<Rightarrow> proxy" where
  "bumpActive d px = px\<lparr>pxStats := (pxStats px)\<lparr>connectionsActive := connectionsActive (pxStats px) + d\<rparr>\<rparr>"

definition bumpBad :: "proxy \<Rightarrow> proxy" where
  "bumpBad px = px\<lparr>pxStats := (pxStats px)\<lparr>connectionsBad := connectionsBad (pxStats px) + 1\<rparr>\<rparr>"

text \<open>The part both branches of \<^verbatim>\<open>handleClient\<close> share, from \<^verbatim>\<open>tryHandshake\<close> on.\<close>

definition handleHandshake ::
  "clientEnv \<Rightarrow> bytes \<Rightarrow> bytes \<Rightarrow> netConn \<Rightarrow> proxy \<Rightarrow> (clientOutcome \<times> proxy) option" where
  "handleHandshake env hs secret client px =
     (case tryHandshake hs secret of
        None \<Rightarrow> None
      | Some None \<Rightarrow> Some (BadHandshake client, bumpBad px)
      | Some (Some hi) \<Rightarrow>
          map_option (\<lambda>(out, px'). (Handled out, px'))
            (handleMTProtoClient (clRoute env) (clDraws env) (clRnd2 env) hi secret px))"

definition handleClient ::
  "clientEnv \<Rightarrow> netConn \<Rightarrow> bytes \<Rightarrow> proxy \<Rightarrow> (clientOutcome \<times> proxy) option" where
  "handleClient env client secret px =
     map_option (\<lambda>(out, px'). (out, bumpActive (-1) px'))
       (let px1 = bumpActive 1 px in
        if FakeTLSDomain (pxCfg px) \<noteq> [] then
          (case acceptFakeTLSClient (clAccept env) client secret (FakeTLSDomain (pxCfg px)) (fakeTLSAppDataLen (pxCfg px)) of
             None \<Rightarrow> None
           | Some (None, client1, site) \<Rightarrow> Some (Refused client1 site, px1)
           | Some (Some (fconn, hs), client1, site) \<Rightarrow> handleHandshake env hs secret client1 px1)
        else
          (case io_ReadFull client handshakeLen of
             (Inl e, client1) \<Rightarrow> Some (Disconnected client1, px1)
           | (Inr hs, client1) \<Rightarrow> handleHandshake env hs secret client1 px1))"

subsection \<open>The accept loop\<close>

text \<open>
  What \<^verbatim>\<open>Accept\<close> returns, and the end of a session's goroutine. An accept error comes with the
  context's error, whether it is \<^verbatim>\<open>net.ErrClosed\<close>, and whether it is a timeout.
\<close>

datatype serveEvent =
    AcceptConn nat
  | AcceptError goerror "goerror option" bool bool
  | SessionDone nat

record server =
  svBackoff :: duration
  svSessions :: "nat list"
  svDone :: "nat list"
  svDropped :: "nat list"
  svTotal :: int
  svSleeps :: "duration list"
  svResult :: "goerror option"

definition newServer :: server where
  "newServer = \<lparr>svBackoff = acceptBackoffMin, svSessions = [], svDone = [], svDropped = [], svTotal = 0,
     svSleeps = [], svResult = None\<rparr>"

fun serveStep :: "Config \<Rightarrow> serveEvent \<Rightarrow> server \<Rightarrow> server" where
  "serveStep cfg (AcceptConn c) s =
     (let s1 = s\<lparr>svBackoff := acceptBackoffMin, svTotal := svTotal s + 1\<rparr> in
      if int (length (svSessions s1)) < MaxConns cfg then s1\<lparr>svSessions := c # svSessions s1\<rparr>
      else s1\<lparr>svDropped := c # svDropped s1\<rparr>)"
| "serveStep cfg (AcceptError err ctxErr isClosed isTimeout) s =
     (if ctxErr \<noteq> None then s\<lparr>svResult := ctxErr\<rparr>
      else if isClosed then s\<lparr>svResult := Some err\<rparr>
      else if isTimeout then s\<lparr>svBackoff := acceptBackoffMin\<rparr>
      else let doubled = svBackoff s * 2 in
           s\<lparr>svSleeps := svSleeps s @ [svBackoff s],
             svBackoff := (if doubled > acceptBackoffMax then acceptBackoffMax else doubled)\<rparr>)"
| "serveStep cfg (SessionDone c) s =
     (if c \<in> set (svSessions s) then s\<lparr>svSessions := remove1 c (svSessions s), svDone := c # svDone s\<rparr> else s)"

text \<open>Once the loop has returned it accepts nothing more; sessions still end.\<close>

fun serve :: "Config \<Rightarrow> serveEvent list \<Rightarrow> server \<Rightarrow> server" where
  "serve cfg [] s = s"
| "serve cfg (ev # evs) s =
     (case (svResult s, ev) of
        (None, _) \<Rightarrow> serve cfg evs (serveStep cfg ev s)
      | (Some e, SessionDone c) \<Rightarrow> serve cfg evs (serveStep cfg ev s)
      | (Some e, _) \<Rightarrow> serve cfg evs s)"

subsection \<open>The session counter\<close>

abbreviation active :: "proxy \<Rightarrow> int" where
  "active px \<equiv> connectionsActive (pxStats px)"

lemma startWS_active: "connectionsActive (snd (startWS up env c sp ri st)) = connectionsActive st"
  by (simp add: startWS_def bridgeWS_def split: prod.splits)

lemma connectWorkerLoop_active:
  "connectionsActive (snd (snd (snd (connectWorkerLoop env ri ds n cc cfg st)))) = connectionsActive st"
proof (induction ds arbitrary: n cc cfg st)
  case (Cons d ds)
  then show ?case by (simp add: Let_def split: option.split prod.split bool.split)
qed simp

lemma cfproxyLoop_active: "active (snd (cfproxyLoop env dc ds n k px)) = active px"
proof (induction ds arbitrary: n k px)
  case (Cons d ds)
  then show ?case by (simp add: Let_def split: option.split prod.split bool.split sum.split)
qed simp

lemma wsPool_get_active:
  "connectionsActive (snd (snd (snd (wsPool_get cfg now now' key domains cc p st)))) = connectionsActive st"
proof (induction cfg now now' key domains cc p st rule: wsPool_get.induct)
  case (1 cfg now now' key domains cc p st)
  show ?case
    by (subst wsPool_get.simps) (auto split: prod.split getResult.split if_split simp: "1.IH")
qed

lemma get_first_active:
  "connectionsActive (snd (snd (snd (get_first cfg now now' key domains ips cc p st)))) = connectionsActive st"
proof (induction ips arbitrary: cc p st)
  case (Cons ip ips)
  then show ?case
    using wsPool_get_active [of cfg now now' "\<lparr>wkDC = dkDC key, wkIsMedia = dkIsMedia key, wkTargetIP = ip\<rparr>" domains cc p st]
    by (auto split: prod.split option.split)
qed simp

lemma tryCF_active: "active (snd (tryCF env dc pr ri c px)) = active px"
proof -
  obtain ds cfg1 where ds: "cfproxyDomainsForTry (reCFDraws env) (reCFNow env) dc (pxCfg px) = (ds, cfg1)" by fastforce
  obtain r px1 where loop: "cfproxyLoop (reCF env) dc ds 0 0 (px\<lparr>pxCfg := cfg1\<rparr>) = (r, px1)" by fastforce
  with cfproxyLoop_active [of "reCF env" dc ds 0 0 "px\<lparr>pxCfg := cfg1\<rparr>"] have "active px1 = active px" by simp
  then show ?thesis
    by (cases r) (auto simp: tryCF_def cfproxyFallback_def ds loop startWS_def bridgeWS_def split: prod.splits)
qed

lemma tryTCP_active: "active (snd (tryTCP env dst ri c px)) = active px"
  by (simp add: tryTCP_def tcpFallback_def Let_def split_beta split: sum.splits)

lemma tryWorker_active: "active (snd (tryWorker env dc dst ri c px)) = active px"
proof -
  obtain r px1 where w: "workerConn env \<lparr>wpkDC = dc, wpkDst = dst\<rparr> ri px = (r, px1)" by fastforce
  then have "active px1 = active px"
    using connectWorkerLoop_active
    by (auto simp: workerConn_def workerPool_get_def connectWorker_def Let_def split_beta
        split: option.splits sum.splits if_splits)
  with w show ?thesis
    by (cases r) (auto simp: tryWorker_def cfWorkerFallback_def startWS_def bridgeWS_def split: prod.splits)
qed

lemma orElse_active:
  assumes "active (snd r) = active px" and "\<And>px1. active (snd (next px1)) = active px1"
  shows "active (snd (orElse r next)) = active px"
  using assms by (cases r; cases "fst r") (auto simp: orElse_def)

lemma tryRoute_active: "active (snd (tryRoute env hi ri c fallback k px)) = active px"
  by (cases k) (simp_all add: tryRoute_def tryCF_active tryTCP_active tryWorker_active)

lemma firstRoute_active:
  assumes "\<And>k px. active (snd (route k px)) = active px"
  shows "active (snd (firstRoute route ks px)) = active px"
proof (induction ks arbitrary: px)
  case (Cons k ks)
  then show ?case using assms by (simp del: firstRoute.simps add: orElse_active)
qed simp

lemma routeClient_active: "active (snd (routeClient env hi ri c px)) = active px"
proof -
  have out: "active (snd (fallbackOutcome (doFallback env hi ri c target px1))) = active px1" for target px1
    using firstRoute_active [OF tryRoute_active]
    by (simp add: doFallback_routes fallbackOutcome_def split_beta split: option.split)
  obtain ws cc p1 st where get: "getForDC (pxCfg px) (rePoolNow env) (rePoolNow' env)
      \<lparr>dkDC = hiDC hi, dkIsMedia = hiIsMedia hi\<rparr> (pxPool px) (pxStats px) = (ws, cc, p1, st)"
    by (metis prod_cases4)
  then have "connectionsActive st = active px"
    using get_first_active by (auto simp: getForDC_def Let_def split: if_splits) (metis snd_conv)
  then show ?thesis
    by (auto simp: routeClient_def get out startWS_def bridgeWS_def Let_def split: option.split prod.split)
qed

subsection \<open>No panic\<close>

lemma generateRelayInit_length:
  assumes "list_all (\<lambda>d. length d = 64) draws" and "generateRelayInit draws rnd2 tag dc = Some r"
  shows "length r = 64"
  using assms pickRelayRandom_Some by (fastforce simp: generateRelayInit_def list_all_iff)

lemma handleMTProtoClient_accepted:
  assumes "tryHandshake hs secret = Some (Some hi)" and "list_all (\<lambda>d. length d = 64) draws"
  shows "handleMTProtoClient env draws rnd2 hi secret px =
    Some (case generateRelayInit draws rnd2 (hiProtoTag hi) (signedDC (hiDC hi) (hiIsMedia hi)) of
            None \<Rightarrow> (StillDrawing, px)
          | Some r \<Rightarrow>
              routeClient env hi r
                \<lparr>cltDec = snd (XORKeyStream (clientSend hs secret) hs), cltEnc = clientRecv hs secret,
                 tgEnc = snd (XORKeyStream (telegramRecv r) r), tgDec = telegramSend r\<rparr> px)"
  using buildCiphers_accepted [OF assms(1)] generateRelayInit_length [OF assms(2)]
  by (simp add: handleMTProtoClient_def split: option.split)

lemma bumpActive_simps [simp]:
  "active (bumpActive d px) = active px + d" "active (bumpBad px) = active px"
  "pxCfg (bumpActive d px) = pxCfg px" "pxCfg (bumpBad px) = pxCfg px"
  by (simp_all add: bumpActive_def bumpBad_def)

lemma handleHandshake_total:
  assumes "list_all (\<lambda>d. length d = 64) (clDraws env)"
  shows "\<exists>out px'. handleHandshake env hs secret client px = Some (out, px') \<and> active px' = active px"
proof -
  obtain r where r: "tryHandshake hs secret = Some r" using tryHandshake_total by blast
  show ?thesis
  proof (cases r)
    case (Some hi)
    obtain out px' where "handleMTProtoClient (clRoute env) (clDraws env) (clRnd2 env) hi secret px = Some (out, px')"
      "active px' = active px"
      using handleMTProtoClient_accepted [OF r [unfolded Some] assms]
      by (cases "generateRelayInit (clDraws env) (clRnd2 env) (hiProtoTag hi) (signedDC (hiDC hi) (hiIsMedia hi))")
        (auto, metis prod.exhaust_sel routeClient_active)
    with r Some show ?thesis by (simp add: handleHandshake_def)
  qed (use r in \<open>simp add: handleHandshake_def\<close>)
qed

lemma handleClient_total:
  assumes "list_all (\<lambda>d. length d = 64) (clDraws env)"
  shows "\<exists>out px'. handleClient env client secret px = Some (out, px') \<and> active px' = active px"
proof (cases "FakeTLSDomain (pxCfg px) = []")
  case True
  obtain res client1 where "io_ReadFull client handshakeLen = (res, client1)" by fastforce
  with True handleHandshake_total [OF assms, of _ secret client1 "bumpActive 1 px"] show ?thesis
    by (cases res) (fastforce simp: handleClient_def Let_def)+
next
  case False
  obtain o' client1 site where acc: "acceptFakeTLSClient (clAccept env) client secret (FakeTLSDomain (pxCfg px))
      (fakeTLSAppDataLen (pxCfg px)) = Some (o', client1, site)"
    using accept_total [of "clAccept env" client secret] by (metis option.exhaust prod_cases3)
  show ?thesis
  proof (cases o')
    case None
    with False acc show ?thesis by (simp add: handleClient_def Let_def)
  next
    case (Some wh)
    with False acc handleHandshake_total [OF assms, of "snd wh" secret client1 "bumpActive 1 px"] show ?thesis
      by (cases wh) (fastforce simp: handleClient_def Let_def)
  qed
qed

subsection \<open>The accept loop's invariant\<close>

definition serve_inv :: "Config \<Rightarrow> server \<Rightarrow> bool" where
  "serve_inv cfg s \<longleftrightarrow>
     int (length (svSessions s)) \<le> MaxConns cfg \<and>
     svTotal s = int (length (svSessions s) + length (svDone s) + length (svDropped s)) \<and>
     svBackoff s \<in> {acceptBackoffMin..acceptBackoffMax} \<and>
     list_all (\<lambda>d. d \<in> {acceptBackoffMin..acceptBackoffMax}) (svSleeps s)"

lemma serveStep_inv:
  assumes "serve_inv cfg s"
  shows "serve_inv cfg (serveStep cfg ev s)"
proof (cases ev)
  case (AcceptConn c)
  with assms show ?thesis
    by (simp add: serve_inv_def Let_def acceptBackoffMin_def acceptBackoffMax_def)
next
  case (AcceptError err ctxErr isClosed isTimeout)
  with assms show ?thesis
    by (simp add: serve_inv_def Let_def acceptBackoffMin_def acceptBackoffMax_def)
next
  case (SessionDone c)
  show ?thesis
  proof (cases "c \<in> set (svSessions s)")
    case True
    then have "length (svSessions s) = Suc (length (remove1 c (svSessions s)))"
      by (simp add: length_remove1) (metis Suc_pred length_pos_if_in_set)
    with assms True SessionDone show ?thesis by (simp add: serve_inv_def)
  qed (use assms SessionDone in simp)
qed

lemma serve_inv_new: "0 \<le> MaxConns cfg \<Longrightarrow> serve_inv cfg newServer"
  by (simp add: serve_inv_def newServer_def acceptBackoffMin_def acceptBackoffMax_def)

lemma serve_keeps_inv: "serve_inv cfg s \<Longrightarrow> serve_inv cfg (serve cfg evs s)"
proof (induction cfg evs s rule: serve.induct)
  case (2 cfg ev evs s)
  then show ?case
    by (cases "svResult s"; cases ev) (simp_all del: serveStep.simps add: serveStep_inv)
qed simp

text \<open>The delays of consecutive failures to accept.\<close>

definition acceptDelay :: "nat \<Rightarrow> duration" where
  "acceptDelay n = min (acceptBackoffMin * 2 ^ n) acceptBackoffMax"

lemma acceptDelay_Suc:
  "(if acceptDelay n * 2 > acceptBackoffMax then acceptBackoffMax else acceptDelay n * 2) = acceptDelay (Suc n)"
  by (simp add: acceptDelay_def acceptBackoffMin_def acceptBackoffMax_def min_def)

lemma serve_failing:
  assumes "svBackoff s = acceptDelay k" and "svResult s = None"
  shows "serve cfg (map (\<lambda>e. AcceptError e None False False) es) s =
    s\<lparr>svSleeps := svSleeps s @ map acceptDelay [k..<k + length es], svBackoff := acceptDelay (k + length es)\<rparr>"
  using assms
proof (induction es arbitrary: s k)
  case (Cons e es)
  let ?s = "s\<lparr>svSleeps := svSleeps s @ [acceptDelay k], svBackoff := acceptDelay (Suc k)\<rparr>"
  have "serveStep cfg (AcceptError e None False False) s = ?s"
    using Cons.prems acceptDelay_Suc [of k] by (simp add: Let_def)
  then have "serve cfg (map (\<lambda>e. AcceptError e None False False) (e # es)) s =
      serve cfg (map (\<lambda>e. AcceptError e None False False) es) ?s"
    using Cons.prems by (simp del: serveStep.simps)
  also have "\<dots> = s\<lparr>svSleeps := svSleeps s @ map acceptDelay [k..<k + length (e # es)],
      svBackoff := acceptDelay (k + length (e # es))\<rparr>"
  proof -
    have "[k..<k + length (e # es)] = k # [Suc k..<Suc k + length es]" by (simp add: upt_conv_Cons del: upt_Suc)
    with Cons.IH [of ?s "Suc k"] Cons.prems show ?thesis by (simp del: upt_Suc)
  qed
  finally show ?case .
qed simp

subsection \<open>Properties\<close>

text \<open>
  C8. One client, whatever it sends and whatever the network, the clock and the random sources
  answer: \<^verbatim>\<open>handleClient\<close> returns without a panic on every route, and the counter of active
  connections is what it was before.
\<close>

theorem handleClient_never_panics:
  assumes "list_all (\<lambda>d. length d = 64) (clDraws env)"
  shows "\<exists>out px'. handleClient env client secret px = Some (out, px') \<and>
    connectionsActive (pxStats px') = connectionsActive (pxStats px)"
  by (rule handleClient_total [OF assms])

definition sampleClientEnv :: clientEnv where
  "sampleClientEnv = \<lparr>clAccept = sampleEnv, clRoute = sampleRoute, clDraws = [replicate 64 5], clRnd2 = [1, 2]\<rparr>"

definition sampleProxy :: proxy where
  "sampleProxy = \<lparr>pxCfg = zeroConfig, pxStats = zeroStats, pxPool = newWSPool, pxWorkers = newWorkerPool,
     pxTCP = Map.empty, pxClosed = []\<rparr>"

theorem handleClient_never_panics_witness:
  "\<exists>out px'. handleClient sampleClientEnv (sampleClient\<lparr>inBytes := clientHandshake (replicate 56 7) [1] protoTagSecure 2 [9, 9]\<rparr>)
       [1] sampleProxy = Some (out, px') \<and> connectionsActive (pxStats px') = connectionsActive (pxStats sampleProxy)"
  by (rule handleClient_never_panics) (simp add: sampleClientEnv_def)

text \<open>
  C11. The accept loop, under every sequence of connections, accept errors and ends of sessions:
  never more than \<^verbatim>\<open>MaxConns\<close> sessions run, every accepted connection is a running session, a
  finished one or was dropped, each counted once in \<^verbatim>\<open>connectionsTotal\<close>, and every pause after a
  failed accept is between 5 ms and 1 s. While only transient errors come the loop does not
  return, and the pauses double up to the maximum.
\<close>

theorem serve_limits:
  assumes "0 \<le> MaxConns cfg"
  shows "serve_inv cfg (serve cfg evs newServer) \<and>
    svResult (serve cfg (map (\<lambda>e. AcceptError e None False False) es) newServer) = None \<and>
    svSleeps (serve cfg (map (\<lambda>e. AcceptError e None False False) es) newServer) =
      map (\<lambda>n. min (acceptBackoffMin * 2 ^ n) acceptBackoffMax) [0..<length es]"
proof -
  have "svBackoff newServer = acceptDelay 0" "svResult newServer = None" "svSleeps newServer = []"
    by (simp_all add: newServer_def acceptDelay_def acceptBackoffMin_def acceptBackoffMax_def)
  then show ?thesis
    using serve_keeps_inv [OF serve_inv_new [OF assms]] serve_failing [of newServer 0 cfg es] by (simp add: acceptDelay_def)
qed

theorem serve_limits_witness:
  "svSleeps (serve zeroConfig (map (\<lambda>e. AcceptError e None False False) [io_EOF, io_EOF]) newServer) =
     [5 * Millisecond, 10 * Millisecond] \<and> serve_inv zeroConfig (serve zeroConfig [AcceptConn 3] newServer)"
  using serve_limits [of zeroConfig "[AcceptConn 3]" "[io_EOF, io_EOF]"]
  by (simp add: zeroConfig_def acceptBackoffMin_def acceptBackoffMax_def upt_rec)

end
