(* ===== verification/GoIP.thy ===== *)
theory GoIP
  imports GoStrings
begin

text \<open>
  \<^verbatim>\<open>net.ParseIP(s) != nil\<close>, by the algorithm of \<^verbatim>\<open>net/netip\<close>: dotted IPv4 with four fields of
  at most 255 and no leading zero, and IPv6 with groups of at most four hexadecimal digits, at
  most one double colon that stands for at least one group, and an embedded IPv4 address at
  the end. An address with a zone is refused by \<^verbatim>\<open>net.ParseIP\<close>.
\<close>

text \<open>The loop of \<^verbatim>\<open>parseIPv4Fields\<close>: the value, the number of digits and the position of the current field.\<close>

fun ipv4Fields :: "string \<Rightarrow> nat \<Rightarrow> nat \<Rightarrow> nat \<Rightarrow> bool" where
  "ipv4Fields [] val digs pos = (digs > 0 \<and> pos = 3)"
| "ipv4Fields (c # cs) val digs pos =
     (if is_digit c then
        (let val' = val * 10 + (of_char c - 48) in
         if (digs = 1 \<and> val = 0) \<or> val' > 255 then False else ipv4Fields cs val' (digs + 1) pos)
      else if c = CHR ''.'' then
        (if digs = 0 \<or> cs = [] \<or> pos = 3 then False else ipv4Fields cs 0 0 (pos + 1))
      else False)"

definition isIPv4 :: "string \<Rightarrow> bool" where
  "isIPv4 s = ipv4Fields s 0 0 0"

definition hexRun :: "string \<Rightarrow> string" where
  "hexRun s = takeWhile (\<lambda>c. hex_value c \<noteq> None) s"

text \<open>The loop of \<^verbatim>\<open>parseIPv6\<close>: the bytes filled so far and whether a double colon has been seen.\<close>

function ipv6Groups :: "string \<Rightarrow> nat \<Rightarrow> bool \<Rightarrow> bool" where
  "ipv6Groups s i ellipsis =
     (if i \<ge> 16 then s = [] \<and> \<not> ellipsis
      else let off = length (hexRun s) in
        if off = 0 \<or> off > 4 then False
        else if off < length s \<and> s ! off = CHR ''.'' then
          (if (\<not> ellipsis \<and> i \<noteq> 12) \<or> i + 4 > 16 then False
           else isIPv4 s \<and> (if i + 4 < 16 then ellipsis else \<not> ellipsis))
        else let s1 = drop off s in
          if s1 = [] then (if i + 2 < 16 then ellipsis else \<not> ellipsis)
          else if hd s1 \<noteq> CHR '':'' \<or> tl s1 = [] then False
          else if hd (tl s1) = CHR '':'' then
            (if ellipsis then False
             else if tl (tl s1) = [] then i + 2 < 16
             else ipv6Groups (tl (tl s1)) (i + 2) True)
          else ipv6Groups (tl s1) (i + 2) ellipsis)"
  by pat_completeness auto
termination
  by (relation "measure (\<lambda>(s, i, e). 16 - i)") auto

declare ipv6Groups.simps [simp del]

definition isIPv6 :: "string \<Rightarrow> bool" where
  "isIPv6 s =
     (if CHR ''%'' \<in> set s then False
      else if strings_HasPrefix s ''::'' then drop 2 s = [] \<or> ipv6Groups (drop 2 s) 0 True
      else ipv6Groups s 0 False)"

definition net_ParseIP :: "string \<Rightarrow> bool" where
  "net_ParseIP s =
     (case dropWhile (\<lambda>c. c \<notin> {CHR ''.'', CHR '':'', CHR ''%''}) s of
        [] \<Rightarrow> False
      | c # cs \<Rightarrow> (if c = CHR ''.'' then isIPv4 s else if c = CHR '':'' then isIPv6 s else False))"

lemma net_ParseIP_examples:
  "net_ParseIP ''149.154.167.220''" "\<not> net_ParseIP ''149.154.167.256''" "\<not> net_ParseIP ''1.2.3''"
  "\<not> net_ParseIP ''01.2.3.4''" "\<not> net_ParseIP ''1..2.3''" "\<not> net_ParseIP ''1.2.3.4.''"
  "net_ParseIP ''2001:db8::1''" "net_ParseIP ''::''" "net_ParseIP ''::ffff:1.2.3.4''" "net_ParseIP ''1:2:3:4:5:6:7:8''"
  "\<not> net_ParseIP ''1:2:3:4:5:6:7''" "\<not> net_ParseIP ''1::2::3''" "\<not> net_ParseIP ''fe80::1%eth0''"
  "\<not> net_ParseIP ''12345::''" "\<not> net_ParseIP ''telegram.org''" "\<not> net_ParseIP ''1::2:3:4:5:6:7:8''"
  by code_simp+

end
