(* ===== verification/Flags.thy ===== *)
theory Flags
  imports FallbackDials GoIP "HOL-Library.AList"
begin

text \<open>
  The configuration of \<^verbatim>\<open>src/src/config.go\<close>: \<^verbatim>\<open>parseFlags\<close> from the values the flag package has
  read to the \<^verbatim>\<open>Config\<close> the other components run on. The random bytes of a generated secret and
  the random choice of the active domains are arguments.
\<close>

subsection \<open>Flag values\<close>

record flagValues =
  fvHost :: string
  fvPort :: int
  fvSecret :: string
  fvGenSecret :: bool
  fvPrintLink :: bool
  fvVerbose :: bool
  fvLogFile :: string
  fvLogBackups :: int
  fvBufKB :: int
  fvPoolSize :: int
  fvFakeTLSDomain :: string
  fvCfproxyDomain :: string
  fvCfproxyDomains :: string
  fvWorkerDomains :: string
  fvNoCfproxy :: bool
  fvCfproxyPriority :: bool
  fvNoDomainRefresh :: bool
  fvDomainsURL :: string
  fvMaxConns :: int
  fvDcIPDefault :: string
  fvDcIPDefaultPool :: string
  fvPprofListen :: string
  fvDcIPs :: "string list"
  fvDcIPPools :: "string list"
  fvProvidedDomain :: bool

definition defaultMaxConns :: int where "defaultMaxConns = 256"
definition defaultCFProxyDomain :: string where "defaultCFProxyDomain = ''pclead.co.uk''"
definition defaultCFProxyDomainsURL :: string where
  "defaultCFProxyDomainsURL =
     ''https://raw.githubusercontent.com/Flowseal/tg-ws-proxy/main/.github/cfproxy-domains.txt''"

text \<open>The values when no flag is given.\<close>

definition defaultFlags :: flagValues where
  "defaultFlags =
     \<lparr>fvHost = ''127.0.0.1'', fvPort = 1443, fvSecret = [], fvGenSecret = False, fvPrintLink = False,
      fvVerbose = False, fvLogFile = [], fvLogBackups = 0, fvBufKB = 64, fvPoolSize = 4, fvFakeTLSDomain = [],
      fvCfproxyDomain = defaultCFProxyDomain, fvCfproxyDomains = [], fvWorkerDomains = [], fvNoCfproxy = False,
      fvCfproxyPriority = True, fvNoDomainRefresh = False, fvDomainsURL = defaultCFProxyDomainsURL,
      fvMaxConns = defaultMaxConns, fvDcIPDefault = ''149.154.167.220'', fvDcIPDefaultPool = [], fvPprofListen = [],
      fvDcIPs = [], fvDcIPPools = [], fvProvidedDomain = False\<rparr>"

definition maxInt :: "int \<Rightarrow> int \<Rightarrow> int" where
  "maxInt a b = (if a > b then a else b)"

subsection \<open>Addresses\<close>

fun appendUniqueIP :: "string list \<Rightarrow> string \<Rightarrow> string list" where
  "appendUniqueIP dst ip = (if list_ex (\<lambda>v. v = ip) dst then dst else dst @ [ip])"

fun parseIPParts :: "string list \<Rightarrow> string list \<Rightarrow> string + string list" where
  "parseIPParts [] out = (if out = [] then Inl ''empty ip pool'' else Inr out)"
| "parseIPParts (p # parts) out =
     (let ip = strings_TrimSpace p in
      if ip = [] then parseIPParts parts out
      else if \<not> net_ParseIP ip then Inl (''invalid ip: '' @ ip)
      else parseIPParts parts (appendUniqueIP out ip))"

definition parseIPCSV :: "string \<Rightarrow> string + string list" where
  "parseIPCSV s = parseIPParts (strings_Split s (CHR '','')) []"

text \<open>The two maps that grow together, \<^verbatim>\<open>dcMap\<close> and \<^verbatim>\<open>dcPool\<close>.\<close>

record dcTargets =
  tgMap :: "(int \<times> string) list"
  tgPool :: "(int \<times> string list) list"

definition setTargets :: "int \<Rightarrow> string list \<Rightarrow> dcTargets \<Rightarrow> dcTargets" where
  "setTargets dc ips t =
     \<lparr>tgMap = AList.update dc (ips ! 0) (tgMap t), tgPool = AList.update dc ips (tgPool t)\<rparr>"

fun addDcIPs :: "string list \<Rightarrow> dcTargets \<Rightarrow> string + dcTargets" where
  "addDcIPs [] t = Inr t"
| "addDcIPs (item # items) t =
     (let parts = strings_SplitN2 item (CHR '':'') in
      if length parts \<noteq> 2 then Inl (''invalid --dc-ip: '' @ item)
      else case strconv_Atoi 64 (parts ! 0) of
        None \<Rightarrow> Inl (''invalid dc: '' @ parts ! 0)
      | Some dc \<Rightarrow>
          (if \<not> net_ParseIP (parts ! 1) then Inl (''invalid ip: '' @ parts ! 1)
           else addDcIPs items (setTargets dc [parts ! 1] t)))"

fun addDcIPPools :: "string list \<Rightarrow> dcTargets \<Rightarrow> string + dcTargets" where
  "addDcIPPools [] t = Inr t"
| "addDcIPPools (item # items) t =
     (let parts = strings_SplitN2 item (CHR '':'') in
      if length parts \<noteq> 2 then Inl (''invalid --dc-ip-pool: '' @ item)
      else case strconv_Atoi 64 (parts ! 0) of
        None \<Rightarrow> Inl (''invalid dc in --dc-ip-pool: '' @ parts ! 0)
      | Some dc \<Rightarrow>
          (case parseIPCSV (parts ! 1) of
             Inl e \<Rightarrow> Inl (''invalid --dc-ip-pool for dc '' @ strconv_Itoa dc @ '': '' @ e)
           | Inr poolIPs \<Rightarrow> addDcIPPools items (setTargets dc poolIPs t)))"

definition defaultTargets :: "string list \<Rightarrow> dcTargets" where
  "defaultTargets defaultPool = fold (\<lambda>dc. setTargets dc defaultPool) [2, 4] \<lparr>tgMap = [], tgPool = []\<rparr>"

definition flagDefaultPool :: "flagValues \<Rightarrow> string + string list" where
  "flagDefaultPool fv =
     (let defaultTargetIP = strings_TrimSpace (fvDcIPDefault fv) in
      if \<not> net_ParseIP defaultTargetIP then Inl (''invalid --dc-ip-default: '' @ defaultTargetIP)
      else if strings_TrimSpace (fvDcIPDefaultPool fv) \<noteq> [] then
        (case parseIPCSV (fvDcIPDefaultPool fv) of
           Inl e \<Rightarrow> Inl (''invalid --dc-ip-default-pool: '' @ e)
         | Inr poolIPs \<Rightarrow> Inr poolIPs)
      else Inr [defaultTargetIP])"

definition flagTargets :: "flagValues \<Rightarrow> string + dcTargets" where
  "flagTargets fv =
     (case flagDefaultPool fv of
        Inl e \<Rightarrow> Inl e
      | Inr defaultPool \<Rightarrow>
          (case addDcIPs (fvDcIPs fv) (defaultTargets defaultPool) of
             Inl e \<Rightarrow> Inl e
           | Inr t \<Rightarrow> addDcIPPools (fvDcIPPools fv) t))"

subsection \<open>Secret and domains\<close>

text \<open>\<open>random\<close> is the result of \<^verbatim>\<open>rand.Read\<close>.\<close>

definition flagSecret :: "(string + bytes) \<Rightarrow> flagValues \<Rightarrow> string + string" where
  "flagSecret random fv =
     (if fvPrintLink fv \<and> fvSecret fv = [] then Inl ''--print-link requires --secret''
      else case (if fvSecret fv = [] then map_sum id hex_EncodeToString random else Inr (fvSecret fv)) of
        Inl e \<Rightarrow> Inl e
      | Inr secret \<Rightarrow>
          (if length secret \<noteq> 32 then Inl ''secret must be exactly 32 hex chars''
           else if hex_DecodeString secret = None then Inl ''secret must be valid hex''
           else Inr secret))"

text \<open>The pool of the Cloudflare proxy and whether the user has fixed it.\<close>

definition flagDomains :: "flagValues \<Rightarrow> string + string list \<times> bool" where
  "flagDomains fv =
     (let userPoolProvided = (strings_TrimSpace (fvCfproxyDomains fv) \<noteq> []);
          userDomain = normalizeCFProxyDomain (fvCfproxyDomain fv);
          userFixedDomain = (fvProvidedDomain fv \<and> userDomain \<noteq> []);
          parsed = (if userPoolProvided then
                      (if fvProvidedDomain fv then Inl ''use only one of --cfproxy-domain or --cfproxy-domains''
                       else case parseCFProxyDomainCSV (fvCfproxyDomains fv) of
                         Inl e \<Rightarrow> Inl (''invalid --cfproxy-domains: '' @ e) | Inr ds \<Rightarrow> Inr ds)
                    else Inr defaultCFProxyDomains)
      in case parsed of
           Inl e \<Rightarrow> Inl e
         | Inr domainPool \<Rightarrow>
             (if fvProvidedDomain fv then
                (if strings_ContainsChar userDomain (CHR '','')
                 then Inl ''invalid --cfproxy-domain: multiple domains are not allowed; use --cfproxy-domains for comma-separated pool''
                 else if userDomain = [] then Inl ''invalid --cfproxy-domain: empty domain''
                 else Inr ([userDomain], userFixedDomain \<or> userPoolProvided))
              else if \<not> userPoolProvided \<and> userDomain \<noteq> []
              then Inr (appendUniqueDomains domainPool [userDomain], userFixedDomain \<or> userPoolProvided)
              else Inr (domainPool, userFixedDomain \<or> userPoolProvided)))"

definition flagFakeTLS :: "flagValues \<Rightarrow> string + string" where
  "flagFakeTLS fv =
     (let d = normalizeCFProxyDomain (fvFakeTLSDomain fv) in
      if d \<noteq> [] \<and> \<not> isLikelyDomain d then Inl (''invalid --fake-tls-domain: '' @ fvFakeTLSDomain fv) else Inr d)"

definition flagWorkers :: "flagValues \<Rightarrow> string + string list" where
  "flagWorkers fv =
     (if strings_TrimSpace (fvWorkerDomains fv) = [] then Inr []
      else case parseCFProxyDomainCSV (fvWorkerDomains fv) of
        Inl e \<Rightarrow> Inl (''invalid --cfproxy-worker-domain: '' @ e) | Inr wd \<Rightarrow> Inr wd)"

subsection \<open>The configuration\<close>

definition buildConfig ::
  "flagValues \<Rightarrow> string \<Rightarrow> dcTargets \<Rightarrow> bool \<Rightarrow> string \<Rightarrow> string list \<Rightarrow> Config" where
  "buildConfig fv secret t userDomain fakeTLS workerDomains =
     zeroConfig\<lparr>Host := fvHost fv, Port := fvPort fv, SecretHex := secret, GenSecret := fvGenSecret fv,
       PrintLink := fvPrintLink fv, FakeTLSDomain := fakeTLS, DCMap := tgMap t, DCPool := tgPool t,
       FallbackCFProxy := \<not> fvNoCfproxy fv, FallbackCFProxyPriority := fvCfproxyPriority fv,
       FallbackCFProxyUserDomain := userDomain, FallbackCFProxyRefresh := \<not> fvNoDomainRefresh fv,
       FallbackCFProxyDomainsURL := strings_TrimSpace (fvDomainsURL fv),
       FallbackCFProxyWorkerDomains := workerDomains, Verbose := fvVerbose fv, BufKB := maxInt (fvBufKB fv) 4,
       PoolSize := maxInt (fvPoolSize fv) 0, MaxConns := maxInt (fvMaxConns fv) 1, LogFile := fvLogFile fv,
       LogBackups := maxInt (fvLogBackups fv) 0, PprofListen := strings_TrimSpace (fvPprofListen fv)\<rparr>"

definition parseFlags ::
  "(string + bytes) \<Rightarrow> nat \<Rightarrow> (int \<Rightarrow> nat) \<Rightarrow> (string + flagValues) \<Rightarrow> string + Config" where
  "parseFlags random draw dcDraw parsed =
     (case parsed of Inl e \<Rightarrow> Inl e | Inr fv \<Rightarrow>
      (case flagSecret random fv of Inl e \<Rightarrow> Inl e | Inr secret \<Rightarrow>
       (case flagTargets fv of Inl e \<Rightarrow> Inl e | Inr t \<Rightarrow>
        (case flagDomains fv of Inl e \<Rightarrow> Inl e | Inr (domainPool, userDomain) \<Rightarrow>
         (case flagFakeTLS fv of Inl e \<Rightarrow> Inl e | Inr fakeTLS \<Rightarrow>
          (case flagWorkers fv of Inl e \<Rightarrow> Inl e | Inr workerDomains \<Rightarrow>
             Inr (setCFProxyDomains draw dcDraw domainPool
                    (buildConfig fv secret t userDomain fakeTLS workerDomains))))))))"

subsection \<open>What a configuration promises\<close>

definition goodIPs :: "string list \<Rightarrow> bool" where
  "goodIPs ips \<longleftrightarrow> ips \<noteq> [] \<and> distinct ips \<and> list_all net_ParseIP ips"

definition targetsOK :: "dcTargets \<Rightarrow> bool" where
  "targetsOK t \<longleftrightarrow> distinct (map fst (tgPool t)) \<and> {2, 4} \<subseteq> set (map fst (tgPool t)) \<and>
     list_all (\<lambda>(dc, ips). goodIPs ips) (tgPool t) \<and> tgMap t = map (\<lambda>(dc, ips). (dc, hd ips)) (tgPool t)"

definition configOK :: "Config \<Rightarrow> bool" where
  "configOK cfg \<longleftrightarrow>
     (\<exists>key. hex_DecodeString (SecretHex cfg) = Some key \<and> length key = 16) \<and>
     targetsOK \<lparr>tgMap = DCMap cfg, tgPool = DCPool cfg\<rparr> \<and>
     0 \<le> PoolSize cfg \<and> 1 \<le> MaxConns cfg \<and> 4 \<le> BufKB cfg \<and> 0 \<le> LogBackups cfg \<and>
     (FakeTLSDomain cfg = [] \<or> isLikelyDomain (FakeTLSDomain cfg)) \<and>
     list_all isLikelyDomain (FallbackCFProxyWorkerDomains cfg) \<and>
     poolInv cfg \<and> fallbackDials cfg = Map.empty \<and> cfproxyFailUntil cfg = Map.empty \<and> cfworkerFailUntil cfg = Map.empty"

lemma hex_Decode_length: "hex_DecodeString s = Some bs \<Longrightarrow> length s = 2 * length bs"
  by (induction s arbitrary: bs rule: hex_DecodeString.induct) (auto split: option.splits)

lemma flagSecret_ok:
  assumes "flagSecret random fv = Inr secret"
  shows "\<exists>key. hex_DecodeString secret = Some key \<and> length key = 16"
proof -
  from assms have "length secret = 32" "hex_DecodeString secret \<noteq> None"
    by (auto simp: flagSecret_def Let_def split: if_splits sum.splits)
  with hex_Decode_length [of secret] show ?thesis by (cases "hex_DecodeString secret") auto
qed

lemma map_update: "map (\<lambda>(k, v). (k, f v)) (AList.update k v al) = AList.update k (f v) (map (\<lambda>(k, v). (k, f v)) al)"
  by (induction al) auto

lemma list_all_update: "list_all P al \<Longrightarrow> P (k, v) \<Longrightarrow> list_all P (AList.update k v al)"
  by (induction al) auto

lemma setTargets_ok: "targetsOK t \<Longrightarrow> goodIPs ips \<Longrightarrow> targetsOK (setTargets dc ips t)"
  by (auto simp: targetsOK_def setTargets_def dom_update distinct_update map_update list_all_update
      goodIPs_def hd_conv_nth)

lemma defaultTargets_ok: "goodIPs ips \<Longrightarrow> targetsOK (defaultTargets ips)"
  by (simp add: defaultTargets_def setTargets_def targetsOK_def goodIPs_def hd_conv_nth)

lemma parseIPParts_good:
  "distinct out \<Longrightarrow> list_all net_ParseIP out \<Longrightarrow> parseIPParts parts out = Inr ips \<Longrightarrow> goodIPs ips"
  by (induction parts out rule: parseIPParts.induct)
    (auto simp: goodIPs_def Let_def list_ex_iff split: if_splits)

lemma parseIPCSV_good: "parseIPCSV s = Inr ips \<Longrightarrow> goodIPs ips"
  by (rule parseIPParts_good [of "[]" "strings_Split s (CHR '','')"]) (simp_all add: parseIPCSV_def)

lemma addDcIPs_ok: "targetsOK t \<Longrightarrow> addDcIPs items t = Inr t' \<Longrightarrow> targetsOK t'"
proof (induction items arbitrary: t)
  case (Cons item items)
  have "targetsOK (setTargets dc [ip] t)" if "net_ParseIP ip" for dc ip
    using Cons.prems(1) that by (simp add: setTargets_ok goodIPs_def)
  with Cons show ?case by (auto simp: Let_def split: if_splits option.splits)
qed simp

lemma addDcIPPools_ok: "targetsOK t \<Longrightarrow> addDcIPPools items t = Inr t' \<Longrightarrow> targetsOK t'"
proof (induction items arbitrary: t)
  case (Cons item items)
  have "targetsOK (setTargets dc ips t)" if "parseIPCSV s = Inr ips" for dc ips s
    using Cons.prems(1) parseIPCSV_good [OF that] by (rule setTargets_ok)
  with Cons show ?case by (auto simp: Let_def split: if_splits option.splits sum.splits)
qed simp

lemma flagTargets_ok:
  assumes "flagTargets fv = Inr t"
  shows "targetsOK t"
proof -
  have "flagDefaultPool fv = Inr ips \<Longrightarrow> goodIPs ips" for ips
    using parseIPCSV_good by (auto simp: flagDefaultPool_def goodIPs_def Let_def split: if_splits sum.splits)
  moreover from assms obtain ips t1 where "flagDefaultPool fv = Inr ips" "addDcIPs (fvDcIPs fv) (defaultTargets ips) = Inr t1"
    "addDcIPPools (fvDcIPPools fv) t1 = Inr t"
    by (auto simp: flagTargets_def split: sum.splits)
  ultimately show ?thesis by (blast intro: defaultTargets_ok addDcIPs_ok addDcIPPools_ok)
qed

lemma csv_likely: "parseCFProxyDomainCSV csv = Inr ds \<Longrightarrow> list_all isLikelyDomain ds"
  using parseCSVParts_spec [of "[]" "strings_Split csv (CHR '','')"]
  by (auto simp: parseCFProxyDomainCSV_def list_all_iff)

lemma flagWorkers_ok: "flagWorkers fv = Inr wd \<Longrightarrow> list_all isLikelyDomain wd"
  by (auto simp: flagWorkers_def dest: csv_likely split: if_splits sum.splits)

lemma flagFakeTLS_ok: "flagFakeTLS fv = Inr d \<Longrightarrow> d = [] \<or> isLikelyDomain d"
  by (auto simp: flagFakeTLS_def Let_def split: if_splits)

lemma parseFlags_ok:
  assumes "parseFlags random draw dcDraw parsed = Inr cfg"
  shows "configOK cfg"
proof -
  from assms obtain fv secret t domains user fake workers where
    parts: "flagSecret random fv = Inr secret" "flagTargets fv = Inr t" "flagFakeTLS fv = Inr fake" "flagWorkers fv = Inr workers"
    and cfg: "cfg = setCFProxyDomains draw dcDraw domains (buildConfig fv secret t user fake workers)"
    by (auto simp: parseFlags_def split: sum.splits prod.splits)
  have inv: "poolInv cfg" unfolding cfg by (rule setCFProxyDomains_poolInv)
  have t: "targetsOK \<lparr>tgMap = tgMap t, tgPool = tgPool t\<rparr>" using flagTargets_ok [OF parts(2)] by (simp add: targetsOK_def)
  show ?thesis
    using inv t flagSecret_ok [OF parts(1)] flagFakeTLS_ok [OF parts(3)] flagWorkers_ok [OF parts(4)]
    unfolding configOK_def
    by (simp add: cfg setCFProxyDomains_def buildConfig_def zeroConfig_def maxInt_def Let_def fun_eq_iff)
qed

subsection \<open>Properties\<close>

text \<open>
  A configuration that \<^verbatim>\<open>parseFlags\<close> returns can be run on: the secret decodes to 16 bytes,
  every datacentre has a non-empty list of distinct valid addresses whose first one is its
  entry in the map, datacentres 2 and 4 are always configured, the sizes are within their bounds (so that
  the session limit is at least one), the masking and worker domains are plausible, the
  Cloudflare pool satisfies its invariant, and no dial is reserved and no cooldown runs.
\<close>

theorem parseFlags_establishes:
  assumes "parseFlags random draw dcDraw parsed = Inr cfg"
  shows "configOK cfg"
  using assms by (rule parseFlags_ok)

theorem parseFlags_establishes_witness:
  "\<exists>cfg. parseFlags (Inr (replicate 16 0xAB)) 0 (\<lambda>_. 0)
       (Inr (defaultFlags\<lparr>fvMaxConns := -5, fvDcIPs := [''203:91.105.192.100'']\<rparr>)) = Inr cfg \<and>
     configOK cfg"
proof -
  let ?fv = "defaultFlags\<lparr>fvMaxConns := -5, fvDcIPs := [''203:91.105.192.100'']\<rparr>"
  have ok: "isl (flagSecret (Inr (replicate 16 0xAB)) ?fv) = False" "isl (flagTargets ?fv) = False"
    "isl (flagFakeTLS ?fv) = False" "isl (flagWorkers ?fv) = False"
    by code_simp+
  have dom: "isl (flagDomains ?fv) = False"
    by (simp add: flagDomains_def defaultFlags_def strings_TrimSpace_def trim_by_def Let_def)
  from ok dom obtain secret t d fake w where "flagSecret (Inr (replicate 16 0xAB)) ?fv = Inr secret"
    "flagTargets ?fv = Inr t" "flagDomains ?fv = Inr d" "flagFakeTLS ?fv = Inr fake" "flagWorkers ?fv = Inr w"
    by (metis sum.collapse(2))
  then obtain cfg where "parseFlags (Inr (replicate 16 0xAB)) 0 (\<lambda>_. 0) (Inr ?fv) = Inr cfg"
    by (cases d) (simp add: parseFlags_def)
  with parseFlags_establishes show ?thesis by blast
qed

end
