(* ===== verification/FlagParse.thy ===== *)
theory FlagParse
  imports Flags
begin

text \<open>
  The command line: what \<^verbatim>\<open>fs.Parse\<close> makes of the arguments, with the flags that \<^verbatim>\<open>parseFlags\<close> of
  \<^verbatim>\<open>src/src/config.go\<close> declares. The parsing of integers and booleans is that of \<^verbatim>\<open>strconv\<close>; whether
  a text is a floating point number is an argument, since only \<^verbatim>\<open>--log-max-mb\<close> takes one.
\<close>

subsection \<open>Numbers and booleans\<close>

definition digit_of :: "char \<Rightarrow> nat option" where
  "digit_of c =
     (let v = of_char c :: nat; l = of_char (lower_char c) :: nat
      in if 48 \<le> v \<and> v \<le> 57 then Some (v - 48)
         else if 97 \<le> l \<and> l \<le> 122 then Some (l - 87)
         else None)"

text \<open>The digits of \<^verbatim>\<open>strconv.ParseUint(s, 0, 64)\<close>, underscores skipped.\<close>

fun uint_digits :: "nat \<Rightarrow> string \<Rightarrow> nat \<Rightarrow> nat option" where
  "uint_digits base [] n = Some n"
| "uint_digits base (c # cs) n =
     (if c = CHR ''_'' then uint_digits base cs n
      else case digit_of c of
        None \<Rightarrow> None
      | Some d \<Rightarrow> if d \<ge> base then None else uint_digits base cs (base * n + d))"

definition base_prefix :: "string \<Rightarrow> (nat \<times> string) option" where
  "base_prefix s =
     (case s of
        c0 # c # cs \<Rightarrow>
          (if c0 \<noteq> CHR ''0'' then None
           else if lower_char c = CHR ''b'' then Some (2, cs)
           else if lower_char c = CHR ''o'' then Some (8, cs)
           else if lower_char c = CHR ''x'' then Some (16, cs)
           else None)
      | _ \<Rightarrow> None)"

text \<open>\<^verbatim>\<open>underscoreOK\<close>, from the last character class on: a digit, an underscore, or another one.\<close>

datatype lastSeen = SawStart | SawDigit | SawUnderscore | SawOther

fun underscores_ok :: "bool \<Rightarrow> lastSeen \<Rightarrow> string \<Rightarrow> bool" where
  "underscores_ok hex i [] = (i \<noteq> SawUnderscore)"
| "underscores_ok hex i (c # cs) =
     (if is_digit c \<or> (hex \<and> char_between (CHR ''a'') (CHR ''f'') (lower_char c))
      then underscores_ok hex SawDigit cs
      else if c = CHR ''_'' then i = SawDigit \<and> underscores_ok hex SawUnderscore cs
      else i \<noteq> SawUnderscore \<and> underscores_ok hex SawOther cs)"

definition underscoreOK :: "string \<Rightarrow> bool" where
  "underscoreOK s =
     (case base_prefix s of
        Some (base, cs) \<Rightarrow> underscores_ok (base = 16) SawDigit cs
      | None \<Rightarrow> underscores_ok False SawStart s)"

definition strconv_ParseUint0 :: "string \<Rightarrow> nat option" where
  "strconv_ParseUint0 s =
     (if s = [] then None
      else let (base, ds) = (case (if length s \<ge> 3 then base_prefix s else None) of
                               Some bd \<Rightarrow> bd
                             | None \<Rightarrow> if hd s = CHR ''0'' then (8, tl s) else (10, s))
           in case uint_digits base ds 0 of
                None \<Rightarrow> None
              | Some n \<Rightarrow>
                  (if n \<ge> 2 ^ 64 \<or> (CHR ''_'' \<in> set ds \<and> \<not> underscoreOK s) then None else Some n))"

text \<open>\<^verbatim>\<open>strconv.ParseInt(s, 0, 64)\<close>\<close>

definition strconv_ParseInt0 :: "string \<Rightarrow> int option" where
  "strconv_ParseInt0 s =
     (let neg = (s \<noteq> [] \<and> hd s = CHR ''-'');
          ds = (if s \<noteq> [] \<and> (hd s = CHR ''-'' \<or> hd s = CHR ''+'') then tl s else s)
      in case strconv_ParseUint0 ds of
           None \<Rightarrow> None
         | Some n \<Rightarrow>
             (if neg then (if n > 2 ^ 63 then None else Some (- int n))
              else if n \<ge> 2 ^ 63 then None else Some (int n)))"

definition strconv_ParseBool :: "string \<Rightarrow> bool option" where
  "strconv_ParseBool s =
     (if s \<in> {''1'', ''t'', ''T'', ''TRUE'', ''true'', ''True''} then Some True
      else if s \<in> {''0'', ''f'', ''F'', ''FALSE'', ''false'', ''False''} then Some False
      else None)"

subsection \<open>The flags\<close>

datatype flagSetter =
    BoolF "bool \<Rightarrow> flagValues \<Rightarrow> flagValues"
  | IntF "int \<Rightarrow> flagValues \<Rightarrow> flagValues"
  | FloatF
  | StringF "string \<Rightarrow> flagValues \<Rightarrow> flagValues"

text \<open>A \<^verbatim>\<open>multiFlag\<close> appends; \<^verbatim>\<open>provided["cfproxy-domain"]\<close> is recorded when that flag is set.\<close>

definition flagTable :: "(string \<times> flagSetter) list" where
  "flagTable =
     [(''host'', StringF (\<lambda>v fv. fv\<lparr>fvHost := v\<rparr>)),
      (''port'', IntF (\<lambda>v fv. fv\<lparr>fvPort := v\<rparr>)),
      (''secret'', StringF (\<lambda>v fv. fv\<lparr>fvSecret := v\<rparr>)),
      (''gen-secret'', BoolF (\<lambda>v fv. fv\<lparr>fvGenSecret := v\<rparr>)),
      (''print-link'', BoolF (\<lambda>v fv. fv\<lparr>fvPrintLink := v\<rparr>)),
      (''v'', BoolF (\<lambda>v fv. fv\<lparr>fvVerbose := v\<rparr>)),
      (''log-file'', StringF (\<lambda>v fv. fv\<lparr>fvLogFile := v\<rparr>)),
      (''log-max-mb'', FloatF),
      (''log-backups'', IntF (\<lambda>v fv. fv\<lparr>fvLogBackups := v\<rparr>)),
      (''buf-kb'', IntF (\<lambda>v fv. fv\<lparr>fvBufKB := v\<rparr>)),
      (''pool-size'', IntF (\<lambda>v fv. fv\<lparr>fvPoolSize := v\<rparr>)),
      (''fake-tls-domain'', StringF (\<lambda>v fv. fv\<lparr>fvFakeTLSDomain := v\<rparr>)),
      (''cfproxy-domain'', StringF (\<lambda>v fv. fv\<lparr>fvCfproxyDomain := v, fvProvidedDomain := True\<rparr>)),
      (''cfproxy-domains'', StringF (\<lambda>v fv. fv\<lparr>fvCfproxyDomains := v\<rparr>)),
      (''cfproxy-worker-domain'', StringF (\<lambda>v fv. fv\<lparr>fvWorkerDomains := v\<rparr>)),
      (''no-cfproxy'', BoolF (\<lambda>v fv. fv\<lparr>fvNoCfproxy := v\<rparr>)),
      (''cfproxy-priority'', BoolF (\<lambda>v fv. fv\<lparr>fvCfproxyPriority := v\<rparr>)),
      (''no-cfproxy-domain-refresh'', BoolF (\<lambda>v fv. fv\<lparr>fvNoDomainRefresh := v\<rparr>)),
      (''cfproxy-domains-url'', StringF (\<lambda>v fv. fv\<lparr>fvDomainsURL := v\<rparr>)),
      (''max-conns'', IntF (\<lambda>v fv. fv\<lparr>fvMaxConns := v\<rparr>)),
      (''dc-ip-default'', StringF (\<lambda>v fv. fv\<lparr>fvDcIPDefault := v\<rparr>)),
      (''dc-ip-default-pool'', StringF (\<lambda>v fv. fv\<lparr>fvDcIPDefaultPool := v\<rparr>)),
      (''pprof-listen'', StringF (\<lambda>v fv. fv\<lparr>fvPprofListen := v\<rparr>)),
      (''dc-ip'', StringF (\<lambda>v fv. fv\<lparr>fvDcIPs := fvDcIPs fv @ [v]\<rparr>)),
      (''dc-ip-pool'', StringF (\<lambda>v fv. fv\<lparr>fvDcIPPools := fvDcIPPools fv @ [v]\<rparr>))]"

text \<open>\<^verbatim>\<open>flag.Value.Set\<close>\<close>

fun setFlag :: "(string \<Rightarrow> bool) \<Rightarrow> flagSetter \<Rightarrow> string \<Rightarrow> flagValues \<Rightarrow> flagValues option" where
  "setFlag floatOK (BoolF put) v fv = map_option (\<lambda>b. put b fv) (strconv_ParseBool v)"
| "setFlag floatOK (IntF put) v fv = map_option (\<lambda>i. put i fv) (strconv_ParseInt0 v)"
| "setFlag floatOK FloatF v fv = (if floatOK v then Some fv else None)"
| "setFlag floatOK (StringF put) v fv = Some (put v fv)"

text \<open>The name and the value of an argument without its minus signs: the first \<^verbatim>\<open>=\<close> after its first character.\<close>

definition cutFlag :: "string \<Rightarrow> string \<times> string option" where
  "cutFlag s =
     (let rest = tl s; name = takeWhile (\<lambda>c. c \<noteq> CHR ''='') rest; after = dropWhile (\<lambda>c. c \<noteq> CHR ''='') rest
      in (hd s # name, if after = [] then None else Some (tl after)))"

text \<open>\<^verbatim>\<open>FlagSet.Parse\<close>; the arguments after the flags are dropped, as the program does not look at them.\<close>

function flagParse :: "(string \<Rightarrow> bool) \<Rightarrow> string list \<Rightarrow> flagValues \<Rightarrow> string + flagValues" where
  "flagParse floatOK args fv =
     (case args of
        [] \<Rightarrow> Inr fv
      | s # rest \<Rightarrow>
          (if length s < 2 \<or> hd s \<noteq> CHR ''-'' then Inr fv
           else if s = ''--'' then Inr fv
           else let body = (if s ! 1 = CHR ''-'' then drop 2 s else drop 1 s) in
             if body = [] \<or> hd body = CHR ''-'' \<or> hd body = CHR ''='' then Inl (''bad flag syntax: '' @ s)
             else let (name, value) = cutFlag body in
               case map_of flagTable name of
                 None \<Rightarrow>
                   Inl (if name = ''help'' \<or> name = ''h'' then ''flag: help requested''
                        else ''flag provided but not defined: -'' @ name)
               | Some setter \<Rightarrow>
                   (case (value, setter, rest) of
                      (Some v, _, _) \<Rightarrow>
                        (case setFlag floatOK setter v fv of
                           None \<Rightarrow> Inl (''invalid value for flag -'' @ name)
                         | Some fv' \<Rightarrow> flagParse floatOK rest fv')
                    | (None, BoolF put, _) \<Rightarrow> flagParse floatOK rest (put True fv)
                    | (None, _, []) \<Rightarrow> Inl (''flag needs an argument: -'' @ name)
                    | (None, _, v # rest') \<Rightarrow>
                        (case setFlag floatOK setter v fv of
                           None \<Rightarrow> Inl (''invalid value for flag -'' @ name)
                         | Some fv' \<Rightarrow> flagParse floatOK rest' fv'))))"
  by pat_completeness auto
termination
  by (relation "measure (\<lambda>(f, args, fv). length args)") auto

declare flagParse.simps [simp del]

text \<open>\<^verbatim>\<open>parseFlags\<close> on the arguments of the program.\<close>

definition parseArgs :: "(string \<Rightarrow> bool) \<Rightarrow> (string + bytes) \<Rightarrow> nat \<Rightarrow> (int \<Rightarrow> nat) \<Rightarrow> string list \<Rightarrow> string + Config" where
  "parseArgs floatOK random draw dcDraw args = parseFlags random draw dcDraw (flagParse floatOK args defaultFlags)"

subsection \<open>Numbers, read back\<close>

lemma digit_of_digit: "is_digit c \<Longrightarrow> digit_of c = Some (of_char c - 48) \<and> of_char c - 48 < (10 :: nat)"
  by (auto simp: digit_of_def is_digit_def char_between_def)

lemma uint_digits_decimal:
  "list_all is_digit s \<Longrightarrow> uint_digits 10 s n = Some (foldl (\<lambda>v c. 10 * v + (of_char c - 48)) n s)"
proof (induction s arbitrary: n)
  case (Cons c s)
  have "c \<noteq> CHR ''_''" using Cons.prems by (auto simp: is_digit_def char_between_def)
  then show ?case using Cons digit_of_digit [of c] by (simp add: not_le)
qed simp

lemma ParseUint0_digits:
  assumes "n < 2 ^ 64"
  shows "strconv_ParseUint0 (nat_digits n) = Some n"
proof (cases "n = 0")
  case True
  have "nat_digits 0 = ''0''" by code_simp
  then show ?thesis using True by (simp add: strconv_ParseUint0_def)
next
  case False
  note form = nat_digits_form [OF False]
  have ds: "list_all is_digit (nat_digits n)" "nat_digits n \<noteq> []" "hd (nat_digits n) \<noteq> CHR ''0''" using form by auto
  have "base_prefix (nat_digits n) = None"
    using ds(2,3) by (cases "nat_digits n" rule: list.exhaust) (auto simp: base_prefix_def split: list.splits)
  moreover have "CHR ''_'' \<notin> set (nat_digits n)"
    using ds(1) by (auto simp: list_all_iff is_digit_def char_between_def)
  moreover have "uint_digits 10 (nat_digits n) 0 = Some n"
    using uint_digits_decimal [OF ds(1), of 0] digits_value_nat_digits [of n] by (simp add: digits_value_def)
  ultimately show ?thesis using assms ds(2,3) by (simp add: strconv_ParseUint0_def)
qed

lemma ParseInt0_Itoa:
  assumes "- (2 ^ 63) \<le> i" and "i < 2 ^ 63"
  shows "strconv_ParseInt0 (strconv_Itoa i) = Some i"
proof (cases "i < 0")
  case True
  have "nat (- i) < 2 ^ 64" "nat (- i) \<le> 2 ^ 63" using assms(1) by (simp_all add: nat_less_iff nat_le_iff)
  then show ?thesis using True ParseUint0_digits [of "nat (- i)"] by (simp add: strconv_ParseInt0_def strconv_Itoa_def)
next
  case False
  have "nat i < 2 ^ 64" "nat i < 2 ^ 63" using assms(2) False by (simp_all add: nat_less_iff)
  moreover have "hd (nat_digits (nat i)) \<notin> {CHR ''-'', CHR ''+''}"
    using nat_digits_all [of "nat i"] by (cases "nat_digits (nat i)") (auto simp: is_digit_def char_between_def)
  ultimately show ?thesis using False ParseUint0_digits [of "nat i"]
    by (simp add: strconv_ParseInt0_def strconv_Itoa_def not_le)
qed

subsection \<open>Arguments that say what they set\<close>

definition boolText :: "bool \<Rightarrow> string" where
  "boolText b = (if b then ''true'' else ''false'')"

definition flagPairs :: "flagValues \<Rightarrow> (string \<times> string) list" where
  "flagPairs fv =
     [(''host'', fvHost fv), (''port'', strconv_Itoa (fvPort fv)), (''secret'', fvSecret fv),
      (''gen-secret'', boolText (fvGenSecret fv)), (''print-link'', boolText (fvPrintLink fv)),
      (''v'', boolText (fvVerbose fv)), (''log-file'', fvLogFile fv),
      (''log-backups'', strconv_Itoa (fvLogBackups fv)), (''buf-kb'', strconv_Itoa (fvBufKB fv)),
      (''pool-size'', strconv_Itoa (fvPoolSize fv)), (''fake-tls-domain'', fvFakeTLSDomain fv),
      (''cfproxy-domain'', fvCfproxyDomain fv), (''cfproxy-domains'', fvCfproxyDomains fv),
      (''cfproxy-worker-domain'', fvWorkerDomains fv), (''no-cfproxy'', boolText (fvNoCfproxy fv)),
      (''cfproxy-priority'', boolText (fvCfproxyPriority fv)),
      (''no-cfproxy-domain-refresh'', boolText (fvNoDomainRefresh fv)), (''cfproxy-domains-url'', fvDomainsURL fv),
      (''max-conns'', strconv_Itoa (fvMaxConns fv)), (''dc-ip-default'', fvDcIPDefault fv),
      (''dc-ip-default-pool'', fvDcIPDefaultPool fv), (''pprof-listen'', fvPprofListen fv)]
     @ map (Pair ''dc-ip'') (fvDcIPs fv) @ map (Pair ''dc-ip-pool'') (fvDcIPPools fv)"

definition flagText :: "string \<times> string \<Rightarrow> string" where
  "flagText p = ''--'' @ fst p @ ''='' @ snd p"

definition flagRange :: "flagValues \<Rightarrow> bool" where
  "flagRange fv \<longleftrightarrow>
     list_all (\<lambda>i. - (2 ^ 63) \<le> i \<and> i < 2 ^ 63) [fvPort fv, fvLogBackups fv, fvBufKB fv, fvPoolSize fv, fvMaxConns fv]"

definition plainName :: "string \<Rightarrow> bool" where
  "plainName name \<longleftrightarrow> name \<noteq> [] \<and> hd name \<noteq> CHR ''-'' \<and> CHR ''='' \<notin> set name"

lemma cutFlag_text: "plainName name \<Longrightarrow> cutFlag (name @ CHR ''='' # v) = (name, Some v)"
  by (cases name) (auto simp: cutFlag_def plainName_def takeWhile_append dropWhile_append)

lemma flagParse_step:
  assumes "plainName name" and "map_of flagTable name = Some setter" and "setFlag floatOK setter v fv = Some fv'"
  shows "flagParse floatOK (flagText (name, v) # rest) fv = flagParse floatOK rest fv'"
proof -
  from assms(1) obtain c cs where name: "name = c # cs" "c \<noteq> CHR ''-''" "c \<noteq> CHR ''=''"
    by (cases name) (auto simp: plainName_def)
  have "cutFlag (c # cs @ CHR ''='' # v) = (name, Some v)" using cutFlag_text [OF assms(1)] name(1) by simp
  then show ?thesis using assms(2,3) name(2,3)
    by (subst flagParse.simps) (simp add: flagText_def name(1))
qed

fun applyPairs :: "(string \<Rightarrow> bool) \<Rightarrow> (string \<times> string) list \<Rightarrow> flagValues \<Rightarrow> flagValues option" where
  "applyPairs floatOK [] fv = Some fv"
| "applyPairs floatOK ((name, v) # ps) fv =
     (case map_of flagTable name of
        None \<Rightarrow> None
      | Some setter \<Rightarrow> Option.bind (setFlag floatOK setter v fv) (applyPairs floatOK ps))"

lemma flagParse_pairs:
  "list_all (\<lambda>(name, v). plainName name) ps \<Longrightarrow> applyPairs floatOK ps fv = Some fv' \<Longrightarrow>
   flagParse floatOK (map flagText ps) fv = Inr fv'"
proof (induction ps arbitrary: fv)
  case Nil
  then show ?case by (simp add: flagParse.simps)
next
  case (Cons p ps)
  obtain name v where p: "p = (name, v)" by (cases p)
  with Cons.prems obtain setter fv1 where "map_of flagTable name = Some setter" "setFlag floatOK setter v fv = Some fv1"
    "applyPairs floatOK ps fv1 = Some fv'" "plainName name"
    by (auto split: option.splits simp: bind_eq_Some_conv)
  then show ?case using flagParse_step Cons.IH Cons.prems(1) p by simp
qed

lemma applyPairs_append:
  "applyPairs floatOK (ps @ qs) fv = Option.bind (applyPairs floatOK ps fv) (applyPairs floatOK qs)"
  by (induction ps arbitrary: fv) (auto split: option.split bind_split)

lemma applyPairs_multi:
  assumes "map_of flagTable name = Some (StringF put)"
  shows "applyPairs floatOK (map (Pair name) vs) fv = Some (fold put vs fv)"
  by (induction vs arbitrary: fv) (simp_all add: assms)

lemma lookup_strings:
  "map_of flagTable ''host'' = Some (StringF (\<lambda>v fv. fv\<lparr>fvHost := v\<rparr>))"
  "map_of flagTable ''secret'' = Some (StringF (\<lambda>v fv. fv\<lparr>fvSecret := v\<rparr>))"
  "map_of flagTable ''log-file'' = Some (StringF (\<lambda>v fv. fv\<lparr>fvLogFile := v\<rparr>))"
  "map_of flagTable ''fake-tls-domain'' = Some (StringF (\<lambda>v fv. fv\<lparr>fvFakeTLSDomain := v\<rparr>))"
  "map_of flagTable ''cfproxy-domain'' = Some (StringF (\<lambda>v fv. fv\<lparr>fvCfproxyDomain := v, fvProvidedDomain := True\<rparr>))"
  "map_of flagTable ''cfproxy-domains'' = Some (StringF (\<lambda>v fv. fv\<lparr>fvCfproxyDomains := v\<rparr>))"
  "map_of flagTable ''cfproxy-worker-domain'' = Some (StringF (\<lambda>v fv. fv\<lparr>fvWorkerDomains := v\<rparr>))"
  "map_of flagTable ''cfproxy-domains-url'' = Some (StringF (\<lambda>v fv. fv\<lparr>fvDomainsURL := v\<rparr>))"
  "map_of flagTable ''dc-ip-default'' = Some (StringF (\<lambda>v fv. fv\<lparr>fvDcIPDefault := v\<rparr>))"
  "map_of flagTable ''dc-ip-default-pool'' = Some (StringF (\<lambda>v fv. fv\<lparr>fvDcIPDefaultPool := v\<rparr>))"
  "map_of flagTable ''pprof-listen'' = Some (StringF (\<lambda>v fv. fv\<lparr>fvPprofListen := v\<rparr>))"
  "map_of flagTable ''dc-ip'' = Some (StringF (\<lambda>v fv. fv\<lparr>fvDcIPs := fvDcIPs fv @ [v]\<rparr>))"
  "map_of flagTable ''dc-ip-pool'' = Some (StringF (\<lambda>v fv. fv\<lparr>fvDcIPPools := fvDcIPPools fv @ [v]\<rparr>))"
  by (simp_all add: flagTable_def)

lemma lookup_others:
  "map_of flagTable ''port'' = Some (IntF (\<lambda>v fv. fv\<lparr>fvPort := v\<rparr>))"
  "map_of flagTable ''log-backups'' = Some (IntF (\<lambda>v fv. fv\<lparr>fvLogBackups := v\<rparr>))"
  "map_of flagTable ''buf-kb'' = Some (IntF (\<lambda>v fv. fv\<lparr>fvBufKB := v\<rparr>))"
  "map_of flagTable ''pool-size'' = Some (IntF (\<lambda>v fv. fv\<lparr>fvPoolSize := v\<rparr>))"
  "map_of flagTable ''max-conns'' = Some (IntF (\<lambda>v fv. fv\<lparr>fvMaxConns := v\<rparr>))"
  "map_of flagTable ''gen-secret'' = Some (BoolF (\<lambda>v fv. fv\<lparr>fvGenSecret := v\<rparr>))"
  "map_of flagTable ''print-link'' = Some (BoolF (\<lambda>v fv. fv\<lparr>fvPrintLink := v\<rparr>))"
  "map_of flagTable ''v'' = Some (BoolF (\<lambda>v fv. fv\<lparr>fvVerbose := v\<rparr>))"
  "map_of flagTable ''no-cfproxy'' = Some (BoolF (\<lambda>v fv. fv\<lparr>fvNoCfproxy := v\<rparr>))"
  "map_of flagTable ''cfproxy-priority'' = Some (BoolF (\<lambda>v fv. fv\<lparr>fvCfproxyPriority := v\<rparr>))"
  "map_of flagTable ''no-cfproxy-domain-refresh'' = Some (BoolF (\<lambda>v fv. fv\<lparr>fvNoDomainRefresh := v\<rparr>))"
  by (simp_all add: flagTable_def)

lemma ParseBool_text: "strconv_ParseBool (boolText b) = Some b"
  by (cases b) (simp_all add: strconv_ParseBool_def boolText_def)

lemma fold_dcIPs: "fold (\<lambda>v fv. fv\<lparr>fvDcIPs := fvDcIPs fv @ [v]\<rparr>) vs fv = fv\<lparr>fvDcIPs := fvDcIPs fv @ vs\<rparr>"
  and fold_dcIPPools: "fold (\<lambda>v fv. fv\<lparr>fvDcIPPools := fvDcIPPools fv @ [v]\<rparr>) vs fv = fv\<lparr>fvDcIPPools := fvDcIPPools fv @ vs\<rparr>"
  by (induction vs arbitrary: fv) simp_all

lemma applyPairs_flagPairs:
  assumes "flagRange fv"
  shows "applyPairs floatOK (flagPairs fv) defaultFlags = Some (fv\<lparr>fvProvidedDomain := True\<rparr>)"
  using assms
  by (cases fv) (simp add: flagPairs_def applyPairs_append lookup_strings lookup_others ParseBool_text ParseInt0_Itoa
      applyPairs_multi fold_dcIPs fold_dcIPPools flagRange_def defaultFlags_def)

lemma flagPairs_plain: "list_all (\<lambda>(name, v). plainName name) (flagPairs fv)"
  by (auto simp: flagPairs_def plainName_def list_all_iff)

subsection \<open>Properties\<close>

text \<open>
  C10. The command line says what it sets: when every option is given as \<^verbatim>\<open>--name=value\<close>, texts as
  they are, whole numbers in decimal and booleans as words, and the repeatable ones in their
  order, then the flag package returns exactly these values, whatever the texts hold, with
  each option in its own place; an option that is not declared is refused.
\<close>

theorem flagParse_roundtrip:
  assumes "flagRange fv"
  shows "flagParse floatOK (map flagText (flagPairs fv)) defaultFlags = Inr (fv\<lparr>fvProvidedDomain := True\<rparr>) \<and>
    (plainName name \<and> map_of flagTable name = None \<longrightarrow> isl (flagParse floatOK (flagText (name, v) # args) fv))"
proof -
  have "isl (flagParse floatOK (flagText (name, v) # args) fv)" if "plainName name" "map_of flagTable name = None"
  proof -
    from that(1) obtain c cs where name: "name = c # cs" "c \<noteq> CHR ''-''" "c \<noteq> CHR ''=''"
      by (cases name) (auto simp: plainName_def)
    have "cutFlag (c # cs @ CHR ''='' # v) = (name, Some v)" using cutFlag_text [OF that(1)] name(1) by simp
    then show ?thesis using that(2) name by (subst flagParse.simps) (simp add: flagText_def)
  qed
  then show ?thesis using flagParse_pairs [OF flagPairs_plain applyPairs_flagPairs [OF assms]] by blast
qed

theorem flagParse_roundtrip_witness:
  "flagParse (\<lambda>_. False) (map flagText (flagPairs (defaultFlags\<lparr>fvPort := -7, fvDcIPs := [''2:a=b'', ''--'']\<rparr>))) defaultFlags
     = Inr (defaultFlags\<lparr>fvPort := -7, fvDcIPs := [''2:a=b'', ''--''], fvProvidedDomain := True\<rparr>)"
proof -
  have "flagRange (defaultFlags\<lparr>fvPort := -7, fvDcIPs := [''2:a=b'', ''--'']\<rparr>)"
    by (simp add: flagRange_def defaultFlags_def defaultMaxConns_def)
  from flagParse_roundtrip [OF this] show ?thesis by simp
qed

end
