(* ===== verification/GoURL.thy ===== *)
theory GoURL
  imports GoNet GoStrings "HOL-Library.List_Lexorder" "HOL-Library.Char_ord" "HOL-Library.AList"
begin

text \<open>
  What the proxy uses of \<^verbatim>\<open>net/url\<close>: the escaping of query components, the parser and the printer of
  queries, and \<^verbatim>\<open>cacheBustURL\<close> of \<^verbatim>\<open>src/src/cfproxy_domains.go\<close>, which adds the time to the address of
  the domain list so that no cache answers. The parser and the printer of whole addresses are
  arguments. Queries have fewer parameters than the package's limit of ten thousand.
\<close>

subsection \<open>Escaping\<close>

definition unreserved :: "char \<Rightarrow> bool" where
  "unreserved c \<longleftrightarrow> is_lower c \<or> is_upper c \<or> is_digit c \<or> c \<in> {CHR ''-'', CHR ''_'', CHR ''.'', CHR ''~''}"

definition upper_hex :: "nat \<Rightarrow> char" where
  "upper_hex n = (if n < 10 then char_of (48 + n) else char_of (55 + n))"

definition escapeChar :: "char \<Rightarrow> string" where
  "escapeChar c =
     (if unreserved c then [c]
      else if c = CHR '' '' then ''+''
      else [CHR ''%'', upper_hex (of_char c div 16), upper_hex (of_char c mod 16)])"

definition url_QueryEscape :: "string \<Rightarrow> string" where
  "url_QueryEscape s = concat (map escapeChar s)"

text \<open>\<^verbatim>\<open>url.QueryUnescape\<close>: \<^term>\<open>None\<close> is the error of a percent sign without two hexadecimal digits.\<close>

fun url_QueryUnescape :: "string \<Rightarrow> string option" where
  "url_QueryUnescape [] = Some []"
| "url_QueryUnescape (c # s) =
     (if c = CHR ''%'' then
        (case s of
           h # l # s' \<Rightarrow>
             (case (hex_value h, hex_value l) of
                (Some a, Some b) \<Rightarrow> map_option (\<lambda>t. char_of (16 * a + b) # t) (url_QueryUnescape s')
              | _ \<Rightarrow> None)
         | _ \<Rightarrow> None)
      else map_option (\<lambda>t. (if c = CHR ''+'' then CHR '' '' else c) # t) (url_QueryUnescape s))"

lemma hex_value_upper: "n < 16 \<Longrightarrow> hex_value (upper_hex n) = Some n"
  by (auto simp: hex_value_def upper_hex_def Let_def)

lemma hex_halves: "of_char c div 16 < (16 :: nat)" "of_char c mod 16 < (16 :: nat)"
proof -
  have "(of_char c :: nat) < 16 * 16" using nat_of_char_less_256 [of c] by simp
  then show "of_char c div 16 < (16 :: nat)" by (simp only: less_mult_imp_div_less)
qed simp

lemma unescape_escapeChar: "url_QueryUnescape (escapeChar c @ s) = map_option (\<lambda>t. c # t) (url_QueryUnescape s)"
proof -
  have "c \<noteq> CHR ''%'' \<and> c \<noteq> CHR ''+''" if "unreserved c"
    using that by (auto simp: unreserved_def is_lower_def is_upper_def is_digit_def char_between_def)
  then show ?thesis
    by (cases "url_QueryUnescape s") (auto simp: escapeChar_def hex_value_upper hex_halves)
qed

lemma unescape_escape: "url_QueryUnescape (url_QueryEscape s) = Some s"
  by (induction s) (simp_all add: url_QueryEscape_def unescape_escapeChar)

subsection \<open>Queries\<close>

text \<open>\<^verbatim>\<open>url.Values\<close>, a map from keys to the lists of their values, as an association list with distinct keys.\<close>

type_synonym urlValues = "(string \<times> string list) list"

definition values_get :: "urlValues \<Rightarrow> string \<Rightarrow> string list" where
  "values_get v key = (case map_of v key of None \<Rightarrow> [] | Some vs \<Rightarrow> vs)"

definition values_Add :: "string \<Rightarrow> string \<Rightarrow> urlValues \<Rightarrow> urlValues" where
  "values_Add key x v = AList.update key (values_get v key @ [x]) v"

definition values_Set :: "string \<Rightarrow> string \<Rightarrow> urlValues \<Rightarrow> urlValues" where
  "values_Set key x v = AList.update key [x] v"

text \<open>
  \<^verbatim>\<open>url.ParseQuery\<close>: one parameter, and the loop over them. A parameter that does not parse is
  skipped; \<^verbatim>\<open>u.Query()\<close> drops the error.
\<close>

definition parseParam :: "string \<Rightarrow> urlValues \<Rightarrow> urlValues" where
  "parseParam p v =
     (if CHR '';'' \<in> set p \<or> p = [] then v
      else let key = takeWhile (\<lambda>c. c \<noteq> CHR ''='') p; x = drop 1 (dropWhile (\<lambda>c. c \<noteq> CHR ''='') p) in
           case (url_QueryUnescape key, url_QueryUnescape x) of
             (Some key', Some x') \<Rightarrow> values_Add key' x' v
           | _ \<Rightarrow> v)"

function parseQuery :: "string \<Rightarrow> urlValues \<Rightarrow> urlValues" where
  "parseQuery q v =
     (if q = [] then v
      else parseQuery (drop 1 (dropWhile (\<lambda>c. c \<noteq> CHR ''&'') q)) (parseParam (takeWhile (\<lambda>c. c \<noteq> CHR ''&'') q) v))"
  by auto
termination
proof (relation "measure (\<lambda>(q, v). length q)")
  show "((drop 1 (dropWhile (\<lambda>c. c \<noteq> CHR ''&'') q), parseParam (takeWhile (\<lambda>c. c \<noteq> CHR ''&'') q) v), q, v)
      \<in> measure (\<lambda>(q, v). length q)" if "q \<noteq> []" for q v
    using that length_dropWhile_le [of "\<lambda>c. c \<noteq> CHR ''&''" q] by (cases q) auto
qed simp

declare parseQuery.simps [simp del]

definition url_ParseQuery :: "string \<Rightarrow> urlValues" where
  "url_ParseQuery q = parseQuery q []"

definition encodeParam :: "string \<Rightarrow> string \<Rightarrow> string" where
  "encodeParam key x = url_QueryEscape key @ ''='' @ url_QueryEscape x"

text \<open>\<^verbatim>\<open>Values.Encode\<close>: in the order of the keys.\<close>

definition values_Encode :: "urlValues \<Rightarrow> string" where
  "values_Encode v = strings_Join (concat (map (\<lambda>(key, vs). map (encodeParam key) vs) (sort_key fst v))) ''&''"

subsection \<open>The address of the domain list\<close>

record goURL =
  urlScheme :: string
  urlOpaque :: string
  urlUser :: string
  urlHost :: string
  urlPath :: string
  urlRawPath :: string
  urlForceQuery :: bool
  urlRawQuery :: string
  urlFragment :: string

definition cacheBustQuery :: "int \<Rightarrow> string \<Rightarrow> string" where
  "cacheBustQuery now q = values_Encode (values_Set ''cb'' (strconv_Itoa now) (url_ParseQuery q))"

definition cacheBustURL ::
  "(string \<Rightarrow> goerror + goURL) \<Rightarrow> (goURL \<Rightarrow> string) \<Rightarrow> int \<Rightarrow> string \<Rightarrow> goerror + string" where
  "cacheBustURL parse toString now raw =
     (case parse raw of
        Inl err \<Rightarrow> Inl err
      | Inr u \<Rightarrow> Inr (toString (u\<lparr>urlRawQuery := cacheBustQuery now (urlRawQuery u)\<rparr>)))"

subsection \<open>Reading back what is printed\<close>

lemma unescaped_plain: "c \<in> {CHR ''&'', CHR '';'', CHR ''=''} \<Longrightarrow> c \<notin> set (url_QueryEscape s)"
proof -
  have digit: "upper_hex n \<notin> {CHR ''&'', CHR '';'', CHR ''=''}" if "n < 16" for n
    using hex_value_upper [OF that] by (auto simp: hex_value_def is_digit_def char_between_def Let_def split: if_splits)
  have "c \<notin> set (escapeChar d)" if "c \<in> {CHR ''&'', CHR '';'', CHR ''=''}" for d c
  proof -
    have "\<not> unreserved c" using that by (auto simp: unreserved_def is_lower_def is_upper_def is_digit_def char_between_def)
    then show ?thesis
      using that digit [OF hex_halves(1) [of d]] digit [OF hex_halves(2) [of d]] by (auto simp: escapeChar_def)
  qed
  then show "c \<in> {CHR ''&'', CHR '';'', CHR ''=''} \<Longrightarrow> c \<notin> set (url_QueryEscape s)" by (auto simp: url_QueryEscape_def)
qed

lemma parseParam_encode: "parseParam (encodeParam key x) v = values_Add key x v"
proof -
  have "CHR '';'' \<notin> set (encodeParam key x)" "encodeParam key x \<noteq> []"
    using unescaped_plain by (auto simp: encodeParam_def)
  moreover have "takeWhile (\<lambda>c. c \<noteq> CHR ''='') (encodeParam key x) = url_QueryEscape key"
    "dropWhile (\<lambda>c. c \<noteq> CHR ''='') (encodeParam key x) = CHR ''='' # url_QueryEscape x"
    unfolding encodeParam_def using unescaped_plain by (subst takeWhile_append2 dropWhile_append2; force)+
  ultimately show ?thesis by (simp add: parseParam_def unescape_escape Let_def)
qed

lemma parseQuery_Nil [simp]: "parseQuery [] v = v"
  by (simp add: parseQuery.simps [of "[]"])

lemma parseQuery_join:
  "list_all (\<lambda>p. p \<noteq> [] \<and> CHR ''&'' \<notin> set p) ps \<Longrightarrow> parseQuery (strings_Join ps ''&'') v = fold parseParam ps v"
proof (induction ps "''&''" arbitrary: v rule: strings_Join.induct)
  case 1
  then show ?case by simp
next
  case (2 s)
  then have s: "takeWhile (\<lambda>c. c \<noteq> CHR ''&'') s = s" "dropWhile (\<lambda>c. c \<noteq> CHR ''&'') s = []" "s \<noteq> []"
    by (auto simp: takeWhile_eq_all_conv dropWhile_eq_Nil_conv)
  show ?case by (subst strings_Join.simps, subst parseQuery.simps) (simp only: s, simp)
next
  case (3 s t ss)
  let ?q = "s @ ''&'' @ strings_Join (t # ss) ''&''"
  have "\<forall>c \<in> set s. c \<noteq> CHR ''&''" using 3(2) by auto
  then have "takeWhile (\<lambda>c. c \<noteq> CHR ''&'') ?q = s" "drop 1 (dropWhile (\<lambda>c. c \<noteq> CHR ''&'') ?q) = strings_Join (t # ss) ''&''"
    by (simp_all add: takeWhile_append2 dropWhile_append2)
  with 3 show ?case by (subst strings_Join.simps, subst parseQuery.simps) simp
qed

lemma values_get_Add: "values_get (values_Add key x v) k = (if k = key then values_get v k @ [x] else values_get v k)"
  by (simp add: values_get_def values_Add_def update_conv)

lemma values_get_Set: "values_get (values_Set key x v) k = (if k = key then [x] else values_get v k)"
  by (simp add: values_get_def values_Set_def update_conv)

lemma values_distinct:
  "distinct (map fst v) \<Longrightarrow> distinct (map fst (values_Add key x v))"
  "distinct (map fst v) \<Longrightarrow> distinct (map fst (values_Set key x v))"
  by (simp_all add: values_Add_def values_Set_def distinct_update)

lemma parseQuery_distinct: "distinct (map fst v) \<Longrightarrow> distinct (map fst (parseQuery q v))"
proof (induction q v rule: parseQuery.induct)
  case (1 q v)
  have "distinct (map fst (parseParam p v))" for p
    using 1(2) by (simp add: parseParam_def Let_def values_distinct split: option.splits)
  with 1 show ?case by (subst parseQuery.simps) simp
qed

lemma fold_Add: "values_get (fold (\<lambda>x. values_Add key x) xs v) k = values_get v k @ (if k = key then xs else [])"
  by (induction xs arbitrary: v) (simp_all add: values_get_Add)

lemma fold_values:
  "distinct (map fst as) \<Longrightarrow>
   values_get (fold (\<lambda>(key, xs) v. fold (\<lambda>x. values_Add key x) xs v) as v) k = values_get v k @ values_get as k"
proof (induction as arbitrary: v)
  case (Cons a as)
  obtain key xs where a: "a = (key, xs)" by fastforce
  then have "map_of as key = None" using Cons.prems by (simp add: map_of_eq_None_iff)
  then have "values_get as key = []" by (simp add: values_get_def)
  with Cons a show ?case by (auto simp: fold_Add) (auto simp: values_get_def)
qed (simp add: values_get_def)

lemma parse_Encode:
  assumes "distinct (map fst v)"
  shows "values_get (url_ParseQuery (values_Encode v)) k = values_get v k"
proof -
  let ?as = "sort_key fst v"
  let ?ps = "concat (map (\<lambda>(key, vs). map (encodeParam key) vs) ?as)"
  have "list_all (\<lambda>p. p \<noteq> [] \<and> CHR ''&'' \<notin> set p) ?ps"
    using unescaped_plain [of "CHR ''&''"] by (auto simp: list_all_iff encodeParam_def)
  then have "url_ParseQuery (values_Encode v) = fold parseParam ?ps []"
    by (simp add: url_ParseQuery_def values_Encode_def parseQuery_join)
  also have "fold parseParam (concat (map (\<lambda>(key, vs). map (encodeParam key) vs) as)) w =
      fold (\<lambda>(key, xs) v. fold (\<lambda>x. values_Add key x) xs v) as w" for as w
  proof (induction as arbitrary: w)
    case (Cons a as)
    have "fold (\<lambda>x. parseParam (encodeParam key x)) xs w = fold (\<lambda>x. values_Add key x) xs w" for key xs
      by (induction xs arbitrary: w) (simp_all add: parseParam_encode)
    with Cons show ?case by (simp add: split_beta fold_map comp_def)
  qed simp
  finally have parsed: "url_ParseQuery (values_Encode v) = fold (\<lambda>(key, xs) v. fold (\<lambda>x. values_Add key x) xs v) ?as []" .
  have d: "distinct (map fst ?as)" using assms by (simp add: distinct_map)
  then have "values_get (url_ParseQuery (values_Encode v)) k = values_get ?as k"
    using fold_values [OF d, of "[]" k] by (simp add: parsed values_get_def [of "[]"])
  moreover have "map_of ?as = map_of v" using map_of_inject_set [OF d assms] by simp
  ultimately show ?thesis by (simp add: values_get_def)
qed

subsection \<open>Properties\<close>

text \<open>
  C38. Adding the time to an address changes nothing else of its query: read back, the parameter
  \<^verbatim>\<open>cb\<close> has the time as its only value, whatever it had before, and every other parameter has its
  values in their order, with any characters in names and values. The parts of the address other
  than the query are passed on unchanged.
\<close>

theorem cacheBust_keeps_query:
  "values_get (url_ParseQuery (cacheBustQuery now q)) key =
     (if key = ''cb'' then [strconv_Itoa now] else values_get (url_ParseQuery q) key) \<and>
   cacheBustURL (\<lambda>_. Inr u) f now raw = Inr (f (u\<lparr>urlRawQuery := cacheBustQuery now (urlRawQuery u)\<rparr>))"
proof -
  have "distinct (map fst (url_ParseQuery q))" using parseQuery_distinct [of "[]" q] by (simp add: url_ParseQuery_def)
  then show ?thesis
    by (simp add: cacheBustQuery_def cacheBustURL_def parse_Encode values_distinct values_get_Set)
qed

end
