(* ===== verification/DomainRefresh.thy ===== *)
theory DomainRefresh
  imports FallbackDials GoURL
begin

text \<open>
  The periodic refresh of the Cloudflare domain pool, \<^verbatim>\<open>startCFProxyDomainRefresh\<close> of
  \<^verbatim>\<open>src/src/cfproxy_domains.go\<close>. The goroutine refreshes once when it starts and once for each
  tick it receives before the context is done: a list of rounds. A round holds the parser and the
  printer of addresses, the time, what the list server answers and the random draws of
  \<^verbatim>\<open>setCFProxyDomains\<close>.
\<close>

record refreshRound =
  rrParse :: "string \<Rightarrow> goerror + goURL"
  rrString :: "goURL \<Rightarrow> string"
  rrNow :: int
  rrGet :: "string \<Rightarrow> goerror + int \<times> string"
  rrDraw :: nat
  rrDcDraw :: "int \<Rightarrow> nat"

definition rrCacheBust :: "refreshRound \<Rightarrow> string \<Rightarrow> goerror + string" where
  "rrCacheBust r = cacheBustURL (rrParse r) (rrString r) (rrNow r)"

definition refresh :: "refreshRound \<Rightarrow> Config \<Rightarrow> Config" where
  "refresh r cfg =
     (case fetchCFProxyDomains (rrCacheBust r) (rrGet r) (FallbackCFProxyDomainsURL cfg) of
        Inl err \<Rightarrow> cfg
      | Inr domains \<Rightarrow> setCFProxyDomains (rrDraw r) (rrDcDraw r) domains cfg)"

definition refreshEnabled :: "Config \<Rightarrow> bool" where
  "refreshEnabled cfg \<longleftrightarrow>
     \<not> (\<not> FallbackCFProxy cfg \<or> \<not> FallbackCFProxyRefresh cfg \<or> FallbackCFProxyUserDomain cfg \<or>
        strings_TrimSpace (FallbackCFProxyDomainsURL cfg) = [])"

definition startCFProxyDomainRefresh :: "refreshRound list \<Rightarrow> Config \<Rightarrow> Config" where
  "startCFProxyDomainRefresh rounds cfg = (if refreshEnabled cfg then fold refresh rounds cfg else cfg)"

subsection \<open>The pool that is installed\<close>

lemma appendUnique_normalized:
  "distinct (dst @ ds) \<Longrightarrow> list_all (\<lambda>d. d \<noteq> [] \<and> normalizeCFProxyDomain d = d) ds \<Longrightarrow>
   appendUniqueDomains dst ds = dst @ ds"
  by (induction dst ds rule: appendUniqueDomains.induct) (auto simp: Let_def list_ex_iff)

lemma not_likely_Nil: "\<not> isLikelyDomain []"
  by (simp add: isLikelyDomain_def)

lemma setCFProxyDomains_good:
  assumes "goodPool ds" and "ds \<noteq> []"
  shows "FallbackCFProxyDomains (setCFProxyDomains draw dcDraw ds cfg) = ds"
proof -
  have "list_all (\<lambda>d. d \<noteq> [] \<and> normalizeCFProxyDomain d = d) ds" and "distinct ds"
    using assms(1) not_likely_Nil by (auto simp: goodPool_def list_all_iff)
  then have "appendUniqueDomains [] ds = ds" using appendUnique_normalized [of "[]" ds] by simp
  then show ?thesis using assms(2) by (simp add: setCFProxyDomains_def Let_def)
qed

lemma setCFProxyDomains_keeps:
  "FallbackCFProxyDomainsURL (setCFProxyDomains draw dcDraw ds cfg) = FallbackCFProxyDomainsURL cfg"
  "fallbackDials (setCFProxyDomains draw dcDraw ds cfg) = fallbackDials cfg"
  "cfworkerFailUntil (setCFProxyDomains draw dcDraw ds cfg) = cfworkerFailUntil cfg"
  by (simp_all add: setCFProxyDomains_def Let_def)

lemma fetched_good:
  assumes "fetchCFProxyDomains cacheBust get address = Inr pool"
  shows "goodPool pool \<and> 3 \<le> length pool"
  using assms goodPool_lines
  by (auto simp: fetchCFProxyDomains_def Let_def defaultCFProxyRefreshMinValidDomains_def split: sum.splits if_splits)

text \<open>
  What an operator expects of the refresh: the pool is the answer of the last round that
  brought one, and the configured pool before that.
\<close>

definition lastFetched :: "string \<Rightarrow> refreshRound list \<Rightarrow> string list \<Rightarrow> string list" where
  "lastFetched address rounds pool =
     fold (\<lambda>r pool. case fetchCFProxyDomains (rrCacheBust r) (rrGet r) address of Inl e \<Rightarrow> pool | Inr ds \<Rightarrow> ds)
       rounds pool"

definition refreshKeeps :: "Config \<Rightarrow> Config \<Rightarrow> bool" where
  "refreshKeeps cfg cfg' \<longleftrightarrow>
     fallbackDials cfg' = fallbackDials cfg \<and> cfworkerFailUntil cfg' = cfworkerFailUntil cfg \<and>
     FallbackCFProxyDomainsURL cfg' = FallbackCFProxyDomainsURL cfg"

lemma refresh_step:
  "refreshKeeps cfg (refresh r cfg) \<and>
   FallbackCFProxyDomains (refresh r cfg)
     = lastFetched (FallbackCFProxyDomainsURL cfg) [r] (FallbackCFProxyDomains cfg)"
proof (cases "fetchCFProxyDomains (rrCacheBust r) (rrGet r) (FallbackCFProxyDomainsURL cfg)")
  case (Inl e)
  then show ?thesis by (simp add: refresh_def lastFetched_def refreshKeeps_def)
next
  case (Inr ds)
  then have "goodPool ds" "ds \<noteq> []" using fetched_good by fastforce+
  then show ?thesis using Inr
    by (simp add: refresh_def lastFetched_def refreshKeeps_def setCFProxyDomains_keeps setCFProxyDomains_good)
qed

lemma refresh_rounds:
  "refreshKeeps cfg (fold refresh rounds cfg) \<and>
   FallbackCFProxyDomains (fold refresh rounds cfg)
     = lastFetched (FallbackCFProxyDomainsURL cfg) rounds (FallbackCFProxyDomains cfg)"
proof (induction rounds arbitrary: cfg)
  case Nil
  then show ?case by (simp add: lastFetched_def refreshKeeps_def)
next
  case (Cons r rounds)
  have "lastFetched a (r # rounds) p = lastFetched a rounds (lastFetched a [r] p)" for a p
    by (simp add: lastFetched_def)
  then show ?case using Cons.IH [of "refresh r cfg"] refresh_step [of cfg r] by (simp add: refreshKeeps_def)
qed

lemma lastFetched_cases:
  "lastFetched address rounds pool = pool \<or>
   goodPool (lastFetched address rounds pool) \<and> 3 \<le> length (lastFetched address rounds pool)"
proof (induction rounds rule: rev_induct)
  case Nil
  then show ?case by (simp add: lastFetched_def)
next
  case (snoc r rounds)
  have "lastFetched address (rounds @ [r]) pool =
          (case fetchCFProxyDomains (rrCacheBust r) (rrGet r) address of
             Inl e \<Rightarrow> lastFetched address rounds pool | Inr ds \<Rightarrow> ds)"
    unfolding lastFetched_def by simp
  then show ?case using snoc fetched_good by (auto split: sum.splits)
qed

text \<open>
  C37. The refresh installs what it fetched and nothing else: however often it runs and
  whatever the list server answers, the pool is the one of the last successful fetch, or the
  configured one; a fetched pool has at least three plausible, distinct names; a pool the user
  has chosen is never replaced; and the dials under way and the worker cooldowns stay.
\<close>

theorem refresh_installs_last_fetch:
  "FallbackCFProxyDomains (startCFProxyDomainRefresh rounds cfg) =
     (if FallbackCFProxy cfg \<and> FallbackCFProxyRefresh cfg \<and> \<not> FallbackCFProxyUserDomain cfg
         \<and> strings_TrimSpace (FallbackCFProxyDomainsURL cfg) \<noteq> []
      then lastFetched (FallbackCFProxyDomainsURL cfg) rounds (FallbackCFProxyDomains cfg)
      else FallbackCFProxyDomains cfg) \<and>
   (FallbackCFProxyDomains (startCFProxyDomainRefresh rounds cfg) = FallbackCFProxyDomains cfg \<or>
    goodPool (FallbackCFProxyDomains (startCFProxyDomainRefresh rounds cfg)) \<and>
    3 \<le> length (FallbackCFProxyDomains (startCFProxyDomainRefresh rounds cfg))) \<and>
   fallbackDials (startCFProxyDomainRefresh rounds cfg) = fallbackDials cfg \<and>
   cfworkerFailUntil (startCFProxyDomainRefresh rounds cfg) = cfworkerFailUntil cfg"
  using refresh_rounds [of cfg rounds] lastFetched_cases
  by (simp add: startCFProxyDomainRefresh_def refreshEnabled_def refreshKeeps_def)

end
