(* ===== verification/StatsSummary.thy ===== *)
theory StatsSummary
  imports ProxyTypes
begin

text \<open>
  The line of statistics that the program logs: \<^verbatim>\<open>Stats.summary\<close> of \<^verbatim>\<open>src/src/types.go\<close> with
  \<^verbatim>\<open>humanBytes\<close> and \<^verbatim>\<open>formatFloat\<close> of \<^verbatim>\<open>src/src/utils.go\<close>. The floating point numbers that occur are
  an integer, rounded to the 53 bits of a \<^verbatim>\<open>float64\<close>, divided by a power of 1024, which is exact;
  so such a number is kept as that integer and the exponent.
\<close>

subsection \<open>Floating point\<close>

text \<open>Division with rounding to the nearest, and to the even one of two nearest.\<close>

definition round_div :: "nat \<Rightarrow> nat \<Rightarrow> nat" where
  "round_div a b =
     (let q = a div b; r = a mod b
      in if 2 * r > b \<or> (2 * r = b \<and> odd q) then q + 1 else q)"

fun bit_len :: "nat \<Rightarrow> nat" where
  "bit_len n = (if n = 0 then 0 else 1 + bit_len (n div 2))"

declare bit_len.simps [simp del]

text \<open>\<^verbatim>\<open>float64(n)\<close>\<close>

definition float64_of_int :: "int \<Rightarrow> int" where
  "float64_of_int n =
     (let a = nat \<bar>n\<bar>; e = bit_len a - 53
      in sgn n * int (round_div a (2 ^ e) * 2 ^ e))"

text \<open>\<^verbatim>\<open>fmt.Sprintf("%.1f", v)\<close> for \<open>v = m / 1024 ^ u\<close>.\<close>

definition formatFloat :: "int \<Rightarrow> nat \<Rightarrow> string" where
  "formatFloat m u =
     (let t = round_div (10 * nat \<bar>m\<bar>) (1024 ^ u)
      in (if m < 0 then ''-'' else []) @ nat_digits (t div 10) @ ''.'' @ nat_digits (t mod 10))"

subsection \<open>Units\<close>

definition units :: "string list" where
  "units = [''B'', ''KB'', ''MB'', ''GB'', ''TB'']"

text \<open>The loop: \<open>u\<close> divisions by 1024 have been done.\<close>

function scaleUnit :: "int \<Rightarrow> nat \<Rightarrow> nat" where
  "scaleUnit m u =
     (if \<bar>m\<bar> \<ge> 1024 * 1024 ^ u \<and> u < length units - 1 then scaleUnit m (u + 1) else u)"
  by pat_completeness auto
termination
  by (relation "measure (\<lambda>(m, u). length units - u)") auto

declare scaleUnit.simps [simp del]

definition humanBytes :: "int \<Rightarrow> string" where
  "humanBytes n =
     (let m = float64_of_int n; u = scaleUnit m 0
      in formatFloat m u @ units ! u)"

definition summary :: "Stats \<Rightarrow> string" where
  "summary s =
     (let hits = poolHits s; misses = poolMisses s; poolTotal = hits + misses;
          poolS = (if poolTotal > 0 then strconv_Itoa hits @ ''/'' @ strconv_Itoa poolTotal else ''n/a'')
      in ''total='' @ strconv_Itoa (connectionsTotal s) @ '' active='' @ strconv_Itoa (connectionsActive s)
       @ '' ws='' @ strconv_Itoa (connectionsWS s) @ '' tcp_fb='' @ strconv_Itoa (connectionsTCP s)
       @ '' cf='' @ strconv_Itoa (connectionsCF s) @ '' front='' @ strconv_Itoa (connectionsFront s)
       @ '' bad='' @ strconv_Itoa (connectionsBad s) @ '' err='' @ strconv_Itoa (wsErrors s)
       @ '' pool='' @ poolS @ '' up='' @ humanBytes (bytesUp s) @ '' down='' @ humanBytes (bytesDown s)
       @ '' worker_pool='' @ strconv_Itoa (workerPoolHits s) @ ''/''
       @ strconv_Itoa (workerPoolHits s + workerPoolMisses s))"

subsection \<open>Facts\<close>

lemma round_div_error: "0 < b \<Longrightarrow> 2 * \<bar>int a - int (round_div a b * b)\<bar> \<le> int b"
proof -
  assume b: "0 < b"
  define q r where "q = a div b" and "r = a mod b"
  have a: "int a = int q * int b + int r" and r: "r < b"
    using b by (simp_all add: q_def r_def flip: of_nat_mult of_nat_add)
  show ?thesis
  proof (cases "2 * r > b \<or> (2 * r = b \<and> odd q)")
    case True
    then have "round_div a b = q + 1" by (simp add: round_div_def q_def r_def Let_def)
    then have e: "int a - int (round_div a b * b) = int r - int b" by (simp add: a algebra_simps)
    moreover have "b \<le> 2 * r" using True by auto
    ultimately show ?thesis using r unfolding e by (simp add: abs_if)
  next
    case False
    then have "round_div a b = q" by (auto simp: round_div_def q_def r_def Let_def)
    then have e: "int a - int (round_div a b * b) = int r" by (simp add: a algebra_simps)
    moreover have "2 * r \<le> b" using False by auto
    ultimately show ?thesis unfolding e by linarith
  qed
qed

lemma bit_len_le: "n < 2 ^ k \<Longrightarrow> bit_len n \<le> k"
proof (induction n arbitrary: k rule: bit_len.induct)
  case (1 n)
  show ?case
  proof (cases "n = 0")
    case True
    then show ?thesis by (simp add: bit_len.simps)
  next
    case False
    then obtain j where k: "k = Suc j" using 1(2) by (cases k) auto
    then have "n div 2 < 2 ^ j" using 1(2) by auto
    then show ?thesis using 1(1) [OF False] False k by (simp add: bit_len.simps [of n])
  qed
qed

lemma float64_exact: "\<bar>n\<bar> < 2 ^ 53 \<Longrightarrow> float64_of_int n = n"
proof -
  assume "\<bar>n\<bar> < 2 ^ 53"
  then have "nat \<bar>n\<bar> < 2 ^ 53" by (simp add: nat_less_iff)
  then have "bit_len (nat \<bar>n\<bar>) - 53 = 0" using bit_len_le by simp
  then show ?thesis by (simp add: float64_of_int_def round_div_def sgn_if)
qed

lemma scaleUnit_range:
  "u \<le> 4 \<Longrightarrow> (u = 0 \<or> 1024 ^ u \<le> \<bar>m\<bar>) \<Longrightarrow>
   scaleUnit m u \<le> 4 \<and> (scaleUnit m u = 0 \<or> 1024 ^ scaleUnit m u \<le> \<bar>m\<bar>) \<and>
   (scaleUnit m u = 4 \<or> \<bar>m\<bar> < 1024 ^ (scaleUnit m u + 1))"
proof (induction m u rule: scaleUnit.induct)
  case (1 m u)
  show ?case
  proof (cases "\<bar>m\<bar> \<ge> 1024 * 1024 ^ u \<and> u < length units - 1")
    case True
    then have "scaleUnit m u = scaleUnit m (u + 1)" "u + 1 \<le> 4" "1024 ^ (u + 1) \<le> \<bar>m\<bar>"
      by (auto simp: scaleUnit.simps [of m u] units_def)
    then show ?thesis using 1(1) [OF True] by simp
  next
    case False
    then have "scaleUnit m u = u" by (subst scaleUnit.simps) auto
    then show ?thesis using False 1(2,3) by (auto simp: units_def)
  qed
qed

text \<open>
  The amounts in the log are right to the digit: for a count of less than 2 to the 53 bytes
  the number shown, with one decimal, differs by at most half of its last digit from the count
  in the unit shown, and the unit is the largest in which the count is at least one, up to
  terabytes.
\<close>

theorem humanBytes_accurate:
  assumes "0 \<le> n" and "n < 2 ^ 53"
  shows "\<exists>t u. humanBytes n = nat_digits (t div 10) @ ''.'' @ nat_digits (t mod 10) @ units ! u \<and>
    2 * \<bar>10 * n - int t * 1024 ^ u\<bar> \<le> 1024 ^ u \<and>
    u \<le> 4 \<and> (u = 0 \<or> 1024 ^ u \<le> n) \<and> (u = 4 \<or> n < 1024 ^ (u + 1))"
proof -
  define u where "u = scaleUnit n 0"
  define t where "t = round_div (10 * nat n) (1024 ^ u)"
  have "humanBytes n = nat_digits (t div 10) @ ''.'' @ nat_digits (t mod 10) @ units ! u"
    using assms float64_exact [of n] by (simp add: humanBytes_def formatFloat_def u_def t_def Let_def)
  moreover have "2 * \<bar>10 * n - int t * 1024 ^ u\<bar> \<le> 1024 ^ u"
    using round_div_error [of "1024 ^ u" "10 * nat n"] assms(1) by (simp add: t_def)
  moreover have "u \<le> 4 \<and> (u = 0 \<or> 1024 ^ u \<le> n) \<and> (u = 4 \<or> n < 1024 ^ (u + 1))"
    using scaleUnit_range [of 0 n] assms(1) by (simp add: u_def)
  ultimately show ?thesis by blast
qed

text \<open>
  Rounding happens after the unit is chosen: a byte less than a megabyte is shown as 1024.0KB.
\<close>

theorem humanBytes_accurate_witness:
  "humanBytes 1536 = ''1.5KB'' \<and> humanBytes 1048575 = ''1024.0KB'' \<and>
   (\<exists>t u. humanBytes 1536 = nat_digits (t div 10) @ ''.'' @ nat_digits (t mod 10) @ units ! u \<and> u \<le> 4)"
proof -
  have unit: "scaleUnit 1536 0 = 1" "scaleUnit 1048575 0 = 1" by (simp_all add: scaleUnit.simps units_def)
  have digits: "nat_digits 1 = ''1''" "nat_digits 5 = ''5''" "nat_digits 0 = ''0''" "nat_digits 1024 = ''1024''"
    by code_simp+
  have round: "round_div 15360 1024 = 15" "round_div 10485750 1024 = 10240" by (simp_all add: round_div_def)
  have "humanBytes 1536 = ''1.5KB''" "humanBytes 1048575 = ''1024.0KB''"
    using unit digits round by (simp_all add: humanBytes_def float64_exact units_def formatFloat_def)
  moreover have "\<exists>t u. humanBytes 1536 = nat_digits (t div 10) @ ''.'' @ nat_digits (t mod 10) @ units ! u \<and> u \<le> 4"
    using humanBytes_accurate [of 1536] by auto
  ultimately show ?thesis by blast
qed

end
