(* ===== verification/Progress.thy ===== *)
theory Progress
  imports Prelude
begin

text \<open>
  Concurrent code that must come to an end. There are the steps that may happen, those among
  them that the program takes by itself, a state that is to be reached, and a count of the
  work that is left. When no step adds work, the program's own steps do some of it, and one of
  them is possible until the goal is reached, then every run contains only so many own steps,
  and whatever happens in between, the program is never stuck before the goal.
\<close>

inductive run :: "('s \<Rightarrow> 's \<Rightarrow> bool) \<Rightarrow> 's \<Rightarrow> 's list \<Rightarrow> bool" for R where
  run_Nil: "run R s []"
| run_Cons: "R s t \<Longrightarrow> run R t ts \<Longrightarrow> run R s (t # ts)"

inductive_cases run_ConsE [elim!]: "run R s (t # ts)"

definition run_end :: "'s \<Rightarrow> 's list \<Rightarrow> 's" where
  "run_end s ts = (if ts = [] then s else last ts)"

lemma run_end_simps [simp]: "run_end s [] = s" "run_end s (t # ts) = run_end t ts"
  by (simp_all add: run_end_def)

text \<open>The number of steps of a run that are of the given kind.\<close>

fun steps_of :: "('s \<Rightarrow> 's \<Rightarrow> bool) \<Rightarrow> 's \<Rightarrow> 's list \<Rightarrow> nat" where
  "steps_of own s [] = 0"
| "steps_of own s (t # ts) = (if own s t then 1 else 0) + steps_of own t ts"

lemma run_mono: "run own s ts \<Longrightarrow> (\<And>s t. own s t \<Longrightarrow> R s t) \<Longrightarrow> run R s ts"
  by (induction rule: run.induct) (auto intro: run.intros)

text \<open>
  The work left to the goroutines of a map, one for each key: the sum over them. A step of one
  of them, its start or its end, changes the sum by the difference.
\<close>

definition map_left :: "('p \<Rightarrow> nat) \<Rightarrow> ('k \<rightharpoonup> 'p) \<Rightarrow> nat" where
  "map_left f m = (\<Sum>k \<in> dom m. f (the (m k)))"

lemma map_left_empty [simp]: "map_left f Map.empty = 0"
  by (simp add: map_left_def)

lemma map_left_upd:
  assumes "finite (dom m)"
  shows "map_left f (m(k := x)) + (case m k of None \<Rightarrow> 0 | Some pc \<Rightarrow> f pc) =
    map_left f m + (case x of None \<Rightarrow> 0 | Some pc \<Rightarrow> f pc)"
proof -
  have split: "map_left f m' = (case m' k of None \<Rightarrow> 0 | Some pc \<Rightarrow> f pc) + (\<Sum>j \<in> dom m' - {k}. f (the (m' j)))"
    if "finite (dom m')" for m' :: "'a \<rightharpoonup> 'b"
    using that by (cases "m' k") (auto simp: map_left_def sum.remove [of _ k] domI domIff intro!: sum.cong)
  have rest: "(\<Sum>j \<in> dom (m(k := x)) - {k}. f (the ((m(k := x)) j))) = (\<Sum>j \<in> dom m - {k}. f (the (m j)))"
    by (rule sum.cong) auto
  have "finite (dom (m(k := x)))" using assms by (simp add: dom_fun_upd)
  from split [OF this] split [OF assms] rest show ?thesis by simp
qed

lemma map_left_max: "(\<And>pc. f pc \<le> n) \<Longrightarrow> map_left f m \<le> n * card (dom m)"
  using sum_bounded_above [of "dom m" "\<lambda>k. f (the (m k))" n] by (simp add: map_left_def mult.commute)

text \<open>Several systems side by side: one of them takes a step.\<close>

definition one_moves :: "('s \<Rightarrow> 's \<Rightarrow> bool) \<Rightarrow> 's list \<Rightarrow> 's list \<Rightarrow> bool" where
  "one_moves R ss ss' \<longleftrightarrow> (\<exists>i < length ss. \<exists>t. R (ss ! i) t \<and> ss' = ss[i := t])"

lemma one_movesE:
  assumes "one_moves R ss ss'"
  obtains xs s ys t where "ss = xs @ s # ys" and "R s t" and "ss' = xs @ t # ys"
proof -
  from assms obtain i t where i: "i < length ss" "R (ss ! i) t" "ss' = ss[i := t]" by (auto simp: one_moves_def)
  show ?thesis
    by (rule that [of "take i ss" "ss ! i" "drop (Suc i) ss" t])
      (use i in \<open>simp_all add: id_take_nth_drop [symmetric] upd_conv_take_nth_drop\<close>)
qed

lemma one_movesI: "R s t \<Longrightarrow> one_moves R (xs @ s # ys) (xs @ t # ys)"
  unfolding one_moves_def by (intro exI [of _ "length xs"] conjI exI [of _ t]) simp_all

lemma run_length: "run (one_moves R) ss tss \<Longrightarrow> length (run_end ss tss) = length ss"
  by (induction rule: run.induct) (auto simp: one_moves_def)

locale measured_system =
  fixes R :: "'s \<Rightarrow> 's \<Rightarrow> bool"
    and own :: "'s \<Rightarrow> 's \<Rightarrow> bool"
    and good :: "'s \<Rightarrow> bool"
    and goal :: "'s \<Rightarrow> bool"
    and left :: "'s \<Rightarrow> nat"
  assumes own_R: "own s t \<Longrightarrow> R s t"
    and keeps: "good s \<Longrightarrow> R s t \<Longrightarrow> good t"
    and lasts: "good s \<Longrightarrow> R s t \<Longrightarrow> left t \<le> left s"
    and works: "good s \<Longrightarrow> own s t \<Longrightarrow> left t < left s"
    and enabled: "good s \<Longrightarrow> \<not> goal s \<Longrightarrow> \<exists>t. own s t"
begin

lemma run_good: "run R s ts \<Longrightarrow> good s \<Longrightarrow> good (run_end s ts)"
  by (induction rule: run.induct) (auto intro: keeps)

lemma run_bounded: "run R s ts \<Longrightarrow> good s \<Longrightarrow> steps_of own s ts + left (run_end s ts) \<le> left s"
proof (induction rule: run.induct)
  case (run_Cons s t ts)
  then show ?case using keeps [of s t] lasts [of s t] works [of s t] by auto
qed simp

lemma reaches_goal:
  assumes "good s"
  shows "\<exists>ts. run own s ts \<and> goal (run_end s ts)"
  using assms
proof (induction "left s" arbitrary: s rule: less_induct)
  case less
  show ?case
  proof (cases "goal s")
    case True
    then show ?thesis by (intro exI [of _ "[]"]) (simp add: run_Nil)
  next
    case False
    then obtain t where t: "own s t" using enabled less.prems by blast
    then obtain ts where "run own t ts" "goal (run_end t ts)"
      using less.hyps [OF works [OF less.prems t] keeps [OF less.prems own_R [OF t]]] by blast
    then show ?thesis using t by (intro exI [of _ "t # ts"]) (simp add: run_Cons)
  qed
qed

lemma comes_to_goal:
  assumes "good s"
  shows "(\<exists>ts. run own s ts \<and> goal (run_end s ts)) \<and>
    (\<forall>ts. run R s ts \<longrightarrow> steps_of own s ts \<le> left s \<and> (goal (run_end s ts) \<or> (\<exists>t. own (run_end s ts) t)))"
  using reaches_goal [OF assms] run_bounded [OF _ assms] enabled [OF run_good [OF _ assms]] by fastforce

text \<open>Systems side by side are one such system, and its goal is that all of them have reached theirs.\<close>

lemma side_by_side:
  "measured_system (one_moves R) (one_moves own) (list_all good) (list_all goal) (\<lambda>ss. sum_list (map left ss))"
proof
  fix ss ss' :: "'s list"
  show "one_moves own ss ss' \<Longrightarrow> one_moves R ss ss'" by (auto simp: one_moves_def intro: own_R)
  show "list_all good ss \<Longrightarrow> one_moves R ss ss' \<Longrightarrow> list_all good ss'" by (erule one_movesE) (auto intro: keeps)
  show "list_all good ss \<Longrightarrow> one_moves R ss ss' \<Longrightarrow> sum_list (map left ss') \<le> sum_list (map left ss)"
    by (erule one_movesE) (auto dest: lasts)
  show "list_all good ss \<Longrightarrow> one_moves own ss ss' \<Longrightarrow> sum_list (map left ss') < sum_list (map left ss)"
    by (erule one_movesE) (auto dest: works)
  show "\<exists>ss'. one_moves own ss ss'" if "list_all good ss" "\<not> list_all goal ss"
  proof -
    from that(2) obtain s where "s \<in> set ss" "\<not> goal s" by (auto simp: list_all_iff)
    with that(1) obtain t where "own s t" using enabled by (auto simp: list_all_iff)
    with \<open>s \<in> set ss\<close> show ?thesis by (metis one_movesI split_list)
  qed
qed

end

end
