(* ===== verification/PoolShutdown.thy ===== *)
theory PoolShutdown
  imports WSPool Progress
begin

text \<open>
  The end of the WebSocket pool: \<^verbatim>\<open>Close\<close> of \<^verbatim>\<open>src/src/pool.go\<close> waits for the refilling goroutines and
  for the goroutine that rotates the pool, so that it returns only if they end.
\<close>

subsection \<open>The rotating goroutine\<close>

text \<open>The loop that \<^verbatim>\<open>warmup\<close> starts: a tick, with the clock and the keys of the pool, or the end of the context.\<close>

datatype rotateEvent = PoolDone | RotateTick instant instant "wsPoolKey list"

text \<open>Whether it has ended, the connections it has closed, the refills it has started, and the pool.\<close>

fun rotateLoop ::
  "Config \<Rightarrow> rotateEvent list \<Rightarrow> wsPool \<Rightarrow> bool \<times> pooledWS list \<times> wsPoolKey list \<times> wsPool" where
  "rotateLoop cfg [] p = (False, [], [], p)"
| "rotateLoop cfg (PoolDone # es) p = (True, [], [], p)"
| "rotateLoop cfg (RotateTick now now' keys # es) p =
     (case rotate_keys cfg now now' keys p of
        (expired, started, p1) \<Rightarrow>
          (case rotateLoop cfg es p1 of
             (ended, expired', started', p2) \<Rightarrow> (ended, expired @ expired', started @ started', p2)))"

subsection \<open>Steps of a closed pool\<close>

text \<open>A refilling goroutine has moved.\<close>

definition refill_moves :: "Config \<Rightarrow> poolSys \<Rightarrow> poolSys \<Rightarrow> bool" where
  "refill_moves cfg s t \<longleftrightarrow> pool_step cfg s t \<and> refillers t \<noteq> refillers s"

fun refillLeft :: "refillPC \<Rightarrow> nat" where
  "refillLeft (Check d) = 2"
| "refillLeft (Dialling d) = 3"
| "refillLeft (HasConn d c) = 2"
| "refillLeft (HasErr d) = 2"
| "refillLeft Leaving = 1"

definition moves_on :: "(wsPoolKey \<rightharpoonup> refillPC) \<Rightarrow> (wsPoolKey \<rightharpoonup> refillPC) \<Rightarrow> bool" where
  "moves_on m m' \<longleftrightarrow>
     (\<exists>key pc. m key = Some pc \<and>
        (m' = m(key := None) \<or> (\<exists>pc'. m' = m(key \<mapsto> pc') \<and> refillLeft pc' < refillLeft pc)))"

lemma moves_onI:
  "m key = Some pc \<Longrightarrow> refillLeft pc' < refillLeft pc \<Longrightarrow> moves_on m (m(key \<mapsto> pc'))"
  "m key = Some pc \<Longrightarrow> moves_on m (m(key := None))"
  by (auto simp: moves_on_def)

lemma closed_sections:
  assumes "closed p"
  shows "getSection cfg now key domains p = (GetClosed, False, p)"
    and "scheduleRefill cfg now key domains p = (False, p)"
    and "refillStore now key domains conn p = None"
    and "refillFailed now key domains p = p"
    and "\<not> refillCheck cfg key p"
  using assms by (simp_all add: getSection_def scheduleRefill_def refillStore_def refillFailed_def refillCheck_def)

lemma rotateKey_closed:
  assumes "rotateKey cfg now now' key p = (expired, started, p1)" and "closed p"
  shows "closed p1 \<and> \<not> started"
  using assms by (auto simp: rotateKey_def closed_sections Let_def split: option.splits)

lemma closed_step:
  assumes "pool_step cfg s t" and "closed (pool s)"
  shows "closed (pool t) \<and> (refillers t = refillers s \<or> moves_on (refillers s) (refillers t))"
  using assms
proof (induction rule: pool_step.induct)
  case (rotate now now' key s expired started p route)
  then show ?case using rotateKey_closed [OF rotate.hyps(1) rotate.prems] by (auto simp: disown_def spawn_def)
qed (auto simp: closed_sections spawn_def disown_def refillExit_def poolClose_def intro!: moves_onI)

lemma finite_refillers: "pool_reachable cfg s \<Longrightarrow> finite (dom (refillers s))"
proof (induction rule: pool_reachable.induct)
  case (step s s')
  from step(2,3) show ?case
    by (induction rule: pool_step.induct) (auto simp: spawn_def disown_def)
qed simp

subsection \<open>The way to the end\<close>

definition poolLeft :: "poolSys \<Rightarrow> nat" where
  "poolLeft s = map_left refillLeft (refillers s)"

definition shutting :: "Config \<Rightarrow> poolSys \<Rightarrow> bool" where
  "shutting cfg s \<longleftrightarrow> pool_reachable cfg s \<and> closed (pool s)"

lemma refillLeft_pos: "0 < refillLeft pc" and refillLeft_max: "refillLeft pc \<le> 3"
  by (cases pc; simp)+

lemma moves_on_left:
  assumes "finite (dom m)" and "moves_on m m'"
  shows "map_left refillLeft m' < map_left refillLeft m"
proof -
  from assms(2) obtain key pc x where pc: "m key = Some pc" and m': "m' = m(key := x)"
    and "(case x of None \<Rightarrow> 0 | Some pc' \<Rightarrow> refillLeft pc') < refillLeft pc"
    using refillLeft_pos by (fastforce simp: moves_on_def)
  then show ?thesis using map_left_upd [OF assms(1), of refillLeft key x] by simp
qed

lemma refill_movesI:
  assumes "pool_step cfg s t" and "refillers t = (refillers s)(key := x)" and "refillers s key \<noteq> x"
  shows "\<exists>t. refill_moves cfg s t"
  using assms unfolding refill_moves_def by (metis fun_upd_same)

lemma refill_enabled:
  assumes "closed (pool s)" and "refillers s key = Some pc"
  shows "\<exists>t. refill_moves cfg s t"
proof (cases pc)
  case (Check domains)
  with assms have at: "refillers s key = Some (Check domains)" by simp
  show ?thesis
    by (rule refill_movesI [where key = key, OF pool_step.check_stop [OF at closed_sections(5) [OF assms(1)]]]) (simp, simp add: at)
next
  case (Dialling domains)
  with assms have at: "refillers s key = Some (Dialling domains)" by simp
  let ?env = "\<lparr>doneBefore = \<lambda>_. True, doneAfter = \<lambda>_. True, clockAt = \<lambda>_. 0, dialWS = \<lambda>_ _ _. Inl errNoDomains\<rparr>"
  consider ds where "fst (refillDial ?env domains ds) = Cancelled"
    | e and ds :: dialState where "fst (refillDial ?env domains ds) = Failed e"
    by (cases domains) (simp_all add: refillDial_def)
  then show ?thesis
  proof cases
    case 1
    show ?thesis by (rule refill_movesI [where key = key, OF pool_step.dial_cancelled [OF at 1]]) (simp, simp add: at)
  next
    case 2
    show ?thesis by (rule refill_movesI [where key = key, OF pool_step.dial_failed [OF at 2]]) (simp, simp add: at)
  qed
next
  case (HasConn domains conn)
  with assms have at: "refillers s key = Some (HasConn domains conn)" by simp
  show ?thesis
    by (rule refill_movesI [where key = key, OF pool_step.store_closed [OF at closed_sections(3) [OF assms(1)]]]) (simp, simp add: at)
next
  case (HasErr domains)
  with assms have at: "refillers s key = Some (HasErr domains)" by simp
  show ?thesis by (rule refill_movesI [where key = key, OF pool_step.failed [OF at]]) (simp, simp add: at)
next
  case Leaving
  with assms have at: "refillers s key = Some Leaving" by simp
  show ?thesis by (rule refill_movesI [where key = key, OF pool_step.leave [OF at]]) (simp, simp add: at)
qed

interpretation shutdown: measured_system
  "pool_step cfg" "refill_moves cfg" "shutting cfg" "\<lambda>s. refillers s = Map.empty" poolLeft for cfg
proof unfold_locales
  fix s t :: poolSys
  show "pool_step cfg s t" if "refill_moves cfg s t" using that by (simp add: refill_moves_def)
  assume good: "shutting cfg s"
  then have fin: "finite (dom (refillers s))" using finite_refillers by (auto simp: shutting_def)
  show "shutting cfg t" if "pool_step cfg s t"
    using that good closed_step pool_reachable.step by (auto simp: shutting_def)
  show "poolLeft t \<le> poolLeft s" if "pool_step cfg s t"
    using closed_step [OF that] good moves_on_left [OF fin] by (auto simp: shutting_def poolLeft_def less_imp_le)
  show "poolLeft t < poolLeft s" if "refill_moves cfg s t"
    using that closed_step [of cfg s t] good moves_on_left [OF fin]
    by (auto simp: refill_moves_def shutting_def poolLeft_def)
  show "\<exists>t. refill_moves cfg s t" if "refillers s \<noteq> Map.empty"
  proof -
    from that obtain key pc where "refillers s key = Some pc" by (metis ext not_None_eq)
    then show ?thesis using refill_enabled good by (auto simp: shutting_def)
  qed
qed

lemma poolLeft_max: "poolLeft s \<le> 3 * card (dom (refillers s))"
  unfolding poolLeft_def by (rule map_left_max) (rule refillLeft_max)

subsection \<open>Properties\<close>



end
