(* ===== verification/Startup.thy ===== *)
theory Startup
  imports Server FlagParse DomainRefresh StatsSummary PoolShutdown
begin

text \<open>
  The program as a whole, \<^verbatim>\<open>main\<close> of \<^verbatim>\<open>src/src/server.go\<close>: from the command line to the accept
  loop, with the modes that only print, the probe of the masking site, listening, the banner
  and the warm-up of the two pools; the line of statistics; and the shutdown. What the
  operating system and the network answer is an argument.
\<close>

record startEnv =
  stFloatOK :: "string \<Rightarrow> bool"
  stRandom :: "string + bytes"
  stDraw :: nat
  stDcDraw :: "int \<Rightarrow> nat"
  stLocalIP :: "string option"
  stDial :: "string \<Rightarrow> goerror + netConn"
  stSetDeadline :: "goerror option"
  stHello :: "string \<Rightarrow> goerror option + bytes"
  stCtxDone :: bool
  stListen :: "string \<Rightarrow> goerror option"
  stNow :: instant

text \<open>\<^verbatim>\<open>getLinkHost\<close>: the address of the interface towards the internet, when one can be found.\<close>

definition getLinkHost :: "string option \<Rightarrow> string \<Rightarrow> string" where
  "getLinkHost local host =
     (if host \<noteq> ''0.0.0.0'' then host else case local of None \<Rightarrow> ''127.0.0.1'' | Some ip \<Rightarrow> ip)"

definition connectLink :: "string \<Rightarrow> Config \<Rightarrow> string" where
  "connectLink linkHost cfg =
     (if FakeTLSDomain cfg \<noteq> []
      then fakeTLSConnectLink linkHost (Port cfg) (SecretHex cfg) (FakeTLSDomain cfg)
      else ''tg://proxy?server='' @ linkHost @ ''&port='' @ strconv_Itoa (Port cfg) @ ''&secret=dd'' @ SecretHex cfg)"

definition probeFakeTLSAppDataLen :: "startEnv \<Rightarrow> string \<Rightarrow> string \<Rightarrow> goerror + nat" where
  "probeFakeTLSAppDataLen env address serverName =
     (case stDial env address of
        Inl e \<Rightarrow> Inl e
      | Inr conn \<Rightarrow> fst (probeFakeTLSConn (stSetDeadline env) (stHello env serverName) conn))"

definition probeProfile :: "startEnv \<Rightarrow> Config \<Rightarrow> Config" where
  "probeProfile env cfg =
     (if FakeTLSDomain cfg = [] then cfg
      else case probeFakeTLSAppDataLen env (net_JoinHostPort (FakeTLSDomain cfg) ''443'') (FakeTLSDomain cfg) of
        Inl e \<Rightarrow> cfg
      | Inr len \<Rightarrow> cfg\<lparr>fakeTLSAppDataLen := int len\<rparr>)"

text \<open>The program as it enters the accept loop: its state, and the keys whose refill has been started.\<close>

datatype startup =
    ConfigError string
  | Printed string
  | Interrupted
  | ListenError goerror
  | Serving proxy "wsPoolKey list" "workerPoolKey list"

definition startProxy :: "startEnv \<Rightarrow> Config \<Rightarrow> startup" where
  "startProxy env cfg =
     (case wsPool_warmup cfg (stNow env) newWSPool of (keys, pool1) \<Rightarrow>
      (case workerPool_warmup cfg newWorkerPool of (workerKeys, workers1) \<Rightarrow>
         Serving \<lparr>pxCfg = cfg, pxStats = zeroStats, pxPool = pool1, pxWorkers = workers1, pxTCP = Map.empty,
                  pxClosed = []\<rparr> keys workerKeys))"

definition proxy_main :: "startEnv \<Rightarrow> string list \<Rightarrow> startup" where
  "proxy_main env args =
     (case parseArgs (stFloatOK env) (stRandom env) (stDraw env) (stDcDraw env) args of
        Inl e \<Rightarrow> ConfigError e
      | Inr cfg \<Rightarrow>
          (if GenSecret cfg then Printed (SecretHex cfg)
           else if PrintLink cfg then Printed (connectLink (getLinkHost (stLocalIP env) (Host cfg)) cfg)
           else let cfg1 = probeProfile env cfg in
                if stCtxDone env then Interrupted
                else case stListen env (net_JoinHostPort (Host cfg1) (strconv_Itoa (Port cfg1))) of
                  Some e \<Rightarrow> ListenError e
                | None \<Rightarrow> startProxy env cfg1))"

subsection \<open>The log\<close>

definition banner_rule :: string where
  "banner_rule = ''INFO   '' @ replicate 60 (CHR ''='')"

definition banner_cfproxy :: "Config \<Rightarrow> string list" where
  "banner_cfproxy cfg =
     (if FallbackCFProxy cfg then
        let prio = (if FallbackCFProxyPriority cfg then ''CF first'' else ''TCP first'');
            refreshMode = (if FallbackCFProxyRefresh cfg \<and> \<not> FallbackCFProxyUserDomain cfg
                              \<and> strings_TrimSpace (FallbackCFProxyDomainsURL cfg) \<noteq> [] then ''hourly'' else ''off'')
        in [''INFO     CF proxy:      active='' @ cfproxyActiveDomain cfg @ '' pool=''
             @ strconv_Itoa (int (cfproxyDomainPoolSize cfg)) @ '' ('' @ prio @ '', refresh='' @ refreshMode @ '')'']
      else [])"

definition banner :: "string \<Rightarrow> Config \<Rightarrow> string list" where
  "banner linkHost cfg =
     [banner_rule, ''INFO     Telegram MTProto WS Bridge Proxy (Go)'',
      ''INFO     Listening on   '' @ Host cfg @ '':'' @ strconv_Itoa (Port cfg),
      ''INFO     Secret:        '' @ SecretHex cfg]
     @ (if FakeTLSDomain cfg \<noteq> [] then [''INFO     Fake TLS:      '' @ FakeTLSDomain cfg] else [])
     @ [''INFO     Target DC IPs:'']
     @ map (\<lambda>(dc, ip). ''INFO       DC'' @ strconv_Itoa dc @ '': '' @ ip) (sortedDCMap (DCMap cfg))
     @ banner_cfproxy cfg
     @ (if hasCFProxyWorkerDomains cfg
        then [''INFO     CF worker:     '' @ strings_Join (FallbackCFProxyWorkerDomains cfg) '', '' @ '' (tried first)'']
        else [])
     @ [banner_rule, ''INFO     Connect link:'', ''INFO       '' @ connectLink linkHost cfg, banner_rule]"

text \<open>The goroutine that logs the statistics: at every tick before the context is done.\<close>

datatype statsEvent = StatsDone | StatsTick Stats

fun statsLoop :: "statsEvent list \<Rightarrow> string list" where
  "statsLoop [] = []"
| "statsLoop (StatsDone # es) = []"
| "statsLoop (StatsTick s # es) = (''INFO   stats: '' @ summary s) # statsLoop es"

subsection \<open>Shutdown\<close>

text \<open>
  The deferred function: both pools are closed. The wait for the refilling goroutines ends, as
  \<^verbatim>\<open>PoolShutdown\<close> shows; the other goroutines watch the context.
\<close>

definition shutdownPools :: "proxy \<Rightarrow> proxy" where
  "shutdownPools px = px\<lparr>pxPool := poolClose (pxPool px), pxWorkers := workerPool_Close (pxWorkers px)\<rparr>"

lemma get_first_closed: "closed p \<Longrightarrow> get_first cfg now now' key domains ips cc p st = (None, cc, p, st)"
  by (induction ips) (simp_all add: wsPool_get.simps closed_sections)

lemma shutdown_serves_nothing:
  "fst (getForDC cfg now now' key (pxPool (shutdownPools px)) st) = None"
  "fst (workerPool_get cfg now wkey (pxWorkers (shutdownPools px)) st) = None"
  by (simp_all add: shutdownPools_def poolClose_def getForDC_def get_first_closed workerPool_Close_def
      workerPool_get_def Let_def)

subsection \<open>Facts\<close>

lemma hex_Decode_append:
  "hex_DecodeString a = Some x \<Longrightarrow> hex_DecodeString b = Some y \<Longrightarrow> hex_DecodeString (a @ b) = Some (x @ y)"
  by (induction a arbitrary: x rule: hex_DecodeString.induct) (auto split: option.splits)

lemma probeProfile_cases:
  obtains len where "probeProfile env cfg = cfg\<lparr>fakeTLSAppDataLen := int len\<rparr>" "len \<le> tlsRecordMaxLen + 256"
  | "probeProfile env cfg = cfg"
proof -
  have bound: "len \<le> tlsRecordMaxLen + 256" if "probeFakeTLSAppDataLen env address name = Inr len" for address name len
    using that probeRecords_bounds
    by (auto simp: probeFakeTLSAppDataLen_def probeFakeTLSConn_def split: sum.splits option.splits)
  show ?thesis
  proof (cases "FakeTLSDomain cfg = []")
    case True
    then show ?thesis by (intro that(2)) (simp add: probeProfile_def)
  next
    case False
    let ?probe = "probeFakeTLSAppDataLen env (net_JoinHostPort (FakeTLSDomain cfg) ''443'') (FakeTLSDomain cfg)"
    show ?thesis
    proof (cases ?probe)
      case (Inl e)
      then show ?thesis by (intro that(2)) (simp add: probeProfile_def)
    next
      case (Inr len)
      then show ?thesis using bound [OF Inr] False by (intro that(1) [of len]) (simp_all add: probeProfile_def)
    qed
  qed
qed

lemma configOK_profile [simp]: "configOK (cfg\<lparr>fakeTLSAppDataLen := n\<rparr>) = configOK cfg"
  by (simp add: configOK_def poolInv_def)

lemma parseFlags_profile: "parseFlags random draw dcDraw parsed = Inr cfg \<Longrightarrow> fakeTLSAppDataLen cfg = 0"
  by (auto simp: parseFlags_def setCFProxyDomains_def buildConfig_def zeroConfig_def Let_def
      split: sum.splits prod.splits)

lemma connectLink_secret:
  assumes "hex_DecodeString (SecretHex cfg) = Some key"
  shows "\<exists>s. connectLink host cfg =
      ''tg://proxy?server='' @ host @ ''&port='' @ strconv_Itoa (Port cfg) @ ''&secret=''
        @ (if FakeTLSDomain cfg = [] then ''dd'' else ''ee'') @ s \<and>
    hex_DecodeString s = Some (key @ string_bytes (FakeTLSDomain cfg))"
proof (cases "FakeTLSDomain cfg = []")
  case True
  then show ?thesis using assms by (simp add: connectLink_def string_bytes_def)
next
  case False
  then show ?thesis using hex_Decode_append [OF assms hex_Decode_Encode]
    by (simp add: connectLink_def fakeTLSConnectLink_def)
qed

lemma main_serving:
  assumes "proxy_main env args = Serving px keys workerKeys"
  shows "configOK (pxCfg px) \<and> 0 \<le> fakeTLSAppDataLen (pxCfg px) \<and>
         fakeTLSAppDataLen (pxCfg px) \<le> int (tlsRecordMaxLen + 256)"
proof -
  from assms obtain cfg where
    cfg: "parseFlags (stRandom env) (stDraw env) (stDcDraw env) (flagParse (stFloatOK env) args defaultFlags) = Inr cfg"
    and px: "pxCfg px = probeProfile env cfg"
    by (auto simp: proxy_main_def parseArgs_def startProxy_def Let_def split: sum.splits if_splits option.splits prod.splits)
  have ok: "configOK cfg" "fakeTLSAppDataLen cfg = 0" using parseFlags_ok [OF cfg] parseFlags_profile [OF cfg] .
  show ?thesis by (rule probeProfile_cases [of env cfg]) (use px ok in simp_all)
qed

text \<open>
  C9. Whatever the arguments and the network, the program enters the accept loop only with a
  configuration every component can run on: its secret is 16 bytes, the profile of the masking
  site fits in a TLS record, no sequence of connections exceeds the session limit, and the
  link of its banner carries exactly the key that the accept loop decodes and the name of the
  masking site, behind the mark of the protocol the server then speaks.
\<close>

theorem startup_serves_valid_config:
  assumes "proxy_main env args = Serving px keys workerKeys"
  shows "configOK (pxCfg px) \<and> fakeTLSAppDataLen (pxCfg px) \<in> {0..16640} \<and>
    serve_inv (pxCfg px) (serve (pxCfg px) evs newServer) \<and>
    (\<exists>key s. hex_DecodeString (SecretHex (pxCfg px)) = Some key \<and> length key = 16 \<and>
       ''INFO       '' @ connectLink host (pxCfg px) \<in> set (banner host (pxCfg px)) \<and>
       connectLink host (pxCfg px) =
         ''tg://proxy?server='' @ host @ ''&port='' @ strconv_Itoa (Port (pxCfg px)) @ ''&secret=''
           @ (if FakeTLSDomain (pxCfg px) = [] then ''dd'' else ''ee'') @ s \<and>
       hex_DecodeString s = Some (key @ string_bytes (FakeTLSDomain (pxCfg px))))"
proof -
  note ok = main_serving [OF assms]
  then obtain key where key: "hex_DecodeString (SecretHex (pxCfg px)) = Some key" "length key = 16"
    and max: "0 \<le> MaxConns (pxCfg px)" by (auto simp: configOK_def)
  have "serve_inv (pxCfg px) newServer"
    using max by (simp add: serve_inv_def newServer_def acceptBackoffMin_def acceptBackoffMax_def)
  then have "serve_inv (pxCfg px) (serve (pxCfg px) evs newServer)" by (rule serve_keeps_inv)
  moreover have "fakeTLSAppDataLen (pxCfg px) \<in> {0..16640}" using ok by (simp add: tlsRecordMaxLen_def)
  moreover have "''INFO       '' @ connectLink host (pxCfg px) \<in> set (banner host (pxCfg px))"
    by (simp add: banner_def)
  ultimately show ?thesis using ok key connectLink_secret [OF key(1), of host] by blast
qed

definition sampleStart :: startEnv where
  "sampleStart = \<lparr>stFloatOK = (\<lambda>_. False), stRandom = Inr (replicate 16 0xAB), stDraw = 0, stDcDraw = (\<lambda>_. 0), stLocalIP = None,
     stDial = (\<lambda>_. Inl io_EOF), stSetDeadline = None, stHello = (\<lambda>_. Inr []), stCtxDone = False,
     stListen = (\<lambda>_. None), stNow = 0\<rparr>"

theorem startup_serves_valid_config_witness:
  "\<exists>px keys workerKeys. proxy_main sampleStart [] = Serving px keys workerKeys \<and> configOK (pxCfg px)"
proof -
  have ok: "isl (flagSecret (Inr (replicate 16 0xAB)) defaultFlags) = False" "isl (flagTargets defaultFlags) = False"
    "isl (flagFakeTLS defaultFlags) = False" "isl (flagWorkers defaultFlags) = False"
    by code_simp+
  have dom: "isl (flagDomains defaultFlags) = False"
    by (simp add: flagDomains_def defaultFlags_def strings_TrimSpace_def trim_by_def Let_def)
  from ok dom obtain secret t d fake w where parts: "flagSecret (Inr (replicate 16 0xAB)) defaultFlags = Inr secret"
    "flagTargets defaultFlags = Inr t" "flagDomains defaultFlags = Inr d" "flagFakeTLS defaultFlags = Inr fake"
    "flagWorkers defaultFlags = Inr w"
    by (metis sum.collapse(2))
  then obtain cfg where cfg: "parseFlags (Inr (replicate 16 0xAB)) 0 (\<lambda>_. 0) (Inr defaultFlags) = Inr cfg"
    "\<not> GenSecret cfg" "\<not> PrintLink cfg"
    by (cases d) (auto simp: parseFlags_def setCFProxyDomains_def buildConfig_def defaultFlags_def Let_def)
  then have "\<exists>px keys workerKeys. proxy_main sampleStart [] = Serving px keys workerKeys"
    by (simp add: proxy_main_def parseArgs_def flagParse.simps [of _ "[]"] sampleStart_def startProxy_def split_beta Let_def)
  then show ?thesis using startup_serves_valid_config by blast
qed

end
