(* ===== verification/Session.thy ===== *)
theory Session
  imports Progress
begin

text \<open>
  The goroutines of one session, as \<^verbatim>\<open>bridgeWS\<close> and \<^verbatim>\<open>tcpFallback\<close> of \<^verbatim>\<open>src/src/transport.go\<close> start
  and join them: the two directions, the idle watchdog, the observer of the diagnostics, the
  function of the context that closes the connections on cancellation, and the goroutine that
  reads the first message of a pooled WebSocket. What the directions transfer is the subject
  of \<^verbatim>\<open>Bridge\<close>; here a direction runs or has ended, and the question is whether a session that
  is over is cleaned up.

  The connection that the code closes first is A, the other one B: for \<^verbatim>\<open>bridgeWS\<close> the WebSocket
  and the client, for \<^verbatim>\<open>tcpFallback\<close> the client and the TCP connection. (Only the function that
  \<^verbatim>\<open>tcpFallback\<close> registers on the context closes them the other way round; as nothing waits between
  the two there, the order does not matter.)
\<close>

subsection \<open>State\<close>

text \<open>\<^verbatim>\<open>ws.Close(); client.Close()\<close>: \<^verbatim>\<open>pooledWS.Close\<close> waits for the first read.\<close>

datatype closePC = CloseA | AwaitFirst | CloseB | CloseDone

datatype watchPC = Watching | Firing closePC | WatchDone

datatype mainPC = AwaitDone1 | CloseStop | MainClosing closePC | AwaitDone2 | AwaitWatch | AwaitObserver | Returned

record goroutines =
  gUp :: bool
  gDown :: bool
  gFirst :: bool
  gObserver :: bool
  gWatch :: watchPC
  gCancel :: "closePC option"
  gMain :: mainPC
  chDone :: nat
  chStop :: bool
  openA :: bool
  openB :: bool

text \<open>
  The start of a session: \<open>first\<close> says whether a goroutine still waits for the first message,
  \<open>verbose\<close> whether there is an observer (\<^verbatim>\<open>observeWSProgress\<close> closes its channel at once otherwise).
\<close>

definition startSession :: "bool \<Rightarrow> bool \<Rightarrow> goroutines" where
  "startSession first verbose =
     \<lparr>gUp = True, gDown = True, gFirst = first, gObserver = verbose, gWatch = Watching, gCancel = None,
      gMain = AwaitDone1, chDone = 0, chStop = False, openA = True, openB = True\<rparr>"

subsection \<open>Steps\<close>

fun closeStep :: "closePC \<Rightarrow> goroutines \<Rightarrow> (closePC \<times> goroutines) option" where
  "closeStep CloseA s = Some (AwaitFirst, s\<lparr>openA := False\<rparr>)"
| "closeStep AwaitFirst s = (if gFirst s then None else Some (CloseB, s))"
| "closeStep CloseB s = Some (CloseDone, s\<lparr>openB := False\<rparr>)"
| "closeStep CloseDone s = None"

text \<open>
  The steps that the program takes by itself. A direction ends, at the latest, when both its
  connections are closed, and the first read when the WebSocket is: reads and writes of a
  closed connection return an error, and every error ends the loop.
\<close>

inductive own_step :: "goroutines \<Rightarrow> goroutines \<Rightarrow> bool" where
  up_closed: "gUp s \<Longrightarrow> \<not> openA s \<Longrightarrow> \<not> openB s \<Longrightarrow> own_step s (s\<lparr>gUp := False, chDone := chDone s + 1\<rparr>)"
| down_closed: "gDown s \<Longrightarrow> \<not> openA s \<Longrightarrow> \<not> openB s \<Longrightarrow> own_step s (s\<lparr>gDown := False, chDone := chDone s + 1\<rparr>)"
| first_closed: "gFirst s \<Longrightarrow> \<not> openA s \<Longrightarrow> own_step s (s\<lparr>gFirst := False\<rparr>)"
| watch_close: "gWatch s = Firing c \<Longrightarrow> closeStep c s = Some (c', s') \<Longrightarrow>
    own_step s (s'\<lparr>gWatch := (if c' = CloseDone then WatchDone else Firing c')\<rparr>)"
| watch_stop: "gWatch s = Watching \<Longrightarrow> chStop s \<Longrightarrow> own_step s (s\<lparr>gWatch := WatchDone\<rparr>)"
| observer_stop: "gObserver s \<Longrightarrow> chStop s \<Longrightarrow> own_step s (s\<lparr>gObserver := False\<rparr>)"
| cancel_close: "gCancel s = Some c \<Longrightarrow> closeStep c s = Some (c', s') \<Longrightarrow> own_step s (s'\<lparr>gCancel := Some c'\<rparr>)"
| main_done1: "gMain s = AwaitDone1 \<Longrightarrow> 0 < chDone s \<Longrightarrow> own_step s (s\<lparr>gMain := CloseStop, chDone := chDone s - 1\<rparr>)"
| main_stop: "gMain s = CloseStop \<Longrightarrow> own_step s (s\<lparr>gMain := MainClosing CloseA, chStop := True\<rparr>)"
| main_close: "gMain s = MainClosing c \<Longrightarrow> closeStep c s = Some (c', s') \<Longrightarrow>
    own_step s (s'\<lparr>gMain := (if c' = CloseDone then AwaitDone2 else MainClosing c')\<rparr>)"
| main_done2: "gMain s = AwaitDone2 \<Longrightarrow> 0 < chDone s \<Longrightarrow> own_step s (s\<lparr>gMain := AwaitWatch, chDone := chDone s - 1\<rparr>)"
| main_watch: "gMain s = AwaitWatch \<Longrightarrow> gWatch s = WatchDone \<Longrightarrow> own_step s (s\<lparr>gMain := AwaitObserver\<rparr>)"
| main_observer: "gMain s = AwaitObserver \<Longrightarrow> \<not> gObserver s \<Longrightarrow> own_step s (s\<lparr>gMain := Returned\<rparr>)"

text \<open>
  And what happens to it from outside, at any time: the peers close or fail, a first message
  arrives, the session is idle for too long, the program is asked to stop.
\<close>

inductive env_step :: "goroutines \<Rightarrow> goroutines \<Rightarrow> bool" where
  up_ends: "gUp s \<Longrightarrow> env_step s (s\<lparr>gUp := False, chDone := chDone s + 1\<rparr>)"
| down_ends: "gDown s \<Longrightarrow> env_step s (s\<lparr>gDown := False, chDone := chDone s + 1\<rparr>)"
| first_arrives: "gFirst s \<Longrightarrow> env_step s (s\<lparr>gFirst := False\<rparr>)"
| idle_timeout: "gWatch s = Watching \<Longrightarrow> env_step s (s\<lparr>gWatch := Firing CloseA\<rparr>)"
| cancelled: "gCancel s = None \<Longrightarrow> env_step s (s\<lparr>gCancel := Some CloseA\<rparr>)"

inductive session_reachable :: "goroutines \<Rightarrow> bool" where
  session_start: "session_reachable (startSession first verbose)"
| session_own: "session_reachable s \<Longrightarrow> own_step s s' \<Longrightarrow> session_reachable s'"
| session_env: "session_reachable s \<Longrightarrow> env_step s s' \<Longrightarrow> session_reachable s'"

text \<open>Something has happened that ends the session.\<close>

definition session_over :: "goroutines \<Rightarrow> bool" where
  "session_over s \<longleftrightarrow> \<not> gUp s \<or> \<not> gDown s \<or> gWatch s \<noteq> Watching \<or> gCancel s \<noteq> None"

subsection \<open>The invariant\<close>

text \<open>How far a closing sequence has come, and what it has closed.\<close>

fun closedBy :: "closePC \<Rightarrow> goroutines \<Rightarrow> bool" where
  "closedBy CloseA s = True"
| "closedBy AwaitFirst s = (\<not> openA s)"
| "closedBy CloseB s = (\<not> openA s)"
| "closedBy CloseDone s = (\<not> openA s \<and> \<not> openB s)"

text \<open>The tokens that \<^verbatim>\<open>main\<close> has taken out of the channel \<^verbatim>\<open>done\<close>.\<close>

fun taken :: "mainPC \<Rightarrow> nat" where
  "taken AwaitDone1 = 0"
| "taken CloseStop = 1"
| "taken (MainClosing c) = 1"
| "taken AwaitDone2 = 1"
| "taken _ = 2"

definition main_inv :: "goroutines \<Rightarrow> bool" where
  "main_inv s \<longleftrightarrow>
     (case gMain s of
        AwaitDone1 \<Rightarrow> True | CloseStop \<Rightarrow> True
      | MainClosing c \<Rightarrow> c \<noteq> CloseDone \<and> chStop s \<and> closedBy c s
      | AwaitDone2 \<Rightarrow> chStop s \<and> closedBy CloseDone s
      | AwaitWatch \<Rightarrow> chStop s \<and> closedBy CloseDone s
      | AwaitObserver \<Rightarrow> chStop s \<and> closedBy CloseDone s \<and> gWatch s = WatchDone
      | Returned \<Rightarrow> chStop s \<and> closedBy CloseDone s \<and> gWatch s = WatchDone \<and> \<not> gObserver s)"

definition watch_inv :: "goroutines \<Rightarrow> bool" where
  "watch_inv s \<longleftrightarrow>
     (case gWatch s of Watching \<Rightarrow> True | Firing c \<Rightarrow> c \<noteq> CloseDone \<and> closedBy c s
      | WatchDone \<Rightarrow> chStop s \<or> closedBy CloseDone s)"

definition session_inv :: "goroutines \<Rightarrow> bool" where
  "session_inv s \<longleftrightarrow>
     chDone s + taken (gMain s) = of_bool (\<not> gUp s) + of_bool (\<not> gDown s) \<and>
     (chStop s \<longrightarrow> gMain s \<notin> {AwaitDone1, CloseStop}) \<and>
     main_inv s \<and> watch_inv s \<and> (\<forall>c. gCancel s = Some c \<longrightarrow> closedBy c s)"

lemmas session_inv_defs = session_inv_def main_inv_def watch_inv_def

lemma closeStep_cases:
  assumes "closeStep c s = Some (c', s')"
  obtains "c = CloseA" "c' = AwaitFirst" "s' = s\<lparr>openA := False\<rparr>"
  | "c = AwaitFirst" "c' = CloseB" "s' = s" "\<not> gFirst s"
  | "c = CloseB" "c' = CloseDone" "s' = s\<lparr>openB := False\<rparr>"
  using assms by (cases c) (auto split: if_splits)

text \<open>Closing more keeps what has been closed, and nothing else matters to it.\<close>

lemma closedBy_simps [simp]:
  "closedBy c (s\<lparr>gUp := a\<rparr>) = closedBy c s" "closedBy c (s\<lparr>gDown := a\<rparr>) = closedBy c s"
  "closedBy c (s\<lparr>gFirst := a\<rparr>) = closedBy c s" "closedBy c (s\<lparr>gObserver := a\<rparr>) = closedBy c s"
  "closedBy c (s\<lparr>gWatch := w\<rparr>) = closedBy c s" "closedBy c (s\<lparr>gCancel := x\<rparr>) = closedBy c s"
  "closedBy c (s\<lparr>gMain := m\<rparr>) = closedBy c s" "closedBy c (s\<lparr>chDone := n\<rparr>) = closedBy c s"
  "closedBy c (s\<lparr>chStop := a\<rparr>) = closedBy c s"
  by (cases c; simp)+

lemma closedBy_more: "closedBy c s \<Longrightarrow> closedBy c (s\<lparr>openA := False\<rparr>)" "closedBy c s \<Longrightarrow> closedBy c (s\<lparr>openB := False\<rparr>)"
  by (cases c; simp)+

lemma closeStep_inv:
  assumes "session_inv s" and "closedBy c s" and "closeStep c s = Some (c', s')"
  shows "session_inv s'" and "closedBy c' s'" and "gMain s' = gMain s" and "gWatch s' = gWatch s"
    and "gCancel s' = gCancel s" and "c' \<noteq> CloseA"
  using assms(3)
  by (rule closeStep_cases; use assms(1,2) in
      \<open>auto simp: session_inv_defs closedBy_more split: mainPC.splits watchPC.splits option.splits\<close>)+

lemma session_inv_start: "session_inv (startSession first verbose)"
  by (simp add: startSession_def session_inv_defs)

lemma own_step_inv: "own_step s s' \<Longrightarrow> session_inv s \<Longrightarrow> session_inv s'"
proof (induction rule: own_step.induct)
  case (watch_close s c c' s')
  then have "closedBy c s" by (auto simp: session_inv_defs split: watchPC.splits)
  note closeStep_inv [OF watch_close.prems this watch_close.hyps(2)]
  with watch_close.hyps(1) show ?case
    by (auto simp: session_inv_def main_inv_def watch_inv_def split: mainPC.splits)
next
  case (cancel_close s c c' s')
  then have "closedBy c s" by (auto simp: session_inv_defs split: option.splits)
  note closeStep_inv [OF cancel_close.prems this cancel_close.hyps(2)]
  then show ?case by (auto simp: session_inv_def main_inv_def watch_inv_def split: mainPC.splits watchPC.splits)
next
  case (main_close s c c' s')
  then have "closedBy c s" by (auto simp: session_inv_defs)
  note closeStep_inv [OF main_close.prems this main_close.hyps(2)]
  with main_close.hyps(1) show ?case
    by (auto simp: session_inv_def main_inv_def watch_inv_def split: watchPC.splits)
qed (auto simp: session_inv_defs split: mainPC.splits watchPC.splits)

lemma env_step_inv: "env_step s s' \<Longrightarrow> session_inv s \<Longrightarrow> session_inv s'"
  by (induction rule: env_step.induct) (auto simp: session_inv_defs split: mainPC.splits watchPC.splits option.splits)

lemma session_reachable_inv: "session_reachable s \<Longrightarrow> session_inv s"
  by (induction rule: session_reachable.induct) (auto simp: session_inv_start intro: own_step_inv env_step_inv)

subsection \<open>The way to the end\<close>

fun closeLeft :: "closePC \<Rightarrow> nat" where
  "closeLeft CloseA = 3"
| "closeLeft AwaitFirst = 2"
| "closeLeft CloseB = 1"
| "closeLeft CloseDone = 0"

fun watchLeft :: "watchPC \<Rightarrow> nat" where
  "watchLeft Watching = 4"
| "watchLeft (Firing c) = closeLeft c"
| "watchLeft WatchDone = 0"

fun cancelLeft :: "closePC option \<Rightarrow> nat" where
  "cancelLeft None = 4"
| "cancelLeft (Some c) = closeLeft c"

fun mainLeft :: "mainPC \<Rightarrow> nat" where
  "mainLeft AwaitDone1 = 8"
| "mainLeft CloseStop = 7"
| "mainLeft (MainClosing c) = 3 + closeLeft c"
| "mainLeft AwaitDone2 = 3"
| "mainLeft AwaitWatch = 2"
| "mainLeft AwaitObserver = 1"
| "mainLeft Returned = 0"

definition sessionLeft :: "goroutines \<Rightarrow> nat" where
  "sessionLeft s =
     of_bool (gUp s) + of_bool (gDown s) + of_bool (gFirst s) + of_bool (gObserver s) +
     watchLeft (gWatch s) + cancelLeft (gCancel s) + mainLeft (gMain s)"

lemma own_step_left: "own_step s s' \<Longrightarrow> sessionLeft s' < sessionLeft s"
  by (induction rule: own_step.induct; (erule closeStep_cases)?; simp add: sessionLeft_def)

lemma env_step_left: "env_step s s' \<Longrightarrow> sessionLeft s' \<le> sessionLeft s"
  by (induction rule: env_step.induct) (simp_all add: sessionLeft_def)

lemma own_step_over: "own_step s s' \<Longrightarrow> session_over s \<Longrightarrow> session_over s'"
  by (induction rule: own_step.induct) (auto simp: session_over_def elim!: closeStep_cases)

lemma env_step_over: "env_step s s' \<Longrightarrow> session_over s \<Longrightarrow> session_over s'"
  by (induction rule: env_step.induct) (auto simp: session_over_def)

text \<open>A closing sequence never blocks for good: it waits only for a read of a closed connection.\<close>

lemma closing_enabled:
  assumes "closedBy c s" and "c \<noteq> CloseDone"
  obtains c' s' where "closeStep c s = Some (c', s')" | t where "own_step s t"
proof (cases "closeStep c s")
  case None
  with assms have "gFirst s" "\<not> openA s" by (cases c; auto split: if_splits)+
  then show ?thesis using that(2) own_step.first_closed by blast
qed (use that(1) in force)

lemma watch_enabled:
  assumes "session_inv s" and "gWatch s = Firing c"
  shows "\<exists>t. own_step s t"
proof -
  have "closedBy c s" "c \<noteq> CloseDone" using assms by (auto simp: session_inv_defs)
  then show ?thesis by (rule closing_enabled) (use own_step.watch_close [OF assms(2)] in blast)+
qed

lemma waiting_enabled:
  assumes "session_inv s" and "session_over s" and "gMain s = AwaitDone1" and "chDone s = 0"
  shows "\<exists>t. own_step s t"
proof -
  have up: "gUp s" "gDown s" using assms by (auto simp: session_inv_defs)
  have closed: "\<exists>t. own_step s t" if "closedBy CloseDone s"
    using that up own_step.up_closed [of s] by auto
  consider c where "gWatch s = Firing c" | "gWatch s = WatchDone" | c where "gCancel s = Some c"
    using assms(2) up by (cases "gWatch s") (auto simp: session_over_def)
  then show ?thesis
  proof cases
    case 1
    then show ?thesis using watch_enabled assms(1) by blast
  next
    case 2
    then show ?thesis using closed assms by (auto simp: session_inv_defs)
  next
    case (3 c)
    then have "closedBy c s" using assms(1) by (simp add: session_inv_def)
    show ?thesis
    proof (cases "c = CloseDone")
      case True
      then show ?thesis using closed \<open>closedBy c s\<close> by blast
    next
      case False
      with \<open>closedBy c s\<close> show ?thesis by (rule closing_enabled) (use own_step.cancel_close [OF 3] in blast)+
    qed
  qed
qed

lemma own_step_enabled:
  assumes "session_inv s" and "session_over s" and "gMain s \<noteq> Returned"
  shows "\<exists>t. own_step s t"
proof (cases "gMain s")
  case AwaitDone1
  then show ?thesis using waiting_enabled assms own_step.main_done1 by (cases "chDone s = 0") blast+
next
  case CloseStop
  then show ?thesis using own_step.main_stop by blast
next
  case (MainClosing c)
  then have "closedBy c s" "c \<noteq> CloseDone" using assms(1) by (auto simp: session_inv_defs)
  then show ?thesis by (rule closing_enabled) (use own_step.main_close [OF MainClosing] in blast)+
next
  case AwaitDone2
  then have "\<not> openA s" "\<not> openB s" "0 < chDone s \<or> gUp s \<or> gDown s"
    using assms(1) by (auto simp: session_inv_defs)
  then show ?thesis using AwaitDone2 own_step.main_done2 own_step.up_closed own_step.down_closed by blast
next
  case AwaitWatch
  then have "chStop s" using assms(1) by (auto simp: session_inv_defs)
  then show ?thesis using AwaitWatch assms(1) watch_enabled own_step.watch_stop own_step.main_watch
    by (cases "gWatch s") blast+
next
  case AwaitObserver
  then have "chStop s" using assms(1) by (auto simp: session_inv_defs)
  then show ?thesis using AwaitObserver own_step.observer_stop own_step.main_observer by blast
qed (use assms(3) in simp)

interpretation session: measured_system
  "\<lambda>s t. own_step s t \<or> env_step s t" own_step "\<lambda>s. session_inv s \<and> session_over s"
  "\<lambda>s. gMain s = Returned" sessionLeft
  by unfold_locales
    (auto intro: own_step_inv env_step_inv own_step_over env_step_over own_step_left env_step_left
      less_imp_le own_step_enabled)

subsection \<open>Properties\<close>

lemma returned_clean:
  assumes "session_reachable t" and "gMain t = Returned"
  shows "\<not> gUp t \<and> \<not> gDown t \<and> gWatch t = WatchDone \<and> \<not> gObserver t \<and> \<not> openA t \<and> \<not> openB t \<and> chDone t = 0"
  using session_reachable_inv [OF assms(1)] assms(2) by (auto simp: session_inv_defs of_bool_def split: if_splits)

lemma closeLeft_max: "closeLeft c \<le> 3"
  by (cases c) simp_all

lemma sessionLeft_max: "sessionLeft s \<le> 20"
proof -
  have "watchLeft w \<le> 4" for w
    using closeLeft_max le_SucI by (cases w rule: watchLeft.cases) (simp_all add: le_trans [OF closeLeft_max])
  moreover have "cancelLeft x \<le> 4" for x by (cases x) (simp_all add: le_trans [OF closeLeft_max])
  moreover have "mainLeft m \<le> 8" for m
    using closeLeft_max by (cases m) (simp_all add: le_trans [OF add_left_mono [OF closeLeft_max]])
  ultimately have "watchLeft (gWatch s) + cancelLeft (gCancel s) + mainLeft (gMain s) \<le> 4 + 4 + 8"
    by (intro add_mono)
  then show ?thesis by (simp add: sessionLeft_def of_bool_def)
qed

text \<open>
  C6. A session that is over is cleaned up: once one direction has ended, the session has been
  idle for too long or the program is being stopped, the bridge returns. It does so by its own
  steps, at most 20 of them, whatever else happens in between, and it is never stuck on the
  way, neither on a channel nor on the first read of a pooled WebSocket. When it has returned,
  both directions, the watchdog and the observer have ended, both connections are closed and
  nothing is left in the channel, which never holds more than its two places.
\<close>

theorem session_returns:
  assumes "session_reachable s" and "session_over s"
  shows "(\<exists>ts. run own_step s ts \<and> gMain (run_end s ts) = Returned) \<and>
    (\<forall>ts. run (\<lambda>s t. own_step s t \<or> env_step s t) s ts \<longrightarrow>
       steps_of own_step s ts \<le> 20 \<and>
       (gMain (run_end s ts) = Returned \<or> (\<exists>t. own_step (run_end s ts) t))) \<and>
    (\<forall>t. session_reachable t \<longrightarrow> chDone t \<le> 2) \<and>
    (\<forall>t. session_reachable t \<and> gMain t = Returned \<longrightarrow>
       \<not> gUp t \<and> \<not> gDown t \<and> gWatch t = WatchDone \<and> \<not> gObserver t \<and> \<not> openA t \<and> \<not> openB t \<and> chDone t = 0)"
proof -
  have "chDone t \<le> 2" if "session_reachable t" for t
    using session_reachable_inv [OF that] by (auto simp: session_inv_def of_bool_def split: if_splits)
  then show ?thesis
    using session.comes_to_goal [of s] session_reachable_inv [OF assms(1)] assms(2) returned_clean
      order_trans [OF _ sessionLeft_max [of s]] by blast
qed

theorem session_returns_witness:
  "\<exists>ts. run own_step ((startSession True True)\<lparr>gWatch := Firing CloseA\<rparr>) ts \<and>
     gMain (run_end ((startSession True True)\<lparr>gWatch := Firing CloseA\<rparr>) ts) = Returned"
proof -
  let ?s = "(startSession True True)\<lparr>gWatch := Firing CloseA\<rparr>"
  have "env_step (startSession True True) ?s" by (rule env_step.idle_timeout) (simp add: startSession_def)
  then have "session_reachable ?s" by (rule session_env [OF session_start])
  moreover have "session_over ?s" by (simp add: session_over_def)
  ultimately show ?thesis using session_returns by blast
qed

end
