(* ===== verification/ServerDrain.thy ===== *)
theory ServerDrain
  imports Session Server
begin

text \<open>
  The end of \<^verbatim>\<open>serve\<close> in \<^verbatim>\<open>src/src/server.go\<close>: when the context is cancelled the accept loop returns,
  and its deferred \<^verbatim>\<open>clients.Wait()\<close> waits for the goroutines of all clients. A client's goroutine
  is preparing its session (the handshakes, the choice of a route, the dials), is in a bridge,
  whose goroutines are those of \<^verbatim>\<open>Session\<close>, or has finished. The context has been cancelled, so
  that the client's connection is closed by the function that \<^verbatim>\<open>serve\<close> has registered for it, the
  dials fail and the bridge's own registration closes both connections.
\<close>

subsection \<open>The goroutine of a client\<close>

datatype clientG = Preparing | Bridging goroutines | Finished

text \<open>
  The steps it takes by itself under a cancelled context: what it waits for while it prepares
  returns an error, and \<^verbatim>\<open>handleClient\<close> returns after the bridge.
\<close>

inductive client_own :: "clientG \<Rightarrow> clientG \<Rightarrow> bool" where
  prepare_fails: "client_own Preparing Finished"
| bridge_cancelled: "gCancel s = None \<Longrightarrow> gMain s \<noteq> Returned \<Longrightarrow> client_own (Bridging s) (Bridging (s\<lparr>gCancel := Some CloseA\<rparr>))"
| bridge_own: "own_step s s' \<Longrightarrow> client_own (Bridging s) (Bridging s')"
| bridge_returns: "gMain s = Returned \<Longrightarrow> client_own (Bridging s) Finished"

text \<open>A dial may still succeed before it sees the cancellation, and then the bridge starts.\<close>

inductive client_env :: "clientG \<Rightarrow> clientG \<Rightarrow> bool" where
  prepare_bridges: "client_env Preparing (Bridging (startSession first verbose))"
| bridge_env: "env_step s s' \<Longrightarrow> client_env (Bridging s) (Bridging s')"

fun client_ok :: "clientG \<Rightarrow> bool" where
  "client_ok (Bridging s) = session_inv s"
| "client_ok c = True"

fun clientLeft :: "clientG \<Rightarrow> nat" where
  "clientLeft Preparing = 21"
| "clientLeft (Bridging s) = 1 + sessionLeft s"
| "clientLeft Finished = 0"

lemma clientLeft_max: "clientLeft c \<le> 21"
  using sessionLeft_max by (cases c) simp_all

lemma client_own_ok: "client_own c c' \<Longrightarrow> client_ok c \<Longrightarrow> client_ok c'"
  by (induction rule: client_own.induct) (auto intro: own_step_inv env_step_inv [OF env_step.cancelled])

lemma client_env_ok: "client_env c c' \<Longrightarrow> client_ok c \<Longrightarrow> client_ok c'"
  by (induction rule: client_env.induct) (auto intro: session_inv_start env_step_inv)

lemma cancel_left: "gCancel s = None \<Longrightarrow> sessionLeft (s\<lparr>gCancel := Some CloseA\<rparr>) < sessionLeft s"
  by (simp add: sessionLeft_def)

lemma client_own_left: "client_own c c' \<Longrightarrow> clientLeft c' < clientLeft c"
  by (induction rule: client_own.induct) (simp_all add: own_step_left cancel_left)

lemma client_env_left: "client_env c c' \<Longrightarrow> clientLeft c' \<le> clientLeft c"
  by (induction rule: client_env.induct) (simp_all add: env_step_left sessionLeft_max)

lemma client_enabled:
  assumes "client_ok c" and "c \<noteq> Finished"
  shows "\<exists>c'. client_own c c'"
proof (cases c)
  case (Bridging s)
  show ?thesis
  proof (cases "gCancel s = None \<or> gMain s = Returned")
    case True
    then show ?thesis using Bridging client_own.bridge_cancelled client_own.bridge_returns by blast
  next
    case False
    then have "session_over s" by (simp add: session_over_def)
    with own_step_enabled assms(1) False Bridging show ?thesis using client_own.bridge_own by fastforce
  qed
qed (use assms(2) client_own.prepare_fails in auto)

interpretation client: measured_system
  "\<lambda>c d. client_own c d \<or> client_env c d" client_own client_ok "\<lambda>c. c = Finished" clientLeft
  by unfold_locales
    (auto intro: client_own_ok client_env_ok client_own_left client_env_left less_imp_le client_enabled)

text \<open>All clients of the server.\<close>

interpretation clients: measured_system
  "one_moves (\<lambda>c d. client_own c d \<or> client_env c d)" "one_moves client_own" "list_all client_ok"
  "list_all (\<lambda>c. c = Finished)" "\<lambda>cs. sum_list (map clientLeft cs)"
  by (rule client.side_by_side)

inductive client_reachable :: "clientG \<Rightarrow> bool" where
  client_preparing: "client_reachable Preparing"
| client_bridging: "session_reachable s \<Longrightarrow> client_reachable (Bridging s)"
| client_finished: "client_reachable Finished"

lemma client_reachable_ok: "client_reachable c \<Longrightarrow> client_ok c"
  by (induction rule: client_reachable.induct) (auto intro: session_reachable_inv)

lemma clientsLeft_max: "sum_list (map clientLeft cs) \<le> 21 * length cs"
  by (induction cs) (use clientLeft_max in \<open>auto intro: add_mono\<close>)

lemma serve_done_all: "svSessions s = ids \<Longrightarrow> svSessions (serve cfg (map SessionDone ids) s) = []"
  by (induction ids arbitrary: s) (auto split: option.splits)

subsection \<open>Properties\<close>

text \<open>
  The server comes to an end: when the program is asked to stop, whatever each of its
  clients is doing at that time, all their goroutines finish by their own steps, of which
  there are at most 21 for each session the limit admits, and until then one of them can always
  go on; nothing the network does in between prevents it. Then no session is left, so the
  wait for the clients returns.
\<close>

theorem server_drains:
  assumes "list_all client_reachable cs" and "s = serve cfg evs newServer" and "length cs = length (svSessions s)"
    and "0 \<le> MaxConns cfg"
  shows "(\<exists>tss. run (one_moves client_own) cs tss \<and> list_all (\<lambda>c. c = Finished) (run_end cs tss)) \<and>
    (\<forall>tss. run (one_moves (\<lambda>c d. client_own c d \<or> client_env c d)) cs tss \<longrightarrow>
       int (steps_of (one_moves client_own) cs tss) \<le> 21 * MaxConns cfg \<and>
       (list_all (\<lambda>c. c = Finished) (run_end cs tss) \<or> (\<exists>ts. one_moves client_own (run_end cs tss) ts))) \<and>
    svSessions (serve cfg (map SessionDone (svSessions s)) s) = []"
proof -
  have ok: "list_all client_ok cs" using assms(1) by (auto simp: list_all_iff intro: client_reachable_ok)
  have "int (length cs) \<le> MaxConns cfg"
    using serve_keeps_inv [OF serve_inv_new [OF assms(4)], of evs] assms(2,3) by (simp add: serve_inv_def)
  then have "int (sum_list (map clientLeft cs)) \<le> 21 * MaxConns cfg" using clientsLeft_max [of cs] by linarith
  then show ?thesis
    using clients.comes_to_goal [OF ok] serve_done_all [OF refl] by (meson of_nat_mono order_trans)
qed

theorem server_drains_witness:
  "\<exists>tss. run (one_moves client_own) [Preparing, Bridging (startSession True True)] tss \<and>
     run_end [Preparing, Bridging (startSession True True)] tss = [Finished, Finished]"
proof -
  let ?cs = "[Preparing, Bridging (startSession True True)]" and ?cfg = "zeroConfig\<lparr>MaxConns := 2\<rparr>"
  let ?s = "serve ?cfg [AcceptConn 1, AcceptConn 2] newServer"
  have "list_all client_reachable ?cs" by (simp add: client_reachable.intros session_start)
  moreover have "length ?cs = length (svSessions ?s)" by (simp add: newServer_def Let_def)
  ultimately obtain tss where "run (one_moves client_own) ?cs tss" "list_all (\<lambda>c. c = Finished) (run_end ?cs tss)"
    using server_drains [of ?cs ?s ?cfg "[AcceptConn 1, AcceptConn 2]"] by auto
  moreover from this have "length (run_end ?cs tss) = 2" using run_length by fastforce
  ultimately show ?thesis by (intro exI [of _ tss]) (auto simp: length_Suc_conv numeral_2_eq_2)
qed

end
