(* ===== verification/WorkerShutdown.thy ===== *)
theory WorkerShutdown
  imports WorkerPool Progress
begin

text \<open>
  The goroutines around the worker pool of \<^verbatim>\<open>src/src/worker_pool.go\<close>: sessions that take a connection,
  the refilling goroutines between their dial and their critical section, and \<^verbatim>\<open>Close\<close>, which waits
  for them. Connections are numbered, and each one that has been opened for the pool has an
  owner that must close it.
\<close>

subsection \<open>Steps\<close>

datatype workerPC = WDialling | WDialled "goerror + nat \<times> string"

datatype workerOwner = OwnRefill workerPoolKey | OwnIdle workerPoolKey | OwnSession | OwnClosed

record workerSys =
  wkPool :: workerPool
  wkRefills :: "workerPoolKey \<rightharpoonup> workerPC"
  wkOwner :: "nat \<rightharpoonup> workerOwner"

definition newWorkerSys :: workerSys where
  "newWorkerSys = \<lparr>wkPool = newWorkerPool, wkRefills = Map.empty, wkOwner = Map.empty\<rparr>"

definition startRefill :: "bool \<Rightarrow> workerPoolKey \<Rightarrow> (workerPoolKey \<rightharpoonup> workerPC) \<Rightarrow> workerPoolKey \<rightharpoonup> workerPC" where
  "startRefill started key m = (if started then m(key \<mapsto> WDialling) else m)"

definition handOver :: "pooledWorker option \<Rightarrow> nat list \<Rightarrow> (nat \<rightharpoonup> workerOwner) \<Rightarrow> nat \<rightharpoonup> workerOwner" where
  "handOver item closedConns m =
     (\<lambda>c. if c \<in> set closedConns then Some OwnClosed
          else if (\<exists>w. item = Some w \<and> pkConn w = c) then Some OwnSession else m c)"

definition dialOwner ::
  "(goerror + nat \<times> string) \<Rightarrow> workerOwner \<Rightarrow> (nat \<rightharpoonup> workerOwner) \<Rightarrow> nat \<rightharpoonup> workerOwner" where
  "dialOwner r owner m = (case r of Inl e \<Rightarrow> m | Inr (c, d) \<Rightarrow> m(c \<mapsto> owner))"

definition freshConn :: "(goerror + nat \<times> string) \<Rightarrow> (nat \<rightharpoonup> workerOwner) \<Rightarrow> bool" where
  "freshConn r m = (case r of Inl e \<Rightarrow> True | Inr (c, d) \<Rightarrow> m c = None)"

text \<open>The steps of the refilling goroutines and the closing, which need no session.\<close>

inductive worker_move :: "workerSys \<Rightarrow> workerSys \<Rightarrow> bool" where
  worker_dialled: "wkRefills s key = Some WDialling \<Longrightarrow> fst (connectWorker env draws None cfg st) = r \<Longrightarrow>
    freshConn r (wkOwner s) \<Longrightarrow>
    worker_move s (s\<lparr>wkRefills := (wkRefills s)(key \<mapsto> WDialled r), wkOwner := dialOwner r (OwnRefill key) (wkOwner s)\<rparr>)"
| worker_done: "wkRefills s key = Some (WDialled r) \<Longrightarrow> workerRefillDone now r key (wkPool s) = (closedConns, p) \<Longrightarrow>
    worker_move s (s\<lparr>wkPool := p, wkRefills := (wkRefills s)(key := None),
      wkOwner := dialOwner r (if closedConns = [] then OwnIdle key else OwnClosed) (wkOwner s)\<rparr>)"

definition closeOwner :: "(nat \<rightharpoonup> workerOwner) \<Rightarrow> nat \<rightharpoonup> workerOwner" where
  "closeOwner m = (\<lambda>c. case m c of Some (OwnIdle key) \<Rightarrow> Some OwnClosed | other \<Rightarrow> other)"

inductive worker_close :: "workerSys \<Rightarrow> workerSys \<Rightarrow> bool" where
  worker_closed: "worker_close s (s\<lparr>wkPool := workerPool_Close (wkPool s), wkOwner := closeOwner (wkOwner s)\<rparr>)"

text \<open>And those of a session, or of the warm-up, which may start a refill.\<close>

inductive worker_use :: "Config \<Rightarrow> workerSys \<Rightarrow> workerSys \<Rightarrow> bool" for cfg where
  worker_get: "workerPool_get cfg now key (wkPool s) st = (item, closedConns, started, p, st') \<Longrightarrow>
    worker_use cfg s (s\<lparr>wkPool := p, wkRefills := startRefill started key (wkRefills s),
      wkOwner := handOver item closedConns (wkOwner s)\<rparr>)"
| worker_refill: "workerScheduleRefill cfg key (wkPool s) = (started, p) \<Longrightarrow>
    worker_use cfg s (s\<lparr>wkPool := p, wkRefills := startRefill started key (wkRefills s)\<rparr>)"

inductive worker_reachable :: "Config \<Rightarrow> workerSys \<Rightarrow> bool" for cfg where
  worker_new: "worker_reachable cfg newWorkerSys"
| worker_moved: "worker_reachable cfg s \<Longrightarrow> worker_move s t \<Longrightarrow> worker_reachable cfg t"
| worker_shut: "worker_reachable cfg s \<Longrightarrow> worker_close s t \<Longrightarrow> worker_reachable cfg t"
| worker_used: "worker_reachable cfg s \<Longrightarrow> worker_use cfg s t \<Longrightarrow> worker_reachable cfg t"

subsection \<open>The invariant\<close>

definition idle_owned :: "(workerPoolKey \<rightharpoonup> pooledWorker) \<Rightarrow> (nat \<rightharpoonup> workerOwner) \<Rightarrow> bool" where
  "idle_owned idl m \<longleftrightarrow>
     (\<forall>key w. idl key = Some w \<longrightarrow> m (pkConn w) = Some (OwnIdle key)) \<and>
     (\<forall>c key. m c = Some (OwnIdle key) \<longrightarrow> (\<exists>w. idl key = Some w \<and> pkConn w = c))"

definition refill_owned :: "(workerPoolKey \<rightharpoonup> workerPC) \<Rightarrow> (nat \<rightharpoonup> workerOwner) \<Rightarrow> bool" where
  "refill_owned rs m \<longleftrightarrow>
     (\<forall>key c d. rs key = Some (WDialled (Inr (c, d))) \<longrightarrow> m c = Some (OwnRefill key)) \<and>
     (\<forall>c key. m c = Some (OwnRefill key) \<longrightarrow> (\<exists>d. rs key = Some (WDialled (Inr (c, d)))))"

definition worker_inv :: "workerSys \<Rightarrow> bool" where
  "worker_inv s \<longleftrightarrow>
     wRefilling (wkPool s) = (\<lambda>key. wkRefills s key \<noteq> None) \<and> workers_good (wkPool s) \<and> finite (dom (wkRefills s)) \<and>
     idle_owned (wIdle (wkPool s)) (wkOwner s) \<and> refill_owned (wkRefills s) (wkOwner s)"

lemma idle_ownedI:
  assumes "\<And>key w. idl key = Some w \<Longrightarrow> m (pkConn w) = Some (OwnIdle key)"
    and "\<And>c key. m c = Some (OwnIdle key) \<Longrightarrow> \<exists>w. idl key = Some w \<and> pkConn w = c"
  shows "idle_owned idl m"
  using assms unfolding idle_owned_def by blast

lemma refill_ownedI:
  assumes "\<And>key c d. rs key = Some (WDialled (Inr (c, d))) \<Longrightarrow> m c = Some (OwnRefill key)"
    and "\<And>c key. m c = Some (OwnRefill key) \<Longrightarrow> \<exists>d. rs key = Some (WDialled (Inr (c, d)))"
  shows "refill_owned rs m"
  using assms unfolding refill_owned_def by blast

lemma idle_ownedD:
  "idle_owned idl m \<Longrightarrow> idl key = Some w \<Longrightarrow> m (pkConn w) = Some (OwnIdle key)"
  "idle_owned idl m \<Longrightarrow> m c = Some (OwnIdle key) \<Longrightarrow> \<exists>w. idl key = Some w \<and> pkConn w = c"
  unfolding idle_owned_def by blast+

lemma refill_ownedD:
  "refill_owned rs m \<Longrightarrow> rs key = Some (WDialled (Inr (c, d))) \<Longrightarrow> m c = Some (OwnRefill key)"
  "refill_owned rs m \<Longrightarrow> m c = Some (OwnRefill key) \<Longrightarrow> \<exists>d. rs key = Some (WDialled (Inr (c, d)))"
  unfolding refill_owned_def by blast+

lemma idle_unique:
  "idle_owned idl m \<Longrightarrow> idl key = Some w \<Longrightarrow> idl key' = Some w' \<Longrightarrow> pkConn w' = pkConn w \<Longrightarrow> key' = key"
  by (metis idle_ownedD(1) option.inject workerOwner.inject(2))

lemma refill_unique:
  "refill_owned rs m \<Longrightarrow> rs key = Some (WDialled (Inr (c, d))) \<Longrightarrow> rs key' = Some (WDialled (Inr (c, d'))) \<Longrightarrow> key' = key"
  by (metis refill_ownedD(1) option.inject workerOwner.inject(1))

lemma worker_inv_new: "worker_inv newWorkerSys"
  by (auto simp: worker_inv_def newWorkerSys_def newWorkerPool_def workers_good_def intro!: idle_ownedI refill_ownedI)

text \<open>The owner of one connection changes.\<close>

lemma idle_owned_other:
  assumes "idle_owned idl m" and "\<And>key. m c \<noteq> Some (OwnIdle key)" and "\<And>key. own \<noteq> OwnIdle key"
  shows "idle_owned idl (m(c \<mapsto> own))"
  using assms by (intro idle_ownedI) (auto dest: idle_ownedD split: if_splits)

lemma idle_owned_store:
  assumes "idle_owned idl m" and "\<And>key. m c \<noteq> Some (OwnIdle key)" and "idl key = None" and "pkConn w = c"
  shows "idle_owned (idl(key \<mapsto> w)) (m(c \<mapsto> OwnIdle key))"
  using assms by (intro idle_ownedI) (auto dest: idle_ownedD split: if_splits)

lemma idle_owned_take:
  assumes "idle_owned idl m" and "idl key = Some w" and "\<And>key. own \<noteq> OwnIdle key"
  shows "idle_owned (idl(key := None)) (m(pkConn w \<mapsto> own))"
  using assms by (intro idle_ownedI) (auto dest: idle_ownedD idle_unique split: if_splits)

lemma refill_owned_other:
  assumes "refill_owned rs m" and "\<And>key. m c \<noteq> Some (OwnRefill key)" and "\<And>key. own \<noteq> OwnRefill key"
  shows "refill_owned rs (m(c \<mapsto> own))"
  using assms by (intro refill_ownedI) (auto dest: refill_ownedD split: if_splits)

lemma refill_owned_dialled:
  assumes "refill_owned rs m" and "rs key = Some WDialling" and "m c = None"
  shows "refill_owned (rs(key \<mapsto> WDialled (Inr (c, d)))) (m(c \<mapsto> OwnRefill key))"
  using assms by (intro refill_ownedI) (auto dest: refill_ownedD split: if_splits)

lemma refill_owned_done:
  assumes "refill_owned rs m" and "rs key = Some (WDialled (Inr (c, d)))" and "\<And>key. own \<noteq> OwnRefill key"
  shows "refill_owned (rs(key := None)) (m(c \<mapsto> own))"
  using assms by (intro refill_ownedI) (auto dest: refill_ownedD refill_unique split: if_splits)

lemma refill_owned_upd:
  assumes "refill_owned rs m" and "\<And>c d. rs key \<noteq> Some (WDialled (Inr (c, d)))" and "\<And>c d. x \<noteq> Some (WDialled (Inr (c, d)))"
  shows "refill_owned (rs(key := x)) m"
proof (rule refill_ownedI)
  show "m c = Some (OwnRefill k)" if "(rs(key := x)) k = Some (WDialled (Inr (c, d)))" for k c d
    using that assms(3) [of c d] refill_ownedD(1) [OF assms(1)] by (cases "k = key") simp_all
  show "\<exists>d. (rs(key := x)) k = Some (WDialled (Inr (c, d)))" if "m c = Some (OwnRefill k)" for k c
    using refill_ownedD(2) [OF assms(1) that] assms(2) [of c] by (cases "k = key") auto
qed

lemma worker_close_inv: "worker_close s t \<Longrightarrow> worker_inv s \<Longrightarrow> worker_inv t"
proof (induction rule: worker_close.induct)
  case (worker_closed s)
  have "closeOwner (wkOwner s) c \<noteq> Some (OwnIdle key)"
    "closeOwner (wkOwner s) c = Some (OwnRefill key) \<longleftrightarrow> wkOwner s c = Some (OwnRefill key)" for c key
    by (simp_all add: closeOwner_def split: option.splits workerOwner.splits)
  then have "idle_owned Map.empty (closeOwner (wkOwner s))" "refill_owned (wkRefills s) (closeOwner (wkOwner s))"
    using worker_closed by (auto simp: worker_inv_def intro!: idle_ownedI refill_ownedI dest: refill_ownedD)
  then show ?case using worker_closed by (simp add: worker_inv_def workerPool_Close_def workers_good_def)
qed

lemma worker_dialled_inv:
  assumes "worker_inv s" and "wkRefills s key = Some WDialling" and "freshConn r (wkOwner s)"
  shows "worker_inv (s\<lparr>wkRefills := (wkRefills s)(key \<mapsto> WDialled r), wkOwner := dialOwner r (OwnRefill key) (wkOwner s)\<rparr>)"
proof -
  have inv: "idle_owned (wIdle (wkPool s)) (wkOwner s)" "refill_owned (wkRefills s) (wkOwner s)"
    using assms(1) by (simp_all add: worker_inv_def)
  have "refill_owned ((wkRefills s)(key \<mapsto> WDialled r)) (dialOwner r (OwnRefill key) (wkOwner s)) \<and>
      idle_owned (wIdle (wkPool s)) (dialOwner r (OwnRefill key) (wkOwner s))"
  proof (cases r)
    case (Inl e)
    then show ?thesis using inv refill_owned_upd [OF inv(2), of key] assms(2) by (simp add: dialOwner_def)
  next
    case (Inr cd)
    then show ?thesis
      using inv assms(2,3) refill_owned_dialled [OF inv(2) assms(2), of "fst cd" "snd cd"]
        idle_owned_other [OF inv(1), of "fst cd" "OwnRefill key"]
      by (simp add: dialOwner_def freshConn_def split_beta)
  qed
  then show ?thesis using assms by (auto simp: worker_inv_def fun_eq_iff)
qed

lemma worker_done_inv:
  assumes "worker_inv s" and "wkRefills s key = Some (WDialled r)" and "workerRefillDone now r key (wkPool s) = (closedConns, p)"
  shows "worker_inv (s\<lparr>wkPool := p, wkRefills := (wkRefills s)(key := None),
      wkOwner := dialOwner r (if closedConns = [] then OwnIdle key else OwnClosed) (wkOwner s)\<rparr>)"
proof -
  have inv: "idle_owned (wIdle (wkPool s)) (wkOwner s)" "refill_owned (wkRefills s) (wkOwner s)"
    using assms(1) by (simp_all add: worker_inv_def)
  have none: "wIdle (wkPool s) key = None" using assms(1,2) by (auto simp: worker_inv_def workers_good_def)
  have p: "wRefilling p = (wRefilling (wkPool s))(key := False)" "workers_good p"
    using assms workerFinish_refilling [of "(now, r)" key "wkPool s"] workerFinish_good [of "wkPool s" "(now, r)" key]
    by (simp_all add: workerFinish_def worker_inv_def)
  let ?m = "dialOwner r (if closedConns = [] then OwnIdle key else OwnClosed) (wkOwner s)"
  have "refill_owned ((wkRefills s)(key := None)) ?m \<and> idle_owned (wIdle p) ?m"
  proof (cases r)
    case (Inl e)
    then show ?thesis using inv refill_owned_upd [OF inv(2), of key None] assms(2,3)
      by (auto simp: dialOwner_def workerRefillDone_def Let_def)
  next
    case (Inr cd)
    obtain c d where r: "r = Inr (c, d)" using Inr by (cases cd) simp
    have "wkOwner s c = Some (OwnRefill key)" using refill_ownedD(1) [OF inv(2)] assms(2) r by simp
    then show ?thesis
      using r assms(2,3) none refill_owned_done [OF inv(2), of key c d] idle_owned_other [OF inv(1), of c OwnClosed]
        idle_owned_store [OF inv(1), of c key]
      by (auto simp: dialOwner_def workerRefillDone_def Let_def split: if_splits)
  qed
  then show ?thesis using assms p by (auto simp: worker_inv_def fun_eq_iff)
qed

lemma worker_move_inv: "worker_move s t \<Longrightarrow> worker_inv s \<Longrightarrow> worker_inv t"
  by (induction rule: worker_move.induct) (simp_all add: worker_dialled_inv worker_done_inv)

lemma startRefill_inv:
  assumes "workerScheduleRefill cfg key p = (started, p')" and "wRefilling p = (\<lambda>key. rs key \<noteq> None)"
    and "workers_good p" and "refill_owned rs m"
  shows "wRefilling p' = (\<lambda>k. startRefill started key rs k \<noteq> None)" and "workers_good p'"
    and "refill_owned (startRefill started key rs) m" and "wIdle p' = wIdle p"
proof -
  note d = workerScheduleRefill_def startRefill_def
  show "wRefilling p' = (\<lambda>k. startRefill started key rs k \<noteq> None)"
    using assms(1,2) by (auto simp: d fun_eq_iff split: if_splits)
  show "workers_good p'" using assms(1,3) by (auto simp: d workers_good_def split: if_splits)
  have "rs key = None" if started using that assms(1,2) by (auto simp: d split: if_splits)
  then show "refill_owned (startRefill started key rs) m"
    using assms(4) refill_owned_upd [OF assms(4), of key "Some WDialling"] by (auto simp: startRefill_def)
  show "wIdle p' = wIdle p" using assms(1) by (auto simp: d split: if_splits)
qed

lemma finite_startRefill [simp]: "finite (dom (startRefill started key rs)) = finite (dom rs)"
  by (simp add: startRefill_def)

lemma handOver_simps [simp]:
  "handOver None [] m = m" "handOver None [c] m = m(c \<mapsto> OwnClosed)" "handOver (Some w) [] m = m(pkConn w \<mapsto> OwnSession)"
  by (auto simp: handOver_def)

text \<open>Taking the idle connection of a key out of the pool.\<close>

lemma take_inv:
  assumes "worker_inv s" and "wIdle (wkPool s) key = Some w" and "own \<in> {OwnSession, OwnClosed}"
    and "workerScheduleRefill cfg key ((wkPool s)\<lparr>wIdle := (wIdle (wkPool s))(key := None)\<rparr>) = (started, p)"
  shows "worker_inv (s\<lparr>wkPool := p, wkRefills := startRefill started key (wkRefills s),
    wkOwner := (wkOwner s)(pkConn w \<mapsto> own)\<rparr>)"
proof -
  let ?p = "(wkPool s)\<lparr>wIdle := (wIdle (wkPool s))(key := None)\<rparr>" and ?m = "(wkOwner s)(pkConn w \<mapsto> own)"
  have inv: "idle_owned (wIdle (wkPool s)) (wkOwner s)" "refill_owned (wkRefills s) (wkOwner s)"
    using assms(1) by (simp_all add: worker_inv_def)
  have "idle_owned (wIdle ?p) ?m" using idle_owned_take [OF inv(1) assms(2), of own] assms(3) by auto
  moreover have "refill_owned (wkRefills s) ?m"
    using refill_owned_other [OF inv(2), of "pkConn w" own] idle_ownedD(1) [OF inv(1) assms(2)] assms(3) by auto
  moreover have "workers_good ?p" "wRefilling ?p = (\<lambda>key. wkRefills s key \<noteq> None)"
    using assms(1) by (auto simp: worker_inv_def workers_good_def)
  ultimately show ?thesis
    using startRefill_inv [OF assms(4), of "wkRefills s" ?m] assms(1) by (simp add: worker_inv_def)
qed

lemma worker_get_inv:
  assumes "worker_inv s" and "workerPool_get cfg now key (wkPool s) st = (item, closedConns, started, p, st')"
  shows "worker_inv (s\<lparr>wkPool := p, wkRefills := startRefill started key (wkRefills s),
    wkOwner := handOver item closedConns (wkOwner s)\<rparr>)"
proof (cases "wClosed (wkPool s) \<or> PoolSize cfg \<le> 0 \<or> wIdle (wkPool s) key = None")
  case True
  then have "p = wkPool s" "\<not> started" "item = None" "closedConns = []"
    using assms(2)
    by (auto simp: workerPool_get_def Let_def fun_upd_idem [of "wIdle (wkPool s)" key None] split: if_splits)
  then show ?thesis using assms(1) by (simp add: startRefill_def)
next
  case False
  then obtain w where w: "wIdle (wkPool s) key = Some w" by auto
  obtain started' p' where
    sch: "workerScheduleRefill cfg key ((wkPool s)\<lparr>wIdle := (wIdle (wkPool s))(key := None)\<rparr>) = (started', p')"
    by fastforce
  have "started = started' \<and> p = p' \<and> (item = Some w \<and> closedConns = [] \<or> item = None \<and> closedConns = [pkConn w])"
    using assms(2) False w sch by (auto simp: workerPool_get_def Let_def split: if_splits)
  then show ?thesis using take_inv [OF assms(1) w _ sch] by auto
qed

lemma worker_use_inv: "worker_use cfg s t \<Longrightarrow> worker_inv s \<Longrightarrow> worker_inv t"
proof (induction rule: worker_use.induct)
  case (worker_refill key s started p)
  then show ?case using startRefill_inv [of cfg key "wkPool s" started p "wkRefills s" "wkOwner s"]
    by (simp add: worker_inv_def)
qed (rule worker_get_inv)

lemma worker_reachable_inv: "worker_reachable cfg s \<Longrightarrow> worker_inv s"
  by (induction rule: worker_reachable.induct)
    (auto intro: worker_inv_new worker_move_inv worker_close_inv worker_use_inv)

subsection \<open>The end of the pool\<close>

fun workerPCLeft :: "workerPC \<Rightarrow> nat" where
  "workerPCLeft WDialling = 2"
| "workerPCLeft (WDialled r) = 1"

definition workersLeft :: "workerSys \<Rightarrow> nat" where
  "workersLeft s = map_left workerPCLeft (wkRefills s)"

lemma workerPCLeft_bounds: "0 < workerPCLeft pc" "workerPCLeft pc \<le> 2"
  by (cases pc; simp)+

lemma worker_move_left: "worker_move s t \<Longrightarrow> worker_inv s \<Longrightarrow> workersLeft t < workersLeft s"
proof (induction rule: worker_move.induct)
  case (worker_dialled s key env draws cfg st r)
  then show ?case
    using map_left_upd [of "wkRefills s" workerPCLeft key "Some (WDialled r)"] by (simp add: worker_inv_def workersLeft_def)
next
  case (worker_done s key r now closedConns p)
  then show ?case
    using map_left_upd [of "wkRefills s" workerPCLeft key None] by (simp add: worker_inv_def workersLeft_def)
qed

lemma worker_close_left: "worker_close s t \<Longrightarrow> workersLeft t = workersLeft s"
  by (induction rule: worker_close.induct) (simp add: workersLeft_def)

lemma worker_use_left: "worker_use cfg s t \<Longrightarrow> worker_inv s \<Longrightarrow> workersLeft t \<le> workersLeft s + 2"
proof (induction rule: worker_use.induct)
  case (worker_get now key s st item closedConns started p st')
  then show ?case
    using map_left_upd [of "wkRefills s" workerPCLeft key "Some WDialling"]
    by (simp add: worker_inv_def workersLeft_def startRefill_def)
next
  case (worker_refill key s started p)
  then show ?case
    using map_left_upd [of "wkRefills s" workerPCLeft key "Some WDialling"]
    by (simp add: worker_inv_def workersLeft_def startRefill_def)
qed

text \<open>A goroutine whose dial is cancelled comes back with an error.\<close>

lemma connectWorker_cancelled:
  obtains env e where "fst (connectWorker env draws None cfg st) = Inl e"
proof -
  let ?env = "\<lparr>weCtxErr = \<lambda>_. Some context_Canceled, weNow = \<lambda>_. 0, weDial = \<lambda>_ _. Inl context_Canceled,
    weWrite = \<lambda>_. None, weDone = \<lambda>_. True, weNowEnd = \<lambda>_. 0\<rparr>"
  have "\<exists>e. fst (connectWorker ?env draws None cfg st) = Inl e"
    by (cases "cfproxyWorkerDomainsForTry draws cfg") (simp_all add: connectWorker_def)
  with that show ?thesis by blast
qed

lemma worker_enabled:
  assumes "wkRefills s \<noteq> Map.empty"
  shows "\<exists>t. worker_move s t"
proof -
  from assms obtain key pc where pc: "wkRefills s key = Some pc" by (metis ext not_None_eq)
  show ?thesis
  proof (cases pc)
    case WDialling
    obtain env e where "fst (connectWorker env (\<lambda>_. 0) None zeroConfig zeroStats) = Inl e" by (rule connectWorker_cancelled)
    then show ?thesis using worker_move.worker_dialled [of s key env "\<lambda>_. 0" zeroConfig zeroStats] pc WDialling
      by (auto simp: freshConn_def)
  next
    case (WDialled r)
    obtain cs p where "workerRefillDone 0 r key (wkPool s) = (cs, p)" by fastforce
    then show ?thesis using worker_move.worker_done [of s key r 0 cs p] pc WDialled by blast
  qed
qed

interpretation worker_shutdown: measured_system
  "\<lambda>s t. worker_move s t \<or> worker_close s t" worker_move worker_inv "\<lambda>s. wkRefills s = Map.empty" workersLeft
  by unfold_locales
    (auto intro: worker_move_inv worker_close_inv worker_move_left less_imp_le worker_enabled dest: worker_close_left)

lemma worker_closed_owners:
  assumes "worker_inv s" and "wClosed (wkPool s)" and "wkRefills s = Map.empty"
  shows "wkOwner s c \<in> {None, Some OwnSession, Some OwnClosed}"
proof -
  have "wIdle (wkPool s) = Map.empty" using assms by (simp add: worker_inv_def workers_good_def)
  then have "wkOwner s c \<noteq> Some (OwnIdle key)" "wkOwner s c \<noteq> Some (OwnRefill key)" for key
    using assms idle_ownedD(2) [of _ "wkOwner s" c key] refill_ownedD(2) [of _ "wkOwner s" c key] by (auto simp: worker_inv_def)
  then show ?thesis by (metis insertCI workerOwner.exhaust option.exhaust)
qed

subsection \<open>Properties\<close>

text \<open>
  C34. No connection of the worker pool is lost: under every interleaving of sessions, refills and
  \<^verbatim>\<open>Close\<close>, a connection that was opened for the pool is idle in it, held by the goroutine that
  opened it, handed to a session or closed, and exactly one of these. The refilling goroutines
  end by themselves, by at most two steps each, whether the pool is closed or not, so that the wait
  of \<^verbatim>\<open>Close\<close> ends; and when the pool is closed and they have ended, every connection has been
  closed unless a session has it.
\<close>

theorem workerPool_no_leak:
  assumes "worker_reachable cfg s"
  shows "(wkOwner s c = Some (OwnIdle key) \<longleftrightarrow> (\<exists>w. wIdle (wkPool s) key = Some w \<and> pkConn w = c)) \<and>
    (wkOwner s c = Some (OwnRefill key) \<longleftrightarrow> (\<exists>d. wkRefills s key = Some (WDialled (Inr (c, d))))) \<and>
    (wClosed (wkPool s) \<and> wkRefills s = Map.empty \<longrightarrow> wkOwner s c \<in> {None, Some OwnSession, Some OwnClosed}) \<and>
    (\<exists>ts. run worker_move s ts \<and> wkRefills (run_end s ts) = Map.empty) \<and>
    (\<forall>ts. run (\<lambda>s t. worker_move s t \<or> worker_close s t) s ts \<longrightarrow>
       steps_of worker_move s ts \<le> 2 * card (dom (wkRefills s)) \<and>
       (wkRefills (run_end s ts) = Map.empty \<or> (\<exists>t. worker_move (run_end s ts) t)))"
proof (intro conjI)
  have inv: "worker_inv s" by (rule worker_reachable_inv [OF assms])
  then have own: "idle_owned (wIdle (wkPool s)) (wkOwner s)" "refill_owned (wkRefills s) (wkOwner s)"
    by (simp_all add: worker_inv_def)
  show "wkOwner s c = Some (OwnIdle key) \<longleftrightarrow> (\<exists>w. wIdle (wkPool s) key = Some w \<and> pkConn w = c)"
    using idle_ownedD [OF own(1)] by blast
  show "wkOwner s c = Some (OwnRefill key) \<longleftrightarrow> (\<exists>d. wkRefills s key = Some (WDialled (Inr (c, d))))"
    using refill_ownedD [OF own(2)] by blast
  show "wClosed (wkPool s) \<and> wkRefills s = Map.empty \<longrightarrow> wkOwner s c \<in> {None, Some OwnSession, Some OwnClosed}"
    using worker_closed_owners [OF inv] by blast
  have "workersLeft s \<le> 2 * card (dom (wkRefills s))"
    unfolding workersLeft_def by (rule map_left_max) (rule workerPCLeft_bounds(2))
  then show "\<exists>ts. run worker_move s ts \<and> wkRefills (run_end s ts) = Map.empty"
    and "\<forall>ts. run (\<lambda>s t. worker_move s t \<or> worker_close s t) s ts \<longrightarrow>
       steps_of worker_move s ts \<le> 2 * card (dom (wkRefills s)) \<and>
       (wkRefills (run_end s ts) = Map.empty \<or> (\<exists>t. worker_move (run_end s ts) t))"
    using worker_shutdown.comes_to_goal [OF inv] by (meson order_trans)+
qed

text \<open>A pool that is closed while it dials for the first time.\<close>

theorem workerPool_no_leak_witness:
  "\<exists>s ts. wClosed (wkPool s) \<and> wkRefills s \<noteq> Map.empty \<and> run worker_move s ts \<and> wkRefills (run_end s ts) = Map.empty"
proof -
  let ?cfg = "zeroConfig\<lparr>PoolSize := 1, FallbackCFProxyWorkerDomains := [''w.dev'']\<rparr>" and ?key = "\<lparr>wpkDC = 2, wpkDst = ''1.2.3.4''\<rparr>"
  have "workerScheduleRefill ?cfg ?key (wkPool newWorkerSys) = (True, newWorkerPool\<lparr>wRefilling := (\<lambda>_. False)(?key := True)\<rparr>)"
    by (simp add: workerScheduleRefill_def newWorkerSys_def newWorkerPool_def hasCFProxyWorkerDomains_def)
  note start = worker_use.worker_refill [OF this]
  obtain s where s: "worker_use ?cfg newWorkerSys s" "wkRefills s ?key = Some WDialling"
    by (rule that [OF start]) (simp add: startRefill_def)
  let ?t = "s\<lparr>wkPool := workerPool_Close (wkPool s), wkOwner := closeOwner (wkOwner s)\<rparr>"
  have "worker_reachable ?cfg ?t"
    by (rule worker_shut [OF worker_used [OF worker_new s(1)] worker_close.worker_closed])
  from workerPool_no_leak [OF this] obtain ts where "run worker_move ?t ts" "wkRefills (run_end ?t ts) = Map.empty" by blast
  moreover have "wClosed (wkPool ?t)" by (simp add: workerPool_Close_def)
  moreover have "wkRefills ?t \<noteq> Map.empty" using s(2) by auto
  ultimately show ?thesis by blast
qed

end
