(* ===== verification/ProgramExit.thy ===== *)
theory ProgramExit
  imports ServerDrain PoolShutdown WorkerShutdown DomainRefresh
begin

text \<open>
  The end of the program, \<^verbatim>\<open>main\<close> of \<^verbatim>\<open>src/src/server.go\<close>: once the context is done, \<^verbatim>\<open>serve\<close> waits for the
  clients, and the deferred function closes the pools and waits for the goroutines that were
  started with the program. The state here is that of all goroutines together, from the moment
  the function that \<^verbatim>\<open>main\<close> registers on the context has marked the WebSocket pool as closed.
\<close>

subsection \<open>The goroutines of the program\<close>

text \<open>
  A goroutine that works at every tick until the context is done: the statistics, the refresh of
  the domains and the rotation of the pool. The number is that of the ticks that will still come;
  when a tick and the end of the context are both there, \<^verbatim>\<open>select\<close> may take either.
\<close>

datatype tickerG = Selecting nat | Working nat | TickerDone

inductive ticker_own :: "tickerG \<Rightarrow> tickerG \<Rightarrow> bool" where
  ticker_ctx: "ticker_own (Selecting n) TickerDone"
| ticker_worked: "ticker_own (Working n) (Selecting n)"

inductive ticker_env :: "tickerG \<Rightarrow> tickerG \<Rightarrow> bool" where
  ticker_tick: "ticker_env (Selecting (Suc n)) (Working n)"

fun tickerLeft :: "tickerG \<Rightarrow> nat" where
  "tickerLeft (Selecting n) = 2 * n + 1"
| "tickerLeft (Working n) = 2 * n + 2"
| "tickerLeft TickerDone = 0"

interpretation ticker: measured_system
  "\<lambda>s t. ticker_own s t \<or> ticker_env s t" ticker_own "\<lambda>_. True" "\<lambda>t. t = TickerDone" tickerLeft
proof unfold_locales
  show "\<exists>t. ticker_own s t" if "s \<noteq> TickerDone" for s
    using that ticker_own.intros by (cases s) blast+
qed (auto elim!: ticker_own.cases ticker_env.cases)

text \<open>
  \<^verbatim>\<open>startPprof\<close>: without an address there is no goroutine. The context closes the server, and then
  \<^verbatim>\<open>ListenAndServe\<close> returns, as it does at once on a server that is closed already; it may also
  have failed before.
\<close>

datatype pprofG = PprofServing | PprofClosed | PprofDone

definition startPprof :: "Config \<Rightarrow> pprofG" where
  "startPprof cfg = (if PprofListen cfg = [] then PprofDone else PprofServing)"

inductive pprof_own :: "pprofG \<Rightarrow> pprofG \<Rightarrow> bool" where
  pprof_close: "pprof_own PprofServing PprofClosed"
| pprof_return: "pprof_own PprofClosed PprofDone"

inductive pprof_env :: "pprofG \<Rightarrow> pprofG \<Rightarrow> bool" where
  pprof_fail: "pprof_env PprofServing PprofDone"

fun pprofLeft :: "pprofG \<Rightarrow> nat" where
  "pprofLeft PprofServing = 2"
| "pprofLeft PprofClosed = 1"
| "pprofLeft PprofDone = 0"

interpretation pprof: measured_system
  "\<lambda>s t. pprof_own s t \<or> pprof_env s t" pprof_own "\<lambda>_. True" "\<lambda>p. p = PprofDone" pprofLeft
proof unfold_locales
  show "\<exists>t. pprof_own s t" if "s \<noteq> PprofDone" for s
    using that pprof_own.intros by (cases s) blast+
qed (auto elim!: pprof_own.cases pprof_env.cases)

subsection \<open>Where main waits\<close>

datatype exitPC = AwaitClients | AwaitPool | ClosingWorkers | AwaitRefills | AwaitStats | AwaitRefresh | AwaitPprof | Exited

fun exitRank :: "exitPC \<Rightarrow> nat" where
  "exitRank AwaitClients = 0"
| "exitRank AwaitPool = 1"
| "exitRank ClosingWorkers = 2"
| "exitRank AwaitRefills = 3"
| "exitRank AwaitStats = 4"
| "exitRank AwaitRefresh = 5"
| "exitRank AwaitPprof = 6"
| "exitRank Exited = 7"

lemma exitRank_inj: "exitRank a = exitRank b \<longleftrightarrow> a = b"
  by (cases a; cases b; simp)

lemma exitRank_max: "exitRank a \<le> 7"
  by (cases a) simp_all

text \<open>In the order in which \<^verbatim>\<open>main\<close> passes them.\<close>

instantiation exitPC :: linorder
begin

definition less_eq_exitPC :: "exitPC \<Rightarrow> exitPC \<Rightarrow> bool" where
  "less_eq_exitPC a b \<longleftrightarrow> exitRank a \<le> exitRank b"

definition less_exitPC :: "exitPC \<Rightarrow> exitPC \<Rightarrow> bool" where
  "less_exitPC a b \<longleftrightarrow> exitRank a < exitRank b"

instance
  by standard (auto simp: less_eq_exitPC_def less_exitPC_def exitRank_inj)

end

lemmas exitPC_order = less_eq_exitPC_def less_exitPC_def

record program =
  prMain :: exitPC
  prClients :: "clientG list"
  prGets :: nat
  prPool :: poolSys
  prRotate :: tickerG
  prWorkers :: workerSys
  prStats :: tickerG
  prRefresh :: tickerG
  prPprof :: pprofG

text \<open>
  What the program does by itself. \<^verbatim>\<open>pool.Close()\<close> returns when the refilling goroutines and the rotating
  one have ended, whoever has called it first; \<^verbatim>\<open>workers.Close()\<close> closes the worker pool and then waits
  for its goroutines.
\<close>

inductive program_own :: "Config \<Rightarrow> program \<Rightarrow> program \<Rightarrow> bool" for cfg where
  own_client: "one_moves client_own (prClients s) cs \<Longrightarrow> program_own cfg s (s\<lparr>prClients := cs\<rparr>)"
| own_pool: "refill_moves cfg (prPool s) p \<Longrightarrow> program_own cfg s (s\<lparr>prPool := p\<rparr>)"
| own_rotate: "ticker_own (prRotate s) t \<Longrightarrow> program_own cfg s (s\<lparr>prRotate := t\<rparr>)"
| own_worker: "worker_move (prWorkers s) w \<Longrightarrow> program_own cfg s (s\<lparr>prWorkers := w\<rparr>)"
| own_stats: "ticker_own (prStats s) t \<Longrightarrow> program_own cfg s (s\<lparr>prStats := t\<rparr>)"
| own_refresh: "ticker_own (prRefresh s) t \<Longrightarrow> program_own cfg s (s\<lparr>prRefresh := t\<rparr>)"
| own_pprof: "pprof_own (prPprof s) t \<Longrightarrow> program_own cfg s (s\<lparr>prPprof := t\<rparr>)"
| main_clients: "prMain s = AwaitClients \<Longrightarrow> list_all (\<lambda>c. c = Finished) (prClients s) \<Longrightarrow>
    program_own cfg s (s\<lparr>prMain := AwaitPool\<rparr>)"
| main_pool: "prMain s = AwaitPool \<Longrightarrow> refillers (prPool s) = Map.empty \<Longrightarrow> prRotate s = TickerDone \<Longrightarrow>
    program_own cfg s (s\<lparr>prMain := ClosingWorkers\<rparr>)"
| main_close: "prMain s = ClosingWorkers \<Longrightarrow> worker_close (prWorkers s) w \<Longrightarrow>
    program_own cfg s (s\<lparr>prMain := AwaitRefills, prWorkers := w\<rparr>)"
| main_refills: "prMain s = AwaitRefills \<Longrightarrow> wkRefills (prWorkers s) = Map.empty \<Longrightarrow>
    program_own cfg s (s\<lparr>prMain := AwaitStats\<rparr>)"
| main_stats: "prMain s = AwaitStats \<Longrightarrow> prStats s = TickerDone \<Longrightarrow> program_own cfg s (s\<lparr>prMain := AwaitRefresh\<rparr>)"
| main_refresh: "prMain s = AwaitRefresh \<Longrightarrow> prRefresh s = TickerDone \<Longrightarrow> program_own cfg s (s\<lparr>prMain := AwaitPprof\<rparr>)"
| main_pprof: "prMain s = AwaitPprof \<Longrightarrow> prPprof s = PprofDone \<Longrightarrow> program_own cfg s (s\<lparr>prMain := Exited\<rparr>)"

text \<open>
  And what may happen besides: the network, the ticks, the sessions and the rotation at the closed
  pool, a session that prepares asking the worker pool (each does so once at most, so that only a
  number of times is left, \<open>prGets\<close>), and the closing of the worker pool by the function on the context.
\<close>

inductive program_env :: "Config \<Rightarrow> program \<Rightarrow> program \<Rightarrow> bool" for cfg where
  env_client: "one_moves client_env (prClients s) cs \<Longrightarrow> program_env cfg s (s\<lparr>prClients := cs\<rparr>)"
| env_pool: "pool_step cfg (prPool s) p \<Longrightarrow> program_env cfg s (s\<lparr>prPool := p\<rparr>)"
| env_get: "prGets s = Suc n \<Longrightarrow> Preparing \<in> set (prClients s) \<Longrightarrow> worker_use cfg (prWorkers s) w \<Longrightarrow>
    program_env cfg s (s\<lparr>prGets := n, prWorkers := w\<rparr>)"
| env_close: "refillers (prPool s) = Map.empty \<Longrightarrow> prRotate s = TickerDone \<Longrightarrow> worker_close (prWorkers s) w \<Longrightarrow>
    program_env cfg s (s\<lparr>prWorkers := w\<rparr>)"
| env_rotate: "ticker_env (prRotate s) t \<Longrightarrow> program_env cfg s (s\<lparr>prRotate := t\<rparr>)"
| env_stats: "ticker_env (prStats s) t \<Longrightarrow> program_env cfg s (s\<lparr>prStats := t\<rparr>)"
| env_refresh: "ticker_env (prRefresh s) t \<Longrightarrow> program_env cfg s (s\<lparr>prRefresh := t\<rparr>)"
| env_pprof: "pprof_env (prPprof s) t \<Longrightarrow> program_env cfg s (s\<lparr>prPprof := t\<rparr>)"

subsection \<open>The invariant\<close>

text \<open>Each part is as its own theory demands, and what \<^verbatim>\<open>main\<close> has waited for has happened.\<close>

definition exit_inv :: "program \<Rightarrow> bool" where
  "exit_inv s \<longleftrightarrow>
     (AwaitClients < prMain s \<longrightarrow> list_all (\<lambda>c. c = Finished) (prClients s)) \<and>
     (AwaitPool < prMain s \<longrightarrow> refillers (prPool s) = Map.empty \<and> prRotate s = TickerDone) \<and>
     (ClosingWorkers < prMain s \<longrightarrow> wClosed (wkPool (prWorkers s))) \<and>
     (AwaitRefills < prMain s \<longrightarrow> wkRefills (prWorkers s) = Map.empty) \<and>
     (AwaitStats < prMain s \<longrightarrow> prStats s = TickerDone) \<and>
     (AwaitRefresh < prMain s \<longrightarrow> prRefresh s = TickerDone) \<and>
     (AwaitPprof < prMain s \<longrightarrow> prPprof s = PprofDone)"

definition program_good :: "Config \<Rightarrow> program \<Rightarrow> bool" where
  "program_good cfg s \<longleftrightarrow>
     list_all client_ok (prClients s) \<and> shutting cfg (prPool s) \<and> worker_inv (prWorkers s) \<and> exit_inv s"

definition programLeft :: "program \<Rightarrow> nat" where
  "programLeft s =
     sum_list (map clientLeft (prClients s)) + 2 * prGets s + poolLeft (prPool s) + tickerLeft (prRotate s) +
     workersLeft (prWorkers s) + tickerLeft (prStats s) + tickerLeft (prRefresh s) + pprofLeft (prPprof s) +
     (7 - exitRank (prMain s))"

text \<open>What has ended stays so.\<close>

lemma finished_stays:
  "list_all (\<lambda>c. c = Finished) cs \<Longrightarrow> \<not> one_moves client_own cs ds"
  "list_all (\<lambda>c. c = Finished) cs \<Longrightarrow> \<not> one_moves client_env cs ds"
  by (auto simp: one_moves_def list_all_length elim!: client_own.cases client_env.cases)

lemma done_stays [simp]: "\<not> ticker_own TickerDone t" "\<not> ticker_env TickerDone t" "\<not> pprof_own PprofDone p" "\<not> pprof_env PprofDone p"
  by (auto elim: ticker_own.cases ticker_env.cases pprof_own.cases pprof_env.cases)

lemma refilled_stays:
  "shutting cfg p \<Longrightarrow> refillers p = Map.empty \<Longrightarrow> pool_step cfg p q \<Longrightarrow> refillers q = Map.empty"
  using closed_step by (fastforce simp: shutting_def moves_on_def)

lemma refill_moves_step: "refill_moves cfg p q \<Longrightarrow> pool_step cfg p q"
  by (simp add: refill_moves_def)

lemma worker_move_keeps:
  "worker_move s t \<Longrightarrow> wClosed (wkPool t) = wClosed (wkPool s)"
  "worker_move s t \<Longrightarrow> wkRefills s \<noteq> Map.empty"
  by (induction rule: worker_move.induct) (auto simp: workerRefillDone_def Let_def split: sum.splits if_splits)

lemma worker_close_keeps:
  "worker_close s t \<Longrightarrow> wClosed (wkPool t)" "worker_close s t \<Longrightarrow> wkRefills t = wkRefills s"
  by (induction rule: worker_close.induct) (simp_all add: workerPool_Close_def)

lemma not_preparing: "list_all (\<lambda>c. c = Finished) cs \<Longrightarrow> Preparing \<notin> set cs"
  by (auto simp: list_all_iff)

lemma clients_keep:
  "list_all client_ok cs \<Longrightarrow> one_moves client_own cs ds \<Longrightarrow> list_all client_ok ds"
  "list_all client_ok cs \<Longrightarrow> one_moves client_env cs ds \<Longrightarrow> list_all client_ok ds"
  by (auto elim!: one_movesE intro: client_own_ok client_env_ok)

lemma shutting_step: "shutting cfg p \<Longrightarrow> pool_step cfg p q \<Longrightarrow> shutting cfg q"
  by (rule shutdown.keeps)

lemma pool_step_good:
  assumes "pool_step cfg (prPool s) p" and "program_good cfg s"
  shows "program_good cfg (s\<lparr>prPool := p\<rparr>)"
proof -
  have "shutting cfg (prPool s)" using assms(2) by (simp add: program_good_def)
  with assms(1) have "shutting cfg p" "refillers (prPool s) = Map.empty \<Longrightarrow> refillers p = Map.empty"
    using shutting_step refilled_stays by blast+
  with assms(2) show ?thesis by (simp add: program_good_def exit_inv_def)
qed

lemma clients_step_good:
  assumes "one_moves client_own (prClients s) cs \<or> one_moves client_env (prClients s) cs" and "program_good cfg s"
  shows "program_good cfg (s\<lparr>prClients := cs\<rparr>)"
proof -
  have "list_all client_ok cs" using assms clients_keep [of "prClients s" cs] by (auto simp: program_good_def)
  moreover have "\<not> list_all (\<lambda>c. c = Finished) (prClients s)" using assms(1) finished_stays by blast
  ultimately show ?thesis using assms(2) by (simp add: program_good_def exit_inv_def)
qed

lemma program_own_good: "program_own cfg s t \<Longrightarrow> program_good cfg s \<Longrightarrow> program_good cfg t"
proof (induction rule: program_own.induct)
  case (own_client s cs)
  then show ?case using clients_step_good by blast
next
  case (own_pool s p)
  then show ?case using pool_step_good refill_moves_step by blast
next
  case (own_worker s w)
  then show ?case
    using worker_move_inv [OF own_worker.hyps] worker_move_keeps [OF own_worker.hyps] by (auto simp: program_good_def exit_inv_def)
next
  case (main_close s w)
  then show ?case
    using worker_close_inv [OF main_close.hyps(2)] worker_close_keeps [OF main_close.hyps(2)]
    by (auto simp: program_good_def exit_inv_def exitPC_order)
qed (auto simp: program_good_def exit_inv_def exitPC_order)

lemma program_env_good: "program_env cfg s t \<Longrightarrow> program_good cfg s \<Longrightarrow> program_good cfg t"
proof (induction rule: program_env.induct)
  case (env_client s cs)
  then show ?case using clients_step_good by blast
next
  case (env_pool s p)
  then show ?case using pool_step_good by blast
next
  case (env_get s n w)
  then have "\<not> AwaitClients < prMain s" using not_preparing by (auto simp: program_good_def exit_inv_def)
  then have "prMain s = AwaitClients" by (cases "prMain s") (simp_all add: exitPC_order)
  then show ?case
    using env_get worker_use_inv [OF env_get.hyps(3)] by (auto simp: program_good_def exit_inv_def exitPC_order)
next
  case (env_close s w)
  then show ?case
    using worker_close_inv [OF env_close.hyps(3)] worker_close_keeps [OF env_close.hyps(3)]
    by (auto simp: program_good_def exit_inv_def)
qed (auto simp: program_good_def exit_inv_def exitPC_order)

lemma pool_parts:
  "shutting cfg p \<Longrightarrow> refill_moves cfg p q \<Longrightarrow> poolLeft q < poolLeft p"
  "shutting cfg p \<Longrightarrow> pool_step cfg p q \<Longrightarrow> poolLeft q \<le> poolLeft p"
  by (rule shutdown.works shutdown.lasts, assumption+)+

lemma client_parts:
  "list_all client_ok cs \<Longrightarrow> one_moves client_own cs ds \<Longrightarrow> sum_list (map clientLeft ds) < sum_list (map clientLeft cs)"
  "one_moves client_env cs ds \<Longrightarrow> sum_list (map clientLeft ds) \<le> sum_list (map clientLeft cs)"
  by (rule clients.works, assumption+) (auto elim!: one_movesE dest: client_env_left)

lemma small_parts:
  "ticker_own a b \<Longrightarrow> tickerLeft b < tickerLeft a" "ticker_env a b \<Longrightarrow> tickerLeft b \<le> tickerLeft a"
  "pprof_own c d \<Longrightarrow> pprofLeft d < pprofLeft c" "pprof_env c d \<Longrightarrow> pprofLeft d \<le> pprofLeft c"
  using ticker.works ticker.lasts pprof.works pprof.lasts by auto

lemma program_own_left: "program_own cfg s t \<Longrightarrow> program_good cfg s \<Longrightarrow> programLeft t < programLeft s"
  by (induction rule: program_own.induct)
    (auto simp: program_good_def programLeft_def worker_close_left
      dest: client_parts pool_parts worker_move_left small_parts)

lemma program_env_left: "program_env cfg s t \<Longrightarrow> program_good cfg s \<Longrightarrow> programLeft t \<le> programLeft s"
  by (induction rule: program_env.induct)
    (auto simp: program_good_def programLeft_def worker_close_left
      dest: client_parts pool_parts worker_use_left small_parts)

lemma program_enabled:
  assumes "program_good cfg s" and "prMain s \<noteq> Exited"
  shows "\<exists>t. program_own cfg s t"
proof (cases "prMain s")
  case AwaitClients
  show ?thesis
  proof (cases "list_all (\<lambda>c. c = Finished) (prClients s)")
    case True
    then show ?thesis using program_own.main_clients AwaitClients by blast
  next
    case False
    then show ?thesis using clients.enabled assms(1) program_own.own_client by (fastforce simp: program_good_def)
  qed
next
  case AwaitPool
  consider "refillers (prPool s) \<noteq> Map.empty" | "prRotate s \<noteq> TickerDone"
    | "refillers (prPool s) = Map.empty" "prRotate s = TickerDone" by blast
  then show ?thesis
  proof cases
    case 1
    then show ?thesis using shutdown.enabled assms(1) program_own.own_pool by (fastforce simp: program_good_def)
  next
    case 2
    then show ?thesis using ticker.enabled program_own.own_rotate by blast
  next
    case 3
    then show ?thesis using program_own.main_pool AwaitPool by blast
  qed
next
  case ClosingWorkers
  then show ?thesis using program_own.main_close worker_close.worker_closed by blast
next
  case AwaitRefills
  then show ?thesis using worker_enabled program_own.own_worker program_own.main_refills by blast
next
  case AwaitStats
  then show ?thesis using ticker.enabled program_own.own_stats program_own.main_stats by blast
next
  case AwaitRefresh
  then show ?thesis using ticker.enabled program_own.own_refresh program_own.main_refresh by blast
next
  case AwaitPprof
  then show ?thesis using pprof.enabled program_own.own_pprof program_own.main_pprof by blast
qed (use assms(2) in simp)

interpretation program: measured_system
  "\<lambda>s t. program_own cfg s t \<or> program_env cfg s t" "program_own cfg" "program_good cfg" "\<lambda>s. prMain s = Exited" programLeft
  for cfg
  by unfold_locales
    (auto intro: program_own_good program_env_good program_own_left program_env_left less_imp_le program_enabled)

text \<open>\<^verbatim>\<open>main\<close> never goes back.\<close>

lemma main_forward: "program_own cfg s t \<or> program_env cfg s t \<Longrightarrow> prMain s \<le> prMain t"
  by (auto simp: exitPC_order elim!: program_own.cases program_env.cases)

lemma exited_clean:
  assumes "program_good cfg s" and "prMain s = Exited"
  shows "list_all (\<lambda>c. c = Finished) (prClients s) \<and> owners (prPool s) c \<in> {None, Some OClient, Some OClosed} \<and>
    wkOwner (prWorkers s) c \<in> {None, Some OwnSession, Some OwnClosed} \<and>
    prRotate s = TickerDone \<and> prStats s = TickerDone \<and> prRefresh s = TickerDone \<and> prPprof s = PprofDone"
proof -
  have inv: "exit_inv s" "shutting cfg (prPool s)" "worker_inv (prWorkers s)" using assms(1) by (simp_all add: program_good_def)
  then have ended: "list_all (\<lambda>c. c = Finished) (prClients s)" "refillers (prPool s) = Map.empty" "prRotate s = TickerDone"
    "wClosed (wkPool (prWorkers s))" "wkRefills (prWorkers s) = Map.empty"
    "prStats s = TickerDone" "prRefresh s = TickerDone" "prPprof s = PprofDone"
    using assms(2) by (simp_all add: exit_inv_def exitPC_order)
  moreover have "pool_inv cfg (prPool s)" "closed (pool (prPool s))"
    using inv(2) pool_reachable_inv by (auto simp: shutting_def)
  ultimately show ?thesis using closed_owners worker_closed_owners [OF inv(3)] by blast
qed

text \<open>The program as it is when the context is done: what its goroutines may be doing.\<close>

definition stopping :: "Config \<Rightarrow> program \<Rightarrow> bool" where
  "stopping cfg s \<longleftrightarrow>
     prMain s = AwaitClients \<and> list_all client_reachable (prClients s) \<and>
     pool_reachable cfg (prPool s) \<and> closed (pool (prPool s)) \<and> worker_reachable cfg (prWorkers s)"

lemma stopping_good: "stopping cfg s \<Longrightarrow> program_good cfg s"
  using client_reachable_ok worker_reachable_inv
  by (auto simp: stopping_def program_good_def shutting_def exit_inv_def exitPC_order list_all_iff)

subsection \<open>Properties\<close>


definition sampleStopping :: "clientG list \<Rightarrow> program" where
  "sampleStopping cs =
     \<lparr>prMain = AwaitClients, prClients = cs, prGets = 1,
      prPool = \<lparr>pool = poolClose newWSPool, refillers = Map.empty, owners = Map.empty\<rparr>, prRotate = Selecting 1,
      prWorkers = newWorkerSys, prStats = Selecting 2, prRefresh = Working 0,
      prPprof = startPprof (zeroConfig\<lparr>PprofListen := ''127.0.0.1:6060''\<rparr>)\<rparr>"


end
