(* ===== verification/Delivery.thy ===== *)
theory Delivery
  imports Routing
begin

text \<open>
  What a session delivers when nothing goes wrong. \<^verbatim>\<open>Routing\<close> shows that whatever fails, each side
  receives a prefix of what the other has sent; here no write fails and each side is read to its
  end, and then all of it arrives, over every route.
\<close>

text \<open>A side that sends some bytes in any pieces and then closes.\<close>

definition closesAfter :: "reads \<Rightarrow> bool" where
  "closesAfter rs \<longleftrightarrow>
     rs \<noteq> [] \<and> list_all (\<lambda>(chunk, err). chunk \<noteq> [] \<and> err = None) (butlast rs) \<and>
     (case last rs of (chunk, err) \<Rightarrow> chunk = [] \<and> err \<noteq> None)"

text \<open>Whole messages: their bodies are read to their end, and after them the connection closes.\<close>

fun wholeMessages :: "(goerror + bool \<times> reads) list \<Rightarrow> bool" where
  "wholeMessages [] = False"
| "wholeMessages (Inl e # ms) = True"
| "wholeMessages (Inr (binary, rs) # ms) = (closesAfter rs \<and> snd (last rs) = Some io_EOF \<and> wholeMessages ms)"

definition wholeAnswer :: "routeEnv \<Rightarrow> session \<Rightarrow> bool" where
  "wholeAnswer env s =
     (case sUpstream s of ViaTCP dst \<Rightarrow> closesAfter (reTCPDown env) | _ \<Rightarrow> wholeMessages (downMsgs (reBridge env)))"

lemma closesAfterE:
  assumes "closesAfter rs"
  obtains cs e where "rs = map (\<lambda>c. (c, None)) cs @ [([], Some e)]" and "[] \<notin> set cs"
proof -
  from assms obtain e where last: "last rs = ([], Some e)" and ne: "rs \<noteq> []" by (auto simp: closesAfter_def)
  have "butlast rs = map (\<lambda>c. (c, None)) (map fst (butlast rs))"
    using assms by (auto simp: closesAfter_def list_all_iff comp_def intro!: map_idI [symmetric])
  then have "rs = map (\<lambda>c. (c, None)) (map fst (butlast rs)) @ [([], Some e)]"
    using last ne append_butlast_last_id by metis
  moreover have "[] \<notin> set (map fst (butlast rs))" using assms by (auto simp: closesAfter_def list_all_iff)
  ultimately show ?thesis by (rule that)
qed

lemma readPayload_closes: "readPayload (map (\<lambda>c. (c, None)) cs @ [([], Some e)]) = concat cs"
  by (induction cs) simp_all

subsection \<open>The loops\<close>

lemma relayLoop_all:
  "[] \<notin> set cs \<Longrightarrow> concat (rsOut (snd (relayLoop (\<lambda>_. None) (map (\<lambda>c. (c, None)) cs @ [([], Some e)]) s))) =
     concat (rsOut s) @ recode (rsDec s) (rsEnc s) (concat cs)"
proof (induction cs arbitrary: s)
  case (Cons c cs)
  have "c \<noteq> []" using Cons.prems by auto
  then show ?case
    using Cons by (simp add: Let_def split_beta recode_append) (simp add: recode_def)
qed simp

lemma downReads_all:
  "[] \<notin> set cs \<Longrightarrow> fst (downReads (\<lambda>_. None) (map (\<lambda>c. (c, None)) cs @ [([], Some io_EOF)]) s) = MessageEnd"
proof (induction cs arbitrary: s)
  case (Cons c cs)
  have "c \<noteq> []" using Cons.prems by auto
  moreover have "fst (downChunk (\<lambda>_. None) c s) = None" by (simp add: downChunk_def Let_def split_beta)
  ultimately show ?case using Cons by (cases "downChunk (\<lambda>_. None) c s") simp
qed simp

lemma downLoop_all: "wholeMessages ms \<Longrightarrow> delivered s (snd (downLoop (\<lambda>_. None) ms s)) (binaryPayload ms)"
proof (induction ms arbitrary: s rule: wholeMessages.induct)
  case (3 binary rs ms)
  obtain cs e where rs: "rs = map (\<lambda>c. (c, None)) cs @ [([], Some e)]" "[] \<notin> set cs"
    using 3 closesAfterE by (metis wholeMessages.simps(3))
  then have e: "e = io_EOF" using 3 by simp
  let ?o = "downReads (\<lambda>_. None) rs (s\<lparr>dsPkts := dsPkts s + 1\<rparr>)"
  have fin: "fst ?o = MessageEnd" using downReads_all [OF rs(2)] rs(1) e by simp
  then have "delivered (s\<lparr>dsPkts := dsPkts s + 1\<rparr>) (snd ?o) (readPayload rs)" using downReads_delivers by blast
  then have "delivered s (snd ?o) (readPayload rs)" by (simp add: delivered_def)
  then have "delivered s (snd (downLoop (\<lambda>_. None) ms (snd ?o))) (readPayload rs @ binaryPayload ms)"
    using 3 delivered_trans by (metis wholeMessages.simps(3))
  then show ?case using 3 fin by (cases ?o) simp
qed simp_all

lemma bridgeUp_all:
  assumes "[] \<notin> set cs" and "okPart (usSplitter s)" and "bufferedPart (usSplitter s) = []"
  shows "concat (usSent (snd (bridgeUp (\<lambda>_. None) (map (\<lambda>c. (c, None)) cs @ [([], Some e)]) s))) =
    concat (usSent s) @ recode (usDec s) (usEnc s) (concat cs)"
proof -
  let ?plain = "fst (xchunks (usDec s) cs)"
  let ?parts = "fst (splitReads (usSplitter s) ?plain) @ fst (flushPart (snd (splitReads (usSplitter s) ?plain)))"
  have "concat ?parts = concat ?plain"
    using splitReads_integrity [OF assms(2), of ?plain] assms(3) by (auto simp: flushPart_one)
  then show ?thesis
    using bridgeUp_exact [OF assms(1), of e s] by (simp add: xchunks_concat recode_def)
qed

subsection \<open>The routes\<close>

definition complete :: "routeEnv \<Rightarrow> ciphers \<Rightarrow> bytes \<Rightarrow> session \<Rightarrow> bool" where
  "complete env c relayInit s \<longleftrightarrow>
     (upWriteErr (reBridge env) = (\<lambda>_. None) \<and> closesAfter (upReads (reBridge env)) \<longrightarrow>
        (\<exists>up. sSent s = relayInit # up \<and> concat up = recode (cltDec c) (tgEnc c) (fromClient env))) \<and>
     (downWriteErr (reBridge env) = (\<lambda>_. None) \<and> wholeAnswer env s \<longrightarrow>
        concat (sClient s) = recode (tgDec c) (cltEnc c) (fromTelegram env s))"

lemma fromClient_closes: "upReads (reBridge env) = map (\<lambda>c. (c, None)) cs @ [([], Some e)] \<Longrightarrow> fromClient env = concat cs"
  by (simp add: fromClient_def comp_def)

lemma startWS_complete:
  assumes "startWS up (reBridge env) c sp relayInit st = (s, st')" and "okPart sp" and "bufferedPart sp = []"
    and "\<And>dst. up \<noteq> ViaTCP dst"
  shows "complete env c relayInit s"
proof -
  let ?u = "snd (bridgeUp (upWriteErr (reBridge env)) (upReads (reBridge env)) (startUp c sp st))"
  let ?d = "snd (downLoop (downWriteErr (reBridge env)) (downMsgs (reBridge env)) (startDown c st))"
  have s: "sUpstream s = up" "sSent s = relayInit # usSent ?u" "sClient s = dsOut ?d"
    using assms(1) by (auto simp: startWS_def bridgeWS_def split_beta)
  have "concat (usSent ?u) = recode (cltDec c) (tgEnc c) (fromClient env)"
    if err: "upWriteErr (reBridge env) = (\<lambda>_. None)" and rs: "closesAfter (upReads (reBridge env))"
  proof -
    from rs obtain cs e where cs: "upReads (reBridge env) = map (\<lambda>c. (c, None)) cs @ [([], Some e)]" "[] \<notin> set cs"
      by (rule closesAfterE)
    show ?thesis
      using bridgeUp_all [OF cs(2), of "startUp c sp st" e] assms(2,3) cs(1) err fromClient_closes [OF cs(1)]
      by (simp del: bridgeUp_sent add: startUp_def)
  qed
  moreover have "concat (dsOut ?d) = recode (tgDec c) (cltEnc c) (fromTelegram env s)"
    if err: "downWriteErr (reBridge env) = (\<lambda>_. None)" and whole: "wholeAnswer env s"
  proof -
    have tg: "fromTelegram env s = binaryPayload (downMsgs (reBridge env))" "wholeMessages (downMsgs (reBridge env))"
      using assms(4) s(1) whole by (auto simp: fromTelegram_def wholeAnswer_def split: upstream.splits)
    show ?thesis using downLoop_all [OF tg(2), of "startDown c st"] tg(1) err by (simp add: delivered_def startDown_def)
  qed
  ultimately show ?thesis unfolding complete_def using s by simp
qed

lemma tcpFallback_complete:
  assumes "tcpFallback env dst relayInit c px = (Inr s, px')"
    and "\<And>r. tcpDial (reTCP env) = Inr r \<Longrightarrow> outBytes r = []"
  shows "complete env c relayInit s"
proof -
  note s = tcpFallback_parts [OF assms]
  have "concat (rsOut (snd (relayLoop (\<lambda>_. None) rs (startRelay dec enc n)))) = recode dec enc (readPayload rs)"
    if "closesAfter rs" for rs dec enc n
  proof -
    from that obtain cs e where cs: "rs = map (\<lambda>c. (c, None)) cs @ [([], Some e)]" "[] \<notin> set cs" by (rule closesAfterE)
    show ?thesis using relayLoop_all [OF cs(2), of e "startRelay dec enc n"]
      by (simp add: cs(1) readPayload_closes startRelay_def)
  qed
  moreover have "fromClient env = readPayload (upReads (reBridge env))" if "closesAfter (upReads (reBridge env))"
    using closesAfterE [OF that] fromClient_closes readPayload_closes by metis
  moreover have "wholeAnswer env s = closesAfter (reTCPDown env)" "fromTelegram env s = readPayload (reTCPDown env)"
    by (simp_all add: wholeAnswer_def fromTelegram_def s(1))
  ultimately show ?thesis using s(2,3) by (simp add: complete_def)
qed

lemma routeClient_complete:
  assumes "freshTCP env" and "routeClient env hi relayInit c px = (Served s, px')"
  shows "complete env c relayInit s"
  by (rule routeClient_session [OF assms(2)])
    (auto intro: startWS_complete tcpFallback_complete freshTCP_dial [OF assms(1)])

end
