(* ===== verification/FirstRead.thy ===== *)
theory FirstRead
  imports Prelude
begin

text \<open>
  The hand-over of a pooled WebSocket, \<^verbatim>\<open>newPooledWS\<close>, \<^verbatim>\<open>NextReader\<close> and \<^verbatim>\<open>stale\<close> of \<^verbatim>\<open>src/src/pool.go\<close>.
  While a connection is idle a goroutine waits in the library's \<^verbatim>\<open>NextReader\<close>, so that a close
  frame is noticed; what it reads is given to the bridge as its first message. The library
  allows one reader at a time. The answers of the connection are a list; that no answer has
  come yet is the empty list.
\<close>

record 'm firstReader =
  frConn :: "'m list"
  frFirst :: "'m option"
  frTaken :: bool

definition newFirstReader :: "'m list \<Rightarrow> 'm firstReader" where
  "newFirstReader ms = \<lparr>frConn = ms, frFirst = None, frTaken = False\<rparr>"

text \<open>The goroutine: its read returns when an answer is there.\<close>

definition firstRead :: "'m firstReader \<Rightarrow> 'm firstReader" where
  "firstRead s =
     (case (frFirst s, frConn s) of
        (None, m # ms) \<Rightarrow> s\<lparr>frFirst := Some m, frConn := ms\<rparr>
      | _ \<Rightarrow> s)"

text \<open>\<^verbatim>\<open>pooledWS.NextReader\<close>: \<^term>\<open>None\<close> while it waits.\<close>

definition pooled_NextReader :: "'m firstReader \<Rightarrow> 'm option \<times> 'm firstReader" where
  "pooled_NextReader s =
     (if \<not> frTaken s then
        (case frFirst s of
           None \<Rightarrow> (None, s)
         | Some m \<Rightarrow> (Some m, s\<lparr>frTaken := True\<rparr>))
      else case frConn s of
        [] \<Rightarrow> (None, s)
      | m # ms \<Rightarrow> (Some m, s\<lparr>frConn := ms\<rparr>))"

text \<open>The two readers in any order: what the bridge has been given, and the state.\<close>

datatype readStep = GoroutineReads | BridgeReads

fun readSteps :: "readStep list \<Rightarrow> 'm firstReader \<Rightarrow> 'm list \<times> 'm firstReader" where
  "readSteps [] s = ([], s)"
| "readSteps (GoroutineReads # es) s = readSteps es (firstRead s)"
| "readSteps (BridgeReads # es) s =
     (case pooled_NextReader s of
        (None, s1) \<Rightarrow> readSteps es s1
      | (Some m, s1) \<Rightarrow> (case readSteps es s1 of (ms, s2) \<Rightarrow> (m # ms, s2)))"

text \<open>The goroutine is in the library's reader, or the bridge is.\<close>

definition goroutineReading :: "'m firstReader \<Rightarrow> bool" where
  "goroutineReading s \<longleftrightarrow> frFirst s = None"

definition bridgeReading :: "'m firstReader \<Rightarrow> bool" where
  "bridgeReading s \<longleftrightarrow> frTaken s"

definition stillToCome :: "'m firstReader \<Rightarrow> 'm list" where
  "stillToCome s = (if frTaken s then [] else case frFirst s of None \<Rightarrow> [] | Some m \<Rightarrow> [m]) @ frConn s"

definition reader_ok :: "'m firstReader \<Rightarrow> bool" where
  "reader_ok s \<longleftrightarrow> \<not> (goroutineReading s \<and> bridgeReading s)"

lemmas reader_defs = reader_ok_def goroutineReading_def bridgeReading_def

lemma firstRead_keeps: "stillToCome (firstRead s) = stillToCome s \<or> frTaken s" "reader_ok s \<Longrightarrow> reader_ok (firstRead s)"
  "frTaken s \<Longrightarrow> reader_ok s \<Longrightarrow> firstRead s = s"
  by (auto simp: firstRead_def stillToCome_def reader_defs split: option.splits list.splits)

lemma NextReader_keeps:
  assumes "reader_ok s" and "pooled_NextReader s = (r, s1)"
  shows "reader_ok s1 \<and> (case r of None \<Rightarrow> s1 = s | Some m \<Rightarrow> stillToCome s = m # stillToCome s1)"
  using assms by (auto simp: pooled_NextReader_def stillToCome_def reader_defs split: if_splits option.splits list.splits)

lemma readSteps_keeps:
  "reader_ok s \<Longrightarrow> readSteps es s = (given, s') \<Longrightarrow> reader_ok s' \<and> stillToCome s = given @ stillToCome s'"
proof (induction es arbitrary: s given s')
  case Nil
  then show ?case by simp
next
  case (Cons e es)
  show ?case
  proof (cases e)
    case GoroutineReads
    have "stillToCome (firstRead s) = stillToCome s" using firstRead_keeps [of s] Cons.prems(1) by metis
    then show ?thesis using Cons.IH [OF firstRead_keeps(2) [OF Cons.prems(1)]] Cons.prems(2) GoroutineReads by simp
  next
    case BridgeReads
    obtain r s1 where r: "pooled_NextReader s = (r, s1)" by (cases "pooled_NextReader s")
    note keeps = NextReader_keeps [OF Cons.prems(1) r]
    obtain given1 s2 where rest: "readSteps es s1 = (given1, s2)" by (cases "readSteps es s1")
    show ?thesis using Cons.IH [OF _ rest] keeps Cons.prems(2) r rest BridgeReads by (cases r) auto
  qed
qed

text \<open>
  C35. Nothing that Telegram sends on an idle connection is lost or read twice: in whatever order
  the goroutine of the pool and the bridge come to read, the bridge is given the answers of the
  connection in their order from the first one on, what it has not been given is still to
  come, and the two never read at the same time; and once the goroutine has read, the bridge
  gets an answer whenever one is left.
\<close>

theorem pooled_reader_exact:
  "case readSteps es (newFirstReader ms) of (given, s) \<Rightarrow>
     ms = given @ stillToCome s \<and> \<not> (goroutineReading s \<and> bridgeReading s) \<and>
     (goroutineReading s \<or> stillToCome s = [] \<or> fst (pooled_NextReader s) = Some (hd (stillToCome s)))"
proof -
  obtain given s where run: "readSteps es (newFirstReader ms) = (given, s)" by (cases "readSteps es (newFirstReader ms)")
  have "reader_ok (newFirstReader ms)" "stillToCome (newFirstReader ms) = ms"
    by (simp_all add: newFirstReader_def reader_defs stillToCome_def)
  then have "reader_ok s" "ms = given @ stillToCome s" using readSteps_keeps [OF _ run] by auto
  moreover have "goroutineReading s \<or> stillToCome s = [] \<or> fst (pooled_NextReader s) = Some (hd (stillToCome s))"
    by (auto simp: pooled_NextReader_def stillToCome_def goroutineReading_def split: option.splits list.splits)
  ultimately show ?thesis using run by (simp add: reader_ok_def)
qed

end
