(* ===== verification/Observer.thy ===== *)
theory Observer
  imports ProxyTypes
begin

text \<open>
  The observation of a session for verbose logs, \<^verbatim>\<open>src/src/diagnostics.go\<close>. The observer reads the
  counters of the bridge at every tick and says when nothing has come from upstream for an
  interval, once for each silence.
\<close>

record wsProgress =
  pgUp :: int
  pgDown :: int
  pgLastUp :: instant
  pgLastDown :: instant

text \<open>A tick carries the clock and the counters it finds.\<close>

datatype progressEvent = ProgressStop | ProgressTick instant wsProgress

text \<open>The loop of \<^verbatim>\<open>observeWSProgress\<close>, with the last silence reported: what it reports.\<close>

fun observeLoop :: "duration \<Rightarrow> instant \<Rightarrow> progressEvent list \<Rightarrow> (instant \<times> wsProgress) list" where
  "observeLoop interval reported [] = []"
| "observeLoop interval reported (ProgressStop # es) = []"
| "observeLoop interval reported (ProgressTick now p # es) =
     (let lastDown = pgLastDown p in
      if now - lastDown < interval \<or> reported = lastDown then observeLoop interval reported es
      else (now, p) # observeLoop interval lastDown es)"

definition observeWSProgress :: "Config \<Rightarrow> duration \<Rightarrow> progressEvent list \<Rightarrow> (instant \<times> wsProgress) list" where
  "observeWSProgress cfg interval es = (if \<not> Verbose cfg then [] else observeLoop interval 0 es)"

text \<open>The last read from upstream only moves forward.\<close>

fun forward :: "instant \<Rightarrow> progressEvent list \<Rightarrow> bool" where
  "forward t [] = True"
| "forward t (ProgressStop # es) = forward t es"
| "forward t (ProgressTick now p # es) = (t \<le> pgLastDown p \<and> forward (pgLastDown p) es)"

lemma forward_mono: "forward t es \<Longrightarrow> t' \<le> t \<Longrightarrow> forward t' es"
  by (induction t es rule: forward.induct) auto

lemma observeLoop_later:
  "forward t es \<Longrightarrow> r \<le> t \<Longrightarrow>
   sorted_wrt (<) (map (pgLastDown \<circ> snd) (observeLoop interval r es)) \<and>
   list_all (\<lambda>(now, p). r < pgLastDown p \<and> interval \<le> now - pgLastDown p) (observeLoop interval r es)"
proof (induction interval r es arbitrary: t rule: observeLoop.induct)
  case (3 interval reported now p es)
  let ?d = "pgLastDown p"
  have fwd: "forward ?d es" "reported \<le> ?d" using 3(3,4) by auto
  show ?case
  proof (cases "now - ?d < interval \<or> reported = ?d")
    case True
    then show ?thesis using 3(1) [OF refl True fwd] by simp
  next
    case False
    have "reported < ?d" using False fwd(2) by simp
    then show ?thesis using 3(2) [OF refl False fwd(1)] False by (auto simp: list_all_iff)
  qed
qed simp_all

text \<open>
  A silence is reported once: as the time of the last read from upstream only moves forward,
  the reports are of different silences, each of which has lasted for the interval.
\<close>

theorem observer_reports_once:
  assumes "forward 0 es"
  shows "distinct (map (pgLastDown \<circ> snd) (observeWSProgress cfg interval es)) \<and>
    list_all (\<lambda>(now, p). interval \<le> now - pgLastDown p) (observeWSProgress cfg interval es)"
  using observeLoop_later [OF assms order_refl, of interval]
  by (auto simp: observeWSProgress_def list_all_iff strict_sorted_iff)

end
