(* ===== verification/Limits.thy ===== *)
theory Limits
  imports FallbackDials
begin

text \<open>
  The file descriptor check of \<^verbatim>\<open>src/src/limits.go\<close>. The arithmetic is on \<^verbatim>\<open>uint64\<close>: a subtraction
  below zero would wrap around to a huge budget, so the guards in front of each one matter.
\<close>

definition uint64 :: "int \<Rightarrow> 64 word" where
  "uint64 n = word_of_int n"

text \<open>The two nested loops, over the addresses of all datacentres; \<^term>\<open>None\<close> is \<^verbatim>\<open>return false\<close>.\<close>

fun poolBudget :: "64 word \<Rightarrow> string list \<Rightarrow> 64 word \<Rightarrow> 64 word option" where
  "poolBudget sz [] remaining = Some remaining"
| "poolBudget sz (ip # ips) remaining =
     (if sz > remaining div 4 then None else poolBudget sz ips (remaining - sz * 4))"

definition fitsFDBudget :: "Config \<Rightarrow> 64 word \<Rightarrow> bool" where
  "fitsFDBudget cfg limit =
     (if limit < 33 then False
      else case poolBudget (uint64 (PoolSize cfg)) (concat (map snd (DCPool cfg))) (limit - 33) of
        None \<Rightarrow> False
      | Some remaining \<Rightarrow>
          (if PoolSize cfg > 0 \<and> hasCFProxyWorkerDomains cfg then
             (if remaining < 12 then False else uint64 (MaxConns cfg) \<le> (remaining - 12) div 2)
           else uint64 (MaxConns cfg) \<le> remaining div 2))"

text \<open>
  \<^verbatim>\<open>checkFDLimit\<close> on the contents of \<^verbatim>\<open>/proc/self/limits\<close>, or \<^term>\<open>None\<close> when it cannot be read:
  whether it warns.
\<close>

fun checkLimitLines :: "Config \<Rightarrow> string list \<Rightarrow> bool" where
  "checkLimitLines cfg [] = False"
| "checkLimitLines cfg (line # ls) =
     (let fields = strings_Fields line in
      if length fields < 4 \<or> strings_Join (take 3 fields) '' '' \<noteq> ''Max open files'' then checkLimitLines cfg ls
      else case strconv_ParseUint64 (fields ! 3) of
        None \<Rightarrow> False
      | Some limit \<Rightarrow> \<not> fitsFDBudget cfg (word_of_nat limit))"

definition checkFDLimit :: "Config \<Rightarrow> string option \<Rightarrow> bool" where
  "checkFDLimit cfg file =
     (case file of None \<Rightarrow> False | Some data \<Rightarrow> checkLimitLines cfg (strings_Split data (CHR 0x0A)))"

subsection \<open>Facts\<close>

lemma quarter_le: "\<not> sz > remaining div 4 \<longleftrightarrow> 4 * unat sz \<le> unat remaining" for sz remaining :: "64 word"
  by (simp add: word_less_nat_alt unat_div not_less) linarith

lemma unat64_less: "unat w < 2 ^ 64" for w :: "64 word"
  using unsigned_less [of w] by simp

lemma take_quarters:
  fixes sz remaining :: "64 word"
  assumes "4 * unat sz \<le> unat remaining"
  shows "unat (remaining - sz * 4) = unat remaining - 4 * unat sz"
proof -
  have "4 * unat sz < 2 ^ 64" using assms unat64_less [of remaining] by simp
  then have "unat (sz * 4) = 4 * unat sz" by (simp add: unat_word_ariths)
  with assms show ?thesis by (simp add: unat_sub word_le_nat_alt)
qed

lemma poolBudget_eq:
  "poolBudget sz ips remaining =
     (if 4 * unat sz * length ips \<le> unat remaining
      then Some (word_of_nat (unat remaining - 4 * unat sz * length ips)) else None)"
proof (induction ips arbitrary: remaining)
  case (Cons ip ips)
  have cost: "4 * unat sz * length (ip # ips) = 4 * unat sz + 4 * unat sz * length ips" by simp
  show ?case
  proof (cases "4 * unat sz \<le> unat remaining")
    case True
    then have "\<not> sz > remaining div 4" by (simp only: quarter_le)
    then show ?thesis using Cons.IH [of "remaining - sz * 4"] take_quarters [OF True] True unfolding cost by auto
  next
    case False
    then have "sz > remaining div 4" using quarter_le by blast
    with False show ?thesis unfolding cost by auto
  qed
qed simp

lemma half_le: "w \<le> remaining div 2 \<longleftrightarrow> 2 * unat w \<le> unat remaining" for w remaining :: "64 word"
  by (simp add: word_le_nat_alt unat_div) linarith

lemma unat_uint64: "0 \<le> n \<Longrightarrow> n < 2 ^ 63 \<Longrightarrow> int (unat (uint64 n)) = n"
  by (simp add: uint64_def unat_eq_nat_uint uint_word_of_int)

lemma unat_minus_const:
  "c \<le> limit \<Longrightarrow> unat (limit - c) = unat limit - unat c" for c limit :: "64 word"
  by (simp add: unat_sub)

subsection \<open>Properties\<close>

text \<open>
  C36. The descriptor budget is exact: for a pool size and a session limit that are not negative
  \<^verbatim>\<open>int\<close> values, the \<^verbatim>\<open>uint64\<close> computation, with no wrap-around on any path, accepts a limit
  exactly when 33 descriptors, four per pooled connection of every address, twelve for the
  Worker pool when it is used, and two per session fit in it.
\<close>

theorem fitsFDBudget_exact:
  assumes "0 \<le> PoolSize cfg" and "PoolSize cfg < 2 ^ 63" and "0 \<le> MaxConns cfg" and "MaxConns cfg < 2 ^ 63"
  shows "fitsFDBudget cfg limit \<longleftrightarrow>
    33 + 4 * PoolSize cfg * int (length (concat (map snd (DCPool cfg)))) +
      (if PoolSize cfg > 0 \<and> hasCFProxyWorkerDomains cfg then 12 else 0) + 2 * MaxConns cfg \<le> uint limit"
proof -
  define n where "n = length (concat (map snd (DCPool cfg)))"
  define p where "p = unat (uint64 (PoolSize cfg))"
  define m where "m = unat (uint64 (MaxConns cfg))"
  define extra where "extra = (if PoolSize cfg > 0 \<and> hasCFProxyWorkerDomains cfg then 12 else 0 :: nat)"
  have p: "PoolSize cfg = int p" and m: "MaxConns cfg = int m"
    using assms unat_uint64 by (simp_all add: p_def m_def)
  have "fitsFDBudget cfg limit \<longleftrightarrow> 33 + 4 * p * n + extra + 2 * m \<le> unat limit"
  proof (cases "33 \<le> unat limit \<and> 4 * p * n \<le> unat limit - 33")
    case True
    then have "33 \<le> limit" by (simp add: word_le_nat_alt)
    then have sub: "unat (limit - 33) = unat limit - 33" using unat_minus_const [of 33 limit] by simp
    define rest where "rest = unat limit - 33 - 4 * p * n"
    have rest: "unat (word_of_nat rest :: 64 word) = rest"
      using unat64_less [of limit] by (simp add: rest_def unat_of_nat)
    have "fitsFDBudget cfg limit \<longleftrightarrow> (if extra = 12 then \<not> (word_of_nat rest :: 64 word) < 12 \<and>
        uint64 (MaxConns cfg) \<le> (word_of_nat rest - 12) div 2 else uint64 (MaxConns cfg) \<le> word_of_nat rest div 2)"
      using True \<open>33 \<le> limit\<close> by (auto simp: fitsFDBudget_def poolBudget_eq sub p_def n_def rest_def extra_def not_less)
    also have "\<dots> \<longleftrightarrow> extra + 2 * m \<le> rest"
      unfolding half_le using rest unat_minus_const [of 12 "word_of_nat rest :: 64 word"]
      by (auto simp: m_def extra_def not_less word_le_nat_alt)
    finally show ?thesis using True by (auto simp: rest_def)
  next
    case False
    then show ?thesis
      using unat_minus_const [of 33 limit]
      by (auto simp: fitsFDBudget_def poolBudget_eq p_def n_def word_less_nat_alt word_le_nat_alt not_less)
  qed
  also have "\<dots> \<longleftrightarrow> int (33 + 4 * p * n + extra + 2 * m) \<le> uint limit"
    by (metis of_nat_le_iff uint_nat)
  finally show ?thesis by (simp add: p m extra_def flip: n_def)
qed

theorem fitsFDBudget_exact_witness:
  "fitsFDBudget (zeroConfig\<lparr>PoolSize := 4, MaxConns := 256, DCPool := [(2, [''1.1.1.1'']), (4, [''1.1.1.1''])]\<rparr>) 1024"
  by (subst fitsFDBudget_exact) (simp_all add: zeroConfig_def hasCFProxyWorkerDomains_def)

end
