(* ===== verification/UpstreamDial.thy ===== *)
theory UpstreamDial
  imports GoNet GoURL
begin

text \<open>
  The upstream WebSocket dials of \<^verbatim>\<open>src/src/transport.go\<close> and their certificate check of
  \<^verbatim>\<open>src/src/tls.go\<close>. A dial is described by the request it makes; the certificates are of any
  type, and the chain verification of the standard library's X.509 package for one leaf, its
  intermediates and one name is the argument \<open>verify\<close>.
\<close>

subsection \<open>The certificate check\<close>

datatype verifyError = HostnameError string | VerifyError string

type_synonym 'c verifier = "'c \<Rightarrow> 'c list \<Rightarrow> string \<Rightarrow> verifyError option"

record 'c tlsConfig =
  ServerName :: string
  InsecureSkipVerify :: bool
  VerifyConnection :: "('c list \<Rightarrow> verifyError option) option"

definition isHostnameError :: "verifyError option \<Rightarrow> bool" where
  "isHostnameError err = (case err of Some (HostnameError s) \<Rightarrow> True | _ \<Rightarrow> False)"

definition verifyUpstream :: "'c verifier \<Rightarrow> string \<Rightarrow> string \<Rightarrow> 'c list \<Rightarrow> verifyError option" where
  "verifyUpstream verify serverName verifyName certs =
     (case certs of
        [] \<Rightarrow> Some (VerifyError ''upstream sent no certificate'')
      | leaf # intermediates \<Rightarrow>
          (let err = verify leaf intermediates verifyName in
           if isHostnameError err \<and> serverName = ''sprinthost.ru'' \<and> strings_HasSuffix verifyName ''.web.telegram.org''
           then verify leaf intermediates ''telegram.org''
           else err))"

definition upstreamTLSConfig :: "'c verifier \<Rightarrow> string \<Rightarrow> string \<Rightarrow> 'c tlsConfig" where
  "upstreamTLSConfig verify serverName verifyName =
     (if serverName \<noteq> verifyName
      then \<lparr>ServerName = serverName, InsecureSkipVerify = True,
            VerifyConnection = Some (verifyUpstream verify serverName verifyName)\<rparr>
      else \<lparr>ServerName = serverName, InsecureSkipVerify = False, VerifyConnection = None\<rparr>)"

text \<open>
  What \<^verbatim>\<open>crypto/tls\<close> does with the certificates a server sends: unless it is told to skip it, it
  verifies the leaf for \<^verbatim>\<open>ServerName\<close>; then it calls \<^verbatim>\<open>VerifyConnection\<close>.
\<close>

definition tls_accepts :: "'c verifier \<Rightarrow> 'c tlsConfig \<Rightarrow> 'c list \<Rightarrow> bool" where
  "tls_accepts verify cfg certs \<longleftrightarrow>
     (InsecureSkipVerify cfg \<or> (certs \<noteq> [] \<and> verify (hd certs) (tl certs) (ServerName cfg) = None)) \<and>
     (case VerifyConnection cfg of None \<Rightarrow> True | Some f \<Rightarrow> f certs = None)"

subsection \<open>The requests\<close>

record wsRequest =
  rqDial :: string
  rqURL :: string
  rqHost :: string
  rqSNI :: string
  rqVerifyName :: string

definition frontingSNI :: string where "frontingSNI = ''sprinthost.ru''"

definition dialWSWithSNI :: "string \<Rightarrow> string \<Rightarrow> string \<Rightarrow> wsRequest" where
  "dialWSWithSNI targetIP domain sni =
     \<lparr>rqDial = net_JoinHostPort targetIP ''443'', rqURL = ''wss://'' @ domain @ ''/apiws'', rqHost = domain,
      rqSNI = sni, rqVerifyName = domain\<rparr>"

definition dialWSPlain :: "string \<Rightarrow> string \<Rightarrow> wsRequest" where
  "dialWSPlain targetIP domain = dialWSWithSNI targetIP domain domain"

definition dialWSFronting :: "string \<Rightarrow> string \<Rightarrow> wsRequest" where
  "dialWSFronting targetIP domain = dialWSWithSNI targetIP domain frontingSNI"

text \<open>These two leave the address to the dialer, which resolves the host of the URL.\<close>

definition dialWSByDomain :: "string \<Rightarrow> wsRequest" where
  "dialWSByDomain domain =
     \<lparr>rqDial = net_JoinHostPort domain ''443'', rqURL = ''wss://'' @ domain @ ''/apiws'', rqHost = domain,
      rqSNI = domain, rqVerifyName = domain\<rparr>"

text \<open>The query of a worker request has two keys, which \<^verbatim>\<open>Values.Encode\<close> writes in their order.\<close>

definition dialWSWorker :: "string \<Rightarrow> string \<Rightarrow> int \<Rightarrow> wsRequest" where
  "dialWSWorker worker dst dc =
     \<lparr>rqDial = net_JoinHostPort worker ''443'',
      rqURL = ''wss://'' @ worker @ ''/apiws?dc='' @ url_QueryEscape (strconv_Itoa dc) @ ''&dst='' @ url_QueryEscape dst,
      rqHost = worker, rqSNI = worker, rqVerifyName = worker\<rparr>"

definition dial_accepts :: "'c verifier \<Rightarrow> wsRequest \<Rightarrow> 'c list \<Rightarrow> bool" where
  "dial_accepts verify rq certs = tls_accepts verify (upstreamTLSConfig verify (rqSNI rq) (rqVerifyName rq)) certs"

subsection \<open>Cancelling a dial\<close>

text \<open>
  \<^verbatim>\<open>dialWebSocket\<close> gives the dialer's \<^verbatim>\<open>NetDialContext\<close> a wrapper that has the context close the
  connection when it is cancelled (\<^verbatim>\<open>context.AfterFunc\<close>, which runs at once on a context that is
  cancelled already), and stops the last such registration when it returns. Connections are
  numbered; what happens while the library upgrades the connection is a list of events.
\<close>

datatype dialEvent = NetDialed "goerror + nat" | CtxCancelled

record dialHooks =
  dhPending :: "nat list"
  dhStop :: "nat option"
  dhCancelled :: bool
  dhClosed :: "nat list"

fun dialHookStep :: "dialEvent \<Rightarrow> dialHooks \<Rightarrow> dialHooks" where
  "dialHookStep (NetDialed (Inl err)) s = s"
| "dialHookStep (NetDialed (Inr conn)) s =
     (if dhCancelled s then s\<lparr>dhStop := Some conn, dhClosed := conn # dhClosed s\<rparr>
      else s\<lparr>dhStop := Some conn, dhPending := conn # dhPending s\<rparr>)"
| "dialHookStep CtxCancelled s = s\<lparr>dhPending := [], dhCancelled := True, dhClosed := dhPending s @ dhClosed s\<rparr>"

definition dialStop :: "dialHooks \<Rightarrow> dialHooks" where
  "dialStop s = (case dhStop s of None \<Rightarrow> s | Some conn \<Rightarrow> s\<lparr>dhPending := remove1 conn (dhPending s)\<rparr>)"

definition dialWebSocket :: "bool \<Rightarrow> dialEvent list \<Rightarrow> dialHooks" where
  "dialWebSocket cancelled evs =
     dialStop (fold dialHookStep evs \<lparr>dhPending = [], dhStop = None, dhCancelled = cancelled, dhClosed = []\<rparr>)"

definition dialedConns :: "dialEvent list \<Rightarrow> nat list" where
  "dialedConns evs = List.map_filter (\<lambda>ev. case ev of NetDialed (Inr conn) \<Rightarrow> Some conn | _ \<Rightarrow> None) evs"

definition hooks_inv :: "dialEvent list \<Rightarrow> bool \<Rightarrow> dialHooks \<Rightarrow> bool" where
  "hooks_inv evs start s \<longleftrightarrow>
     dhCancelled s = (start \<or> CtxCancelled \<in> set evs) \<and>
     dhStop s = (if dialedConns evs = [] then None else Some (List.last (dialedConns evs))) \<and>
     (if dhCancelled s then dhPending s = [] \<and> dhClosed s = rev (dialedConns evs)
      else dhPending s = rev (dialedConns evs) \<and> dhClosed s = [])"

lemma dialedConns_snoc:
  "dialedConns (evs @ [ev]) = dialedConns evs @ (case ev of NetDialed (Inr conn) \<Rightarrow> [conn] | _ \<Rightarrow> [])"
  by (induction evs) (auto simp: dialedConns_def List.map_filter_def split: dialEvent.splits sum.splits)

lemma hooks_inv_step: "hooks_inv evs start s \<Longrightarrow> hooks_inv (evs @ [ev]) start (dialHookStep ev s)"
  by (cases "(ev, s)" rule: dialHookStep.cases) (auto simp: hooks_inv_def dialedConns_snoc split: if_splits)

lemma hooks_invI:
  "hooks_inv evs start (fold dialHookStep evs \<lparr>dhPending = [], dhStop = None, dhCancelled = start, dhClosed = []\<rparr>)"
proof (induction evs rule: rev_induct)
  case Nil
  show ?case by (simp add: hooks_inv_def dialedConns_def List.map_filter_def)
next
  case (snoc ev evs)
  then show ?case by (simp add: hooks_inv_step)
qed

subsection \<open>Properties\<close>

text \<open>
  A dial and its context: for the one connection a dial opens at most, a context that is cancelled
  before \<^verbatim>\<open>dialWebSocket\<close> returns has it closed, so that the upgrade cannot go on; and one that is
  cancelled afterwards closes nothing, so that the session outlives the context of its dial.
\<close>

theorem dialWebSocket_cancellation:
  assumes "length (dialedConns evs) \<le> 1"
  shows "dhClosed (dialWebSocket cancelled evs) = (if cancelled \<or> CtxCancelled \<in> set evs then dialedConns evs else []) \<and>
    dhClosed (dialHookStep CtxCancelled (dialWebSocket cancelled evs)) = dhClosed (dialWebSocket cancelled evs)"
  using assms hooks_invI [of evs cancelled]
  by (cases "dialedConns evs") (auto simp: hooks_inv_def dialWebSocket_def dialStop_def split: if_splits)

theorem dialWebSocket_cancellation_witness:
  "dhClosed (dialWebSocket False [NetDialed (Inr 4), CtxCancelled]) = [4]"
  using dialWebSocket_cancellation [of "[NetDialed (Inr 4), CtxCancelled]" False]
  by (simp add: dialedConns_def List.map_filter_def)


lemma upstreamTLS_verified:
  assumes "tls_accepts verify (upstreamTLSConfig verify serverName verifyName) certs"
  obtains leaf intermediates where "certs = leaf # intermediates"
    and "verify leaf intermediates verifyName = None \<or>
      (serverName = ''sprinthost.ru'' \<and> strings_HasSuffix verifyName ''.web.telegram.org'' \<and>
       verify leaf intermediates ''telegram.org'' = None)"
  using assms
  by (cases certs)
    (auto simp: tls_accepts_def upstreamTLSConfig_def verifyUpstream_def Let_def split: if_splits)

text \<open>
  C14. Upstream identity: every connection the proxy opens, also a fronted one whose handshake
  names another site and for which the built-in verification is switched off, presents a
  certificate chain that verifies for the host the request is made to; the only other name
  accepted is \<^verbatim>\<open>telegram.org\<close>, and only for fronted requests to hosts under
  \<^verbatim>\<open>.web.telegram.org\<close>. A server without a certificate is never accepted.
\<close>

theorem dial_authenticates_upstream:
  assumes "rq \<in> {dialWSPlain ip domain, dialWSFronting ip domain, dialWSByDomain domain, dialWSWorker domain dst dc}"
    and "dial_accepts verify rq certs"
  shows "\<exists>leaf intermediates. certs = leaf # intermediates \<and> rqHost rq = domain \<and>
    (verify leaf intermediates domain = None \<or>
     (rq = dialWSFronting ip domain \<and> strings_HasSuffix domain ''.web.telegram.org'' \<and>
      verify leaf intermediates ''telegram.org'' = None))"
proof -
  have host: "rqHost rq = domain" "rqVerifyName rq = domain"
    using assms(1) by (auto simp: dialWSPlain_def dialWSFronting_def dialWSWithSNI_def dialWSByDomain_def dialWSWorker_def)
  from assms(2) obtain leaf ints where certs: "certs = leaf # ints" and
    ok: "verify leaf ints domain = None \<or> (rqSNI rq = ''sprinthost.ru'' \<and>
      strings_HasSuffix domain ''.web.telegram.org'' \<and> verify leaf ints ''telegram.org'' = None)"
    unfolding dial_accepts_def host by (rule upstreamTLS_verified)
  moreover have "rq = dialWSFronting ip domain"
    if "rqSNI rq = ''sprinthost.ru''" "strings_HasSuffix domain ''.web.telegram.org''"
  proof -
    have "domain \<noteq> ''sprinthost.ru''" using that(2) by (auto simp: strings_HasSuffix_def)
    with that(1) assms(1) show ?thesis
      by (auto simp: dialWSPlain_def dialWSFronting_def dialWSWithSNI_def dialWSByDomain_def dialWSWorker_def frontingSNI_def)
  qed
  ultimately show ?thesis using host by blast
qed

theorem dial_authenticates_upstream_witness:
  "dial_accepts (\<lambda>leaf ints name. if leaf = name then None else Some (HostnameError name))
     (dialWSFronting ''1.2.3.4'' ''kws2.web.telegram.org'') [''telegram.org'', ''ca''] \<and>
   rqHost (dialWSFronting ''1.2.3.4'' ''kws2.web.telegram.org'') = ''kws2.web.telegram.org''"
proof -
  have "dial_accepts (\<lambda>leaf ints name. if leaf = name then None else Some (HostnameError name))
     (dialWSFronting ''1.2.3.4'' ''kws2.web.telegram.org'') [''telegram.org'', ''ca'']"
    by code_simp
  with dial_authenticates_upstream [OF _ this, of "''1.2.3.4''" "''kws2.web.telegram.org''" "[]" 0] show ?thesis by auto
qed

end
