(* ===== verification/LogRotation.thy ===== *)
theory LogRotation
  imports ProxyTypes
begin

text \<open>
  The rotating log file of \<^verbatim>\<open>src/src/logging.go\<close>. The file system is a map from paths to
  contents; whether the operating system lets a rename, a removal, an opening, a \<^verbatim>\<open>Stat\<close> or a
  write succeed is an argument. The writer's descriptor is open or closed, and an open one
  appends to the file at the writer's path, since nobody else moves that file.
\<close>

type_synonym files = "string \<rightharpoonup> string"

record osEnv =
  renameOK :: "string \<Rightarrow> string \<Rightarrow> bool"
  removeOK :: "string \<Rightarrow> bool"
  openOK :: "string \<Rightarrow> bool"
  statOK :: bool
  writeLen :: nat
  writeErr :: "goerror option"

definition os_Rename :: "osEnv \<Rightarrow> string \<Rightarrow> string \<Rightarrow> files \<Rightarrow> files" where
  "os_Rename env old new fs =
     (if renameOK env old new
      then (case fs old of None \<Rightarrow> fs | Some c \<Rightarrow> (fs(old := None))(new := Some c)) else fs)"

definition os_Remove :: "osEnv \<Rightarrow> string \<Rightarrow> files \<Rightarrow> files" where
  "os_Remove env p fs = (if removeOK env p then fs(p := None) else fs)"

text \<open>\<^verbatim>\<open>os.OpenFile(p, O_CREATE|O_WRONLY|O_APPEND)\<close>\<close>

definition os_OpenFile :: "string \<Rightarrow> files \<Rightarrow> files" where
  "os_OpenFile p fs = (case fs p of None \<Rightarrow> fs(p \<mapsto> []) | Some c \<Rightarrow> fs)"

subsection \<open>The writer\<close>

record rotatingWriter =
  rwOpen :: bool
  rwPath :: string
  rwMaxBytes :: int
  rwBackups :: int
  rwCheckTick :: "64 word"

text \<open>
  \<^verbatim>\<open>newRotatingWriter\<close> for a limit of \<open>requested\<close> bytes, the value of the conversion
  \<^verbatim>\<open>int64(maxMB * 1024 * 1024)\<close>.
\<close>

definition newRotatingWriter :: "string \<Rightarrow> int \<Rightarrow> int \<Rightarrow> rotatingWriter" where
  "newRotatingWriter path requested backups =
     \<lparr>rwOpen = True, rwPath = path,
      rwMaxBytes = (if requested < 32 * 1024 then 32 * 1024 else requested),
      rwBackups = backups, rwCheckTick = 0\<rparr>"

definition backupPath :: "string \<Rightarrow> nat \<Rightarrow> string" where
  "backupPath path i = path @ ''.'' @ strconv_Itoa (int i)"

fun shiftBackups :: "osEnv \<Rightarrow> string \<Rightarrow> nat \<Rightarrow> files \<Rightarrow> files" where
  "shiftBackups env path 0 fs = fs"
| "shiftBackups env path (Suc i) fs =
     shiftBackups env path i (os_Rename env (backupPath path (Suc i)) (backupPath path (Suc i + 1)) fs)"

definition rotateFiles :: "osEnv \<Rightarrow> rotatingWriter \<Rightarrow> files \<Rightarrow> files" where
  "rotateFiles env w fs =
     (if rwBackups w > 0
      then os_Rename env (rwPath w) (backupPath (rwPath w) 1)
             (shiftBackups env (rwPath w) (nat (rwBackups w - 1)) fs)
      else os_Remove env (rwPath w) fs)"

definition rotate_log :: "osEnv \<Rightarrow> rotatingWriter \<Rightarrow> files \<Rightarrow> goerror option \<times> rotatingWriter \<times> files" where
  "rotate_log env w fs =
     (let fs' = rotateFiles env w fs in
      if openOK env (rwPath w) then (None, w\<lparr>rwOpen := True\<rparr>, os_OpenFile (rwPath w) fs')
      else (Some (newError ''open''), w\<lparr>rwOpen := False\<rparr>, fs'))"

definition fileSize :: "files \<Rightarrow> string \<Rightarrow> nat" where
  "fileSize fs p = (case fs p of None \<Rightarrow> 0 | Some c \<Rightarrow> length c)"

text \<open>\<^verbatim>\<open>w.f.Write\<close>: a closed file refuses; an open one takes a prefix, all of it without an error.\<close>

definition file_Write :: "osEnv \<Rightarrow> rotatingWriter \<Rightarrow> string \<Rightarrow> files \<Rightarrow> (nat \<times> goerror option) \<times> files" where
  "file_Write env w p fs =
     (if \<not> rwOpen w then ((0, Some (newError ''file already closed'')), fs)
      else let n = (if writeErr env = None then length p else min (writeLen env) (length p));
               c = (case fs (rwPath w) of None \<Rightarrow> [] | Some c \<Rightarrow> c)
           in ((n, writeErr env), fs(rwPath w \<mapsto> c @ take n p)))"

definition rotatingWriter_Write ::
  "osEnv \<Rightarrow> string \<Rightarrow> rotatingWriter \<times> files \<Rightarrow> (nat \<times> goerror option) \<times> rotatingWriter \<times> files" where
  "rotatingWriter_Write env p = (\<lambda>(w0, fs).
     let w = w0\<lparr>rwCheckTick := rwCheckTick w0 + 1\<rparr>;
         (w', fs') = (if 32 dvd sint (rwCheckTick w) \<and> rwOpen w \<and> statOK env \<and>
                         rwMaxBytes w \<le> int (fileSize fs (rwPath w))
                      then snd (rotate_log env w fs) else (w, fs));
         (res, fs'') = file_Write env w' p fs'
     in (res, w', fs''))"

text \<open>A sequence of log lines, each under what the operating system does at that moment.\<close>

definition writeAll :: "(osEnv \<times> string) list \<Rightarrow> rotatingWriter \<times> files \<Rightarrow> rotatingWriter \<times> files" where
  "writeAll ls st = fold (\<lambda>(env, p) s. snd (rotatingWriter_Write env p s)) ls st"

lemma writeAll_Nil [simp]: "writeAll [] st = st"
  by (simp add: writeAll_def)

lemma writeAll_Cons [simp]: "writeAll ((env, p) # ls) st = writeAll ls (snd (rotatingWriter_Write env p st))"
  by (simp add: writeAll_def)

subsection \<open>Numbered names\<close>

lemma backupPath_inj [simp]: "backupPath p i = backupPath p j \<longleftrightarrow> i = j"
  by (simp add: backupPath_def strconv_Itoa_def)

lemma backupPath_new [simp]: "backupPath p i \<noteq> p" "p \<noteq> backupPath p i"
  by (simp_all add: backupPath_def)

subsection \<open>Rotation\<close>

lemma os_Rename_ok:
  "renameOK env a b \<Longrightarrow> fs a = Some c \<Longrightarrow> os_Rename env a b fs = (fs(a := None))(b \<mapsto> c)"
  by (simp add: os_Rename_def)

lemma os_Rename_other: "q \<noteq> a \<Longrightarrow> q \<noteq> b \<Longrightarrow> os_Rename env a b fs q = fs q"
  by (simp add: os_Rename_def split: option.split)

lemma shiftBackups_other:
  "(\<And>i. 1 \<le> i \<Longrightarrow> i \<le> n + 1 \<Longrightarrow> q \<noteq> backupPath p i) \<Longrightarrow> shiftBackups env p n fs q = fs q"
  by (induction n arbitrary: fs) (simp_all add: os_Rename_other)

lemma shiftBackups_moves:
  assumes "\<And>a b. renameOK env a b" and "1 \<le> i" "i \<le> n" and "fs (backupPath p i) = Some c"
  shows "shiftBackups env p n fs (backupPath p (i + 1)) = Some c"
  using assms(3,4)
proof (induction n arbitrary: fs)
  case 0
  then show ?case using assms(2) by simp
next
  case (Suc n)
  let ?fs = "os_Rename env (backupPath p (Suc n)) (backupPath p (Suc n + 1)) fs"
  show ?case
  proof (cases "i = Suc n")
    case True
    then have "?fs (backupPath p (i + 1)) = Some c" using Suc.prems assms(1) by (simp add: os_Rename_ok)
    then show ?thesis using True by (simp add: shiftBackups_other)
  next
    case False
    then have "?fs (backupPath p i) = Some c" using Suc.prems by (simp add: os_Rename_other)
    then show ?thesis using Suc.IH [of ?fs] Suc.prems False by simp
  qed
qed

text \<open>
  A rotation that the operating system does not refuse loses nothing but the oldest
  generation: the log becomes backup 1 and an empty log is opened in its place, every backup
  below the configured number moves up by one with its contents, and no other file changes.
\<close>

theorem rotation_keeps_generations:
  assumes "\<And>a b. renameOK env a b" and "openOK env (rwPath w)" and "rwBackups w = int b" "0 < b"
    and "fs (rwPath w) = Some log"
  shows "case rotate_log env w fs of (err, w', fs') \<Rightarrow>
           err = None \<and> w' = w\<lparr>rwOpen := True\<rparr> \<and> fs' (rwPath w) = Some [] \<and>
           fs' (backupPath (rwPath w) 1) = Some log \<and>
           (\<forall>i c. 1 \<le> i \<and> i < b \<and> fs (backupPath (rwPath w) i) = Some c
                  \<longrightarrow> fs' (backupPath (rwPath w) (i + 1)) = Some c) \<and>
           (\<forall>q. q \<noteq> rwPath w \<and> (\<forall>i. 1 \<le> i \<and> i \<le> b \<longrightarrow> q \<noteq> backupPath (rwPath w) i) \<longrightarrow> fs' q = fs q)"
proof -
  let ?p = "rwPath w" and ?sh = "shiftBackups env (rwPath w) (b - 1) fs"
  let ?fs = "os_Rename env ?p (backupPath ?p 1) ?sh"
  have n: "nat (rwBackups w - 1) = b - 1" using assms(3) by simp
  have log: "?sh ?p = Some log" using assms(5) by (simp add: shiftBackups_other)
  then have mv: "?fs = (?sh(?p := None))(backupPath ?p 1 \<mapsto> log)" using assms(1) by (simp add: os_Rename_ok)
  have none: "?fs ?p = None" and one: "?fs (backupPath ?p 1) = Some log" unfolding mv by simp_all
  have up: "?fs (backupPath ?p (i + 1)) = Some c"
    if "1 \<le> i" "i < b" "fs (backupPath ?p i) = Some c" for i c
    using shiftBackups_moves [OF assms(1), of i "b - 1" fs ?p c] that by (simp add: os_Rename_other)
  have other: "?fs q = fs q" if "q \<noteq> ?p" "\<forall>i. 1 \<le> i \<and> i \<le> b \<longrightarrow> q \<noteq> backupPath ?p i" for q
    using that assms(4) by (simp add: os_Rename_other shiftBackups_other)
  have "rotate_log env w fs = (None, w\<lparr>rwOpen := True\<rparr>, ?fs(?p \<mapsto> []))"
    using assms(2,3,4) n none by (simp add: rotate_log_def rotateFiles_def os_OpenFile_def Let_def)
  then show ?thesis using up other one by simp
qed

lemma closed_Write:
  "\<not> rwOpen w \<Longrightarrow>
   rotatingWriter_Write env p (w, fs) =
     ((0, Some (newError ''file already closed'')), w\<lparr>rwCheckTick := rwCheckTick w + 1\<rparr>, fs)"
  by (simp add: rotatingWriter_Write_def file_Write_def)

lemma closed_writeAll:
  "\<not> rwOpen w \<Longrightarrow> snd (writeAll ls (w, fs)) = fs \<and> \<not> rwOpen (fst (writeAll ls (w, fs)))"
proof (induction ls arbitrary: w)
  case Nil
  then show ?case by simp
next
  case (Cons l ls)
  obtain env p where "l = (env, p)" by (cases l)
  then show ?case using Cons.IH [of "w\<lparr>rwCheckTick := rwCheckTick w + 1\<rparr>"] Cons.prems
    by (simp add: closed_Write)
qed

text \<open>
  C40. A rotation whose reopening fails ends the log: the old file has been closed, the error
  is dropped by \<^verbatim>\<open>Write\<close>, and whatever is written later is refused and no file changes again,
  even when the operating system would allow it.
\<close>

theorem failed_reopen_ends_log:
  assumes "\<not> openOK env (rwPath w)"
  shows "case rotate_log env w fs of (err, w', fs') \<Rightarrow>
           err \<noteq> None \<and> snd (writeAll ls (w', fs')) = fs' \<and>
           fst (rotatingWriter_Write env' p (writeAll ls (w', fs')))
             = (0, Some (newError ''file already closed''))"
proof -
  let ?w = "w\<lparr>rwOpen := False\<rparr>" and ?fs = "rotateFiles env w fs"
  obtain w2 fs2 where run: "writeAll ls (?w, ?fs) = (w2, fs2)" by (cases "writeAll ls (?w, ?fs)")
  then have "fs2 = ?fs" "\<not> rwOpen w2" using closed_writeAll [of ?w ls ?fs] by auto
  then show ?thesis using assms run by (simp add: rotate_log_def closed_Write)
qed

subsection \<open>The size of the log\<close>

lemma sint_mod_32: "sint (t :: 64 word) mod 32 = uint t mod 32"
proof -
  have "take_bit 5 (sint t) = take_bit 5 (uint t)"
    by (simp add: sint_uint take_bit_signed_take_bit)
  then show ?thesis by (simp add: take_bit_eq_mod)
qed

lemma tick_mod: "uint (t + 1 :: 64 word) mod 32 = (uint t mod 32 + 1) mod 32"
  by (simp add: uint_word_ariths mod_mod_cancel mod_simps)

lemma tick_next:
  assumes "uint (t + 1 :: 64 word) mod 32 \<noteq> 0"
  shows "uint (t + 1) mod 32 = uint t mod 32 + 1"
proof -
  have "0 \<le> uint t mod 32" "uint t mod 32 < 32" by simp_all
  then show ?thesis using assms unfolding tick_mod by (cases "uint t mod 32 = 31") simp_all
qed

lemma tick_due: "32 dvd sint (t :: 64 word) \<longleftrightarrow> uint t mod 32 = 0"
  by (simp add: dvd_eq_mod_eq_0 sint_mod_32)

definition allows :: "string \<Rightarrow> osEnv \<Rightarrow> bool" where
  "allows path env \<longleftrightarrow>
     statOK env \<and> openOK env path \<and> removeOK env path \<and> renameOK env path (backupPath path 1)"

definition log_bounded :: "string \<Rightarrow> int \<Rightarrow> nat \<Rightarrow> rotatingWriter \<times> files \<Rightarrow> bool" where
  "log_bounded path m B = (\<lambda>(w, fs).
     rwOpen w \<and> rwPath w = path \<and> rwMaxBytes w \<le> int B \<and>
     int (fileSize fs path) \<le> int B + (uint (rwCheckTick w) mod 32 + 1) * m)"

lemma rotate_empties:
  assumes "allows (rwPath w) env"
  shows "fst (snd (rotate_log env w fs)) = w\<lparr>rwOpen := True\<rparr>" "fileSize (snd (snd (rotate_log env w fs))) (rwPath w) = 0"
  using assms
  by (auto simp: rotate_log_def rotateFiles_def allows_def os_OpenFile_def os_Rename_def os_Remove_def
      fileSize_def Let_def split: option.splits)

lemma file_Write_grows:
  "fileSize (snd (file_Write env w p fs)) (rwPath w) \<le> fileSize fs (rwPath w) + length p"
  by (simp add: file_Write_def fileSize_def Let_def split: option.split)

lemma Write_log_bounded:
  assumes inv: "log_bounded path m B (w, fs)" and env: "allows path env" and p: "int (length p) \<le> m"
  shows "log_bounded path m B (snd (rotatingWriter_Write env p (w, fs)))"
proof -
  let ?w = "w\<lparr>rwCheckTick := rwCheckTick w + 1\<rparr>"
  let ?due = "32 dvd sint (rwCheckTick ?w) \<and> rwMaxBytes w \<le> int (fileSize fs path)"
  obtain w' fs' where st: "(if ?due then snd (rotate_log env ?w fs) else (?w, fs)) = (w', fs')" by force
  have w: "rwOpen w" "rwPath w = path" "rwMaxBytes w \<le> int B"
    and small: "int (fileSize fs path) \<le> int B + (uint (rwCheckTick w) mod 32 + 1) * m"
    using inv by (auto simp: log_bounded_def)
  have m: "0 \<le> m" using p by linarith
  have w': "w' = ?w" using st w env rotate_empties(1) [of ?w env fs]
    by (cases ?due) (auto dest: arg_cong [of _ _ fst])
  have size: "int (fileSize fs' path) \<le> int B + (uint (rwCheckTick w + 1) mod 32) * m"
  proof (cases "uint (rwCheckTick w + 1) mod 32 = 0")
    case True
    show ?thesis
    proof (cases ?due)
      case True
      then have "fileSize fs' path = 0" using st w env rotate_empties(2) [of ?w env fs]
        by (auto dest: arg_cong [of _ _ snd])
      then show ?thesis using m by simp
    next
      case False
      then have "int (fileSize fs path) < rwMaxBytes w" using True by (simp add: tick_due)
      then show ?thesis using st False True w by auto
    qed
  next
    case False
    then have "fs' = fs" using st by (auto simp: tick_due split: if_splits)
    moreover have "uint (rwCheckTick w + 1) mod 32 = uint (rwCheckTick w) mod 32 + 1"
      using False tick_next by blast
    ultimately show ?thesis using small by simp
  qed
  have "rotatingWriter_Write env p (w, fs) =
          (fst (file_Write env w' p fs'), w', snd (file_Write env w' p fs'))"
    using st w env by (simp add: rotatingWriter_Write_def allows_def split_beta)
  moreover have "int (fileSize (snd (file_Write env w' p fs')) path) \<le> int (fileSize fs' path) + m"
    using file_Write_grows [of env w' p fs'] w' w p by simp
  ultimately show ?thesis using w w' size by (simp add: log_bounded_def algebra_simps)
qed

lemma writeAll_log_bounded:
  assumes "log_bounded path m B st" and "\<forall>(env, p) \<in> set ls. allows path env \<and> int (length p) \<le> m"
  shows "log_bounded path m B (writeAll ls st)"
  using assms
proof (induction ls arbitrary: st)
  case Nil
  then show ?case by simp
next
  case (Cons l ls)
  obtain env p where l: "l = (env, p)" by (cases l)
  obtain w fs where "st = (w, fs)" by (cases st)
  then have "log_bounded path m B (snd (rotatingWriter_Write env p st))"
    using Write_log_bounded Cons.prems l by auto
  then show ?case using Cons.IH Cons.prems(2) l by simp
qed

text \<open>
  The size of the log is looked at only at every 32nd line, and yet it is bounded: with a
  file system that works, lines of at most \<open>m\<close> bytes and a configured limit, the file at the
  log's path never exceeds the limit, or what it held at the start, by more than 32 lines.
\<close>

theorem log_size_bounded:
  assumes "\<forall>(env, p) \<in> set ls. allows path env \<and> length p \<le> m"
  shows "fileSize (snd (writeAll ls (newRotatingWriter path requested backups, fs))) path
           \<le> Max {fileSize fs path, nat requested, 32 * 1024} + 32 * m"
proof -
  let ?w = "newRotatingWriter path requested backups"
  let ?B = "Max {fileSize fs path, nat requested, 32 * 1024}"
  have "log_bounded path (int m) ?B (?w, fs)"
    by (auto simp: log_bounded_def newRotatingWriter_def)
  then have "log_bounded path (int m) ?B (writeAll ls (?w, fs))"
    by (rule writeAll_log_bounded) (use assms in auto)
  moreover define t where "t = uint (rwCheckTick (fst (writeAll ls (?w, fs)))) mod 32"
  ultimately have le: "int (fileSize (snd (writeAll ls (?w, fs))) path) \<le> int ?B + (t + 1) * int m"
    unfolding log_bounded_def split_beta by blast
  have t: "t < 32" by (simp add: t_def)
  have "(t + 1) * int m \<le> 32 * int m" using t by (intro mult_right_mono) auto
  with le show ?thesis by linarith
qed

subsection \<open>Witnesses\<close>

definition workingOS :: osEnv where
  "workingOS = \<lparr>renameOK = (\<lambda>_ _. True), removeOK = (\<lambda>_. True), openOK = (\<lambda>_. True), statOK = True,
                writeLen = 0, writeErr = None\<rparr>"

definition sampleFiles :: files where
  "sampleFiles = [''proxy.log'' \<mapsto> ''new'', backupPath ''proxy.log'' 1 \<mapsto> ''older'']"

theorem rotation_keeps_generations_witness:
  "case rotate_log workingOS (newRotatingWriter ''proxy.log'' 0 2) sampleFiles of (err, w', fs') \<Rightarrow>
     fs' ''proxy.log'' = Some [] \<and> fs' (backupPath ''proxy.log'' 1) = Some ''new'' \<and>
     fs' (backupPath ''proxy.log'' 2) = Some ''older''"
proof -
  let ?w = "newRotatingWriter ''proxy.log'' 0 2"
  have "rwPath ?w = ''proxy.log''" "rwBackups ?w = int 2" by (simp_all add: newRotatingWriter_def)
  moreover have "sampleFiles (backupPath ''proxy.log'' 1) = Some ''older''" "sampleFiles ''proxy.log'' = Some ''new''"
    by (simp_all add: sampleFiles_def)
  moreover have "\<And>a b. renameOK workingOS a b" "openOK workingOS (rwPath ?w)" by (simp_all add: workingOS_def)
  ultimately show ?thesis
    using rotation_keeps_generations [of workingOS ?w 2 sampleFiles "''new''"]
    by (auto simp: split_beta numeral_2_eq_2 elim!: allE [of _ 1])
qed

theorem failed_reopen_ends_log_witness:
  "case rotate_log (workingOS\<lparr>openOK := \<lambda>_. False\<rparr>) (newRotatingWriter ''proxy.log'' 0 2) sampleFiles of
     (err, w', fs') \<Rightarrow> snd (writeAll [(workingOS, ''lost'')] (w', fs')) = fs'"
  using failed_reopen_ends_log 
    [where env = "workingOS\<lparr>openOK := \<lambda>_. False\<rparr>" and w = "newRotatingWriter ''proxy.log'' 0 2"
      and fs = sampleFiles and ls = "[(workingOS, ''lost'')]"]
  by (simp add: split_beta)

theorem log_size_bounded_witness:
  "fileSize (snd (writeAll [(workingOS, ''line'')] (newRotatingWriter ''proxy.log'' 0 2, sampleFiles))) ''proxy.log''
     \<le> Max {fileSize sampleFiles ''proxy.log'', nat 0, 32 * 1024} + 32 * 4"
  by (rule log_size_bounded) (simp add: allows_def workingOS_def)

end
