(* ===== verification/LogCensor.thy ===== *)
theory LogCensor
  imports LogRotation
begin

text \<open>
  The writer of \<^verbatim>\<open>src/src/logging.go\<close> that hides domain names in the log. The regular expression
  \<^verbatim>\<open>logDomainPattern\<close> is matched the way Go's \<^verbatim>\<open>regexp\<close> does: at the leftmost position, with as
  many labels as possible and one less whenever no top-level domain follows. Since a label
  holds no dot, each repetition of its group matches exactly the text up to the next dot.
\<close>

definition is_letter :: "char \<Rightarrow> bool" where
  "is_letter c \<longleftrightarrow> is_lower c \<or> is_upper c"

definition is_alnum :: "char \<Rightarrow> bool" where
  "is_alnum c \<longleftrightarrow> is_letter c \<or> is_digit c"

text \<open>\<^verbatim>\<open>[a-zA-Z0-9](?:[a-zA-Z0-9-]{0,61}[a-zA-Z0-9])?\<close>\<close>

definition logLabel :: "string \<Rightarrow> bool" where
  "logLabel l \<longleftrightarrow>
     1 \<le> length l \<and> length l \<le> 63 \<and> is_alnum (hd l) \<and> is_alnum (last l) \<and>
     list_all (\<lambda>c. is_alnum c \<or> c = CHR ''-'') l"

definition matchLabel :: "string \<Rightarrow> nat option" where
  "matchLabel s =
     (let l = takeWhile (\<lambda>c. c \<noteq> CHR ''.'') s
      in if length l < length s \<and> logLabel l then Some (length l + 1) else None)"

lemma matchLabel_bounds: "matchLabel s = Some n \<Longrightarrow> 0 < n \<and> n \<le> length s"
  by (auto simp: matchLabel_def Let_def split: if_splits)

function matchDomain :: "string \<Rightarrow> nat option" where
  "matchDomain s =
     (case matchLabel s of
        None \<Rightarrow> None
      | Some n \<Rightarrow>
          (case matchDomain (drop n s) of
             Some m \<Rightarrow> Some (n + m)
           | None \<Rightarrow>
               let t = length (takeWhile is_letter (drop n s))
               in if 2 \<le> t then Some (n + t) else None))"
  by pat_completeness auto
termination
  by (relation "measure length") (auto dest: matchLabel_bounds)

declare matchDomain.simps [simp del]

lemma matchDomain_bounds: "matchDomain s = Some n \<Longrightarrow> 0 < n \<and> n \<le> length s"
proof (induction s arbitrary: n rule: matchDomain.induct)
  case (1 s)
  from 1(2) obtain k where k: "matchLabel s = Some k" by (auto simp: matchDomain.simps [of s] split: option.splits)
  have tld: "length (takeWhile is_letter (drop k s)) \<le> length s - k" using length_takeWhile_le by (metis length_drop)
  show ?case
  proof (cases "matchDomain (drop k s)")
    case None
    then have "n = k + length (takeWhile is_letter (drop k s))"
      using 1(2) k by (auto simp: matchDomain.simps [of s] Let_def split: if_splits)
    then show ?thesis using matchLabel_bounds [OF k] tld by linarith
  next
    case (Some m)
    then have "n = k + m" using 1(2) k by (simp add: matchDomain.simps [of s])
    then show ?thesis using matchLabel_bounds [OF k] 1(1) [OF k Some] by auto
  qed
qed

subsection \<open>Masking\<close>

definition maskLabel :: "string \<Rightarrow> string" where
  "maskLabel l = take (length l div 2) l @ replicate (length l - length l div 2) (CHR ''*'')"

definition keepsDomain :: "string \<Rightarrow> bool" where
  "keepsDomain domain =
     (let lower = strings_ToLower domain
      in lower = ''telegram.org'' \<or> strings_HasSuffix lower ''.telegram.org'' \<or> strings_HasSuffix lower ''.log'')"

definition censorDomain :: "string \<Rightarrow> string" where
  "censorDomain domain =
     (if keepsDomain domain then domain
      else let parts = strings_Split domain (CHR ''.'')
           in strings_Join (map maskLabel (butlast parts) @ [last parts]) ''.'')"

text \<open>\<^verbatim>\<open>ReplaceAllStringFunc\<close>: the matches from left to right, each found after the end of the one before.\<close>

function censorText :: "string \<Rightarrow> string" where
  "censorText s =
     (if s = [] then []
      else case matchDomain s of
             Some n \<Rightarrow> censorDomain (take n s) @ censorText (drop n s)
           | None \<Rightarrow> hd s # censorText (tl s))"
  by pat_completeness auto
termination
  by (relation "measure length") (auto dest: matchDomain_bounds)

declare censorText.simps [simp del]

text \<open>\<^verbatim>\<open>domainCensorWriter.Write\<close> on top of any writer.\<close>

definition domainCensorWriter_Write :: "(string \<Rightarrow> 'r) \<Rightarrow> string \<Rightarrow> 'r" where
  "domainCensorWriter_Write out p = out (censorText p)"

text \<open>
  \<^verbatim>\<open>initLogger\<close>: the log goes to the standard error unless a file is configured and can be
  opened; \<open>requested\<close> is the size limit \<^verbatim>\<open>LogMaxMB\<close> in bytes.
\<close>

datatype logSink = Stderr | Rotating rotatingWriter

definition initLogger :: "bool \<Rightarrow> int \<Rightarrow> Config \<Rightarrow> logSink" where
  "initLogger opens requested cfg =
     (if LogFile cfg = [] then Stderr
      else if \<not> opens then Stderr
      else Rotating (newRotatingWriter (LogFile cfg) requested (LogBackups cfg)))"

subsection \<open>Text between separators\<close>

definition is_sep :: "char \<Rightarrow> bool" where
  "is_sep c \<longleftrightarrow> \<not> is_alnum c \<and> c \<noteq> CHR ''-'' \<and> c \<noteq> CHR ''.''"

lemma matchLabel_sep:
  assumes "is_sep c"
  shows "matchLabel (x @ c # r) = matchLabel x"
proof (cases "CHR ''.'' \<in> set x")
  case True
  then have "takeWhile (\<lambda>c. c \<noteq> CHR ''.'') (x @ c # r) = takeWhile (\<lambda>c. c \<noteq> CHR ''.'') x"
    by (simp add: takeWhile_append1)
  moreover have "length (takeWhile (\<lambda>c. c \<noteq> CHR ''.'') x) < length x"
    using True by (induction x) auto
  ultimately show ?thesis by (simp add: matchLabel_def)
next
  case False
  then have x: "takeWhile (\<lambda>c. c \<noteq> CHR ''.'') x = x" by (simp add: takeWhile_eq_all_conv) blast
  have "takeWhile (\<lambda>c. c \<noteq> CHR ''.'') (x @ c # r) = x @ c # takeWhile (\<lambda>c. c \<noteq> CHR ''.'') r"
    using False assms by (auto simp: takeWhile_append is_sep_def)
  moreover have "\<not> logLabel (x @ c # y)" for y using assms by (auto simp: logLabel_def is_sep_def)
  ultimately show ?thesis by (simp add: matchLabel_def x)
qed

lemma letters_sep: "is_sep c \<Longrightarrow> takeWhile is_letter (x @ c # r) = takeWhile is_letter x"
  by (induction x) (auto simp: is_sep_def is_alnum_def)

lemma matchDomain_sep: "is_sep c \<Longrightarrow> matchDomain (x @ c # r) = matchDomain x"
proof (induction x rule: matchDomain.induct)
  case (1 x)
  show ?case
  proof (cases "matchLabel x")
    case None
    then show ?thesis using 1(2) by (simp add: matchDomain.simps [of x] matchDomain.simps [of "x @ c # r"] matchLabel_sep)
  next
    case (Some n)
    then have "drop n (x @ c # r) = drop n x @ c # r" using matchLabel_bounds by fastforce
    then show ?thesis using 1 Some
      by (simp add: matchDomain.simps [of x] matchDomain.simps [of "x @ c # r"] matchLabel_sep letters_sep
          del: drop_append split: option.split)
  qed
qed

lemma matchDomain_Nil [simp]: "matchDomain [] = None"
  by (simp add: matchDomain.simps matchLabel_def)

lemma censorText_Nil [simp]: "censorText [] = []"
  by (simp add: censorText.simps)

lemma censorText_sep:
  assumes "is_sep c"
  shows "censorText (x @ c # r) = censorText x @ c # censorText r"
proof (induction x rule: censorText.induct)
  case (1 x)
  note eq = matchDomain_sep [OF assms, of x r]
  show ?case
  proof (cases "matchDomain x")
    case None
    show ?thesis
    proof (cases x)
      case Nil
      then show ?thesis using eq by (simp add: censorText.simps [of "c # r"])
    next
      case (Cons a y)
      then show ?thesis using 1 None eq
        by (simp add: censorText.simps [of "a # y"] censorText.simps [of "a # y @ c # r"])
    qed
  next
    case (Some n)
    then have "n \<le> length x" "x \<noteq> []" using matchDomain_bounds by fastforce+
    then show ?thesis using 1 Some eq
      by (simp add: censorText.simps [of x] censorText.simps [of "x @ c # r"])
  qed
qed

subsection \<open>Host names\<close>

text \<open>A host name the pattern is meant for: labels, and a top-level domain of at least two letters.\<close>

definition hostname :: "string list \<Rightarrow> string \<Rightarrow> bool" where
  "hostname labels tld \<longleftrightarrow>
     labels \<noteq> [] \<and> list_all logLabel labels \<and> 2 \<le> length tld \<and> list_all is_letter tld"

lemma no_dot: "logLabel l \<Longrightarrow> CHR ''.'' \<notin> set l" "list_all is_letter t \<Longrightarrow> CHR ''.'' \<notin> set t"
  by (auto simp: logLabel_def list_all_iff is_alnum_def is_letter_def is_digit_def is_lower_def is_upper_def
      char_between_def)

lemma matchLabel_dot:
  assumes "logLabel l"
  shows "matchLabel (l @ CHR ''.'' # r) = Some (length l + 1)"
proof -
  have "takeWhile (\<lambda>c. c \<noteq> CHR ''.'') (l @ CHR ''.'' # r) = l"
    using no_dot(1) [OF assms] by (auto simp: takeWhile_append)
  then show ?thesis using assms by (simp add: matchLabel_def)
qed

lemma matchDomain_no_dot: "CHR ''.'' \<notin> set t \<Longrightarrow> matchDomain t = None"
proof -
  assume "CHR ''.'' \<notin> set t"
  then have all: "takeWhile (\<lambda>c. c \<noteq> CHR ''.'') t = t" by (simp add: takeWhile_eq_all_conv) blast
  have "matchLabel t = None" unfolding matchLabel_def all Let_def by simp
  then show ?thesis by (simp add: matchDomain.simps [of t])
qed

lemma Join_Cons: "ts \<noteq> [] \<Longrightarrow> strings_Join (s # ts) sep = s @ sep @ strings_Join ts sep"
  by (cases ts) simp_all

lemma matchDomain_hostname:
  "hostname labels tld \<Longrightarrow>
   matchDomain (strings_Join (labels @ [tld]) ''.'') = Some (length (strings_Join (labels @ [tld]) ''.''))"
proof (induction labels)
  case Nil
  then show ?case by (simp add: hostname_def)
next
  case (Cons l labels)
  then have l: "logLabel l" by (simp add: hostname_def)
  show ?case
  proof (cases "labels = []")
    case True
    have tld: "matchDomain tld = None" "takeWhile is_letter tld = tld"
      using Cons.prems no_dot(2) by (auto simp: hostname_def matchDomain_no_dot list_all_iff takeWhile_eq_all_conv)
    then show ?thesis using True Cons.prems matchLabel_dot [OF l, of tld]
      by (simp add: matchDomain.simps [of "l @ CHR ''.'' # tld"] hostname_def Let_def del: takeWhile_eq_all_conv)
  next
    case False
    let ?r = "strings_Join (labels @ [tld]) ''.''"
    have "matchDomain ?r = Some (length ?r)" using Cons False by (simp add: hostname_def)
    then show ?thesis using matchLabel_dot [OF l, of ?r]
      by (simp add: Join_Cons matchDomain.simps [of "l @ CHR ''.'' # ?r"])
  qed
qed

lemma Split_append: "c \<notin> set l \<Longrightarrow> strings_Split (l @ c # r) c = l # strings_Split r c"
  by (induction l) auto

lemma Split_single: "c \<notin> set l \<Longrightarrow> strings_Split l c = [l]"
  by (induction l) auto

lemma Split_Join: "ls \<noteq> [] \<Longrightarrow> (\<forall>l \<in> set ls. c \<notin> set l) \<Longrightarrow> strings_Split (strings_Join ls [c]) c = ls"
proof (induction ls)
  case Nil
  then show ?case by simp
next
  case (Cons l ls)
  then show ?case by (cases "ls = []") (simp_all add: Join_Cons Split_append Split_single)
qed

lemma censorDomain_hostname:
  assumes "hostname labels tld" and "\<not> keepsDomain (strings_Join (labels @ [tld]) ''.'')"
  shows "censorDomain (strings_Join (labels @ [tld]) ''.'') = strings_Join (map maskLabel labels @ [tld]) ''.''"
proof -
  have "\<forall>l \<in> set (labels @ [tld]). CHR ''.'' \<notin> set l"
    using assms(1) no_dot by (auto simp: hostname_def list_all_iff)
  then have "strings_Split (strings_Join (labels @ [tld]) ''.'') (CHR ''.'') = labels @ [tld]"
    by (intro Split_Join) simp_all
  then show ?thesis using assms(2) by (simp add: censorDomain_def)
qed


subsection \<open>Only characters of labels change\<close>

abbreviation masks :: "char \<Rightarrow> char \<Rightarrow> bool" where
  "masks a b \<equiv> b = a \<or> (b = CHR ''*'' \<and> a \<noteq> CHR ''.'')"

lemma masks_refl: "list_all2 masks s s"
  by (induction s) auto

lemma maskLabel_masks: "CHR ''.'' \<notin> set l \<Longrightarrow> list_all2 masks l (maskLabel l)"
  by (auto simp: maskLabel_def list_all2_conv_all_nth nth_append dest: nth_mem)

lemma Join_masks: "list_all2 (list_all2 masks) ls ls' \<Longrightarrow> list_all2 masks (strings_Join ls sep) (strings_Join ls' sep)"
proof (induction rule: list_all2_induct)
  case Nil
  then show ?case by simp
next
  case (Cons l ls l' ls')
  show ?case
  proof (cases ls)
    case Nil
    then show ?thesis using Cons by simp
  next
    case (Cons a as)
    then obtain b bs where "ls' = b # bs" using \<open>list_all2 _ ls ls'\<close> by (auto simp: list_all2_Cons1)
    then show ?thesis using Cons Cons.IH Cons.hyps masks_refl by (auto intro!: list_all2_appendI)
  qed
qed

lemma censorDomain_masks: "list_all2 masks d (censorDomain d)"
proof (cases "keepsDomain d")
  case True
  then show ?thesis by (simp add: censorDomain_def masks_refl)
next
  case False
  let ?ps = "strings_Split d (CHR ''.'')"
  have "\<forall>l \<in> set (butlast ?ps). CHR ''.'' \<notin> set l" by (meson in_set_butlastD strings_Split_no_sep)
  then have "list_all2 (list_all2 masks) (butlast ?ps @ [last ?ps]) (map maskLabel (butlast ?ps) @ [last ?ps])"
    by (intro list_all2_appendI) (auto simp: list_all2_conv_all_nth [of "list_all2 masks"] maskLabel_masks masks_refl)
  then have "list_all2 masks (strings_Join ?ps ''.'') (censorDomain d)"
    using False Join_masks by (simp add: censorDomain_def Let_def)
  then show ?thesis by (simp add: strings_Join_Split)
qed

text \<open>
  The censored text has the length of the line, differs from it only by stars, and never
  in a dot: so the count of bytes that the writer reports is that of the line it was given, as
  \<^verbatim>\<open>io.Writer\<close> asks.
\<close>

theorem censorText_masks:
  "list_all2 (\<lambda>a b. b = a \<or> (b = CHR ''*'' \<and> a \<noteq> CHR ''.'')) s (censorText s) \<and>
   domainCensorWriter_Write length s = length s"
proof -
  have "list_all2 masks s (censorText s)"
  proof (induction s rule: censorText.induct)
    case (1 s)
    show ?case
    proof (cases "matchDomain s")
      case None
      then show ?thesis using 1 by (cases s) (auto simp: censorText.simps)
    next
      case (Some n)
      then have "s \<noteq> []" by auto
      then have "list_all2 masks (take n s @ drop n s) (censorText s)"
        using 1 Some censorDomain_masks unfolding censorText.simps [of s]
        by (simp del: append_take_drop_id add: list_all2_appendI)
      then show ?thesis by simp
    qed
  qed
  then show ?thesis by (auto simp: domainCensorWriter_Write_def dest: list_all2_lengthD)
qed


end
