(* ===== verification/Spec2Isabelle.thy ===== *)
theory Spec2Isabelle
  imports GoCryptoAnswers Startup ProgramExit Delivery FirstRead Observer Limits UpstreamDial LogCensor
begin

text \<open>
  A verification library for the Telegram MTProto proxy under \<^verbatim>\<open>src/src\<close>, a Go program that
  accepts MTProto clients (plainly or disguised as TLS), and carries their sessions to Telegram
  over WebSockets, over Cloudflare, or over plain TCP.

  \<^bold>\<open>The program and its theories.\<close> A connection is accepted by \<^verbatim>\<open>serve\<close> and handled by
  \<^verbatim>\<open>handleClient\<close>: the fake TLS handshake, the MTProto handshake, the choice of a route, and a
  bridge that decrypts, re-encrypts and forwards both directions until one of them ends.

  \<^item> \<^verbatim>\<open>Prelude\<close>, \<^verbatim>\<open>GoCrypto\<close>, \<^verbatim>\<open>GoCryptoAnswers\<close>, \<^verbatim>\<open>GoStrings\<close>, \<^verbatim>\<open>GoNet\<close>, \<^verbatim>\<open>GoIP\<close>, \<^verbatim>\<open>GoURL\<close>:
    what the sources use of the
    Go language and its standard library. Slicing and indexing out of range are \<^term>\<open>None\<close>, a
    panic; SHA-256, HMAC, AES and counter mode are defined in full and checked on published
    answers; an error is the answers of \<^verbatim>\<open>errors.Is\<close> and \<^verbatim>\<open>errors.As\<close> on it; a connection is the
    bytes it delivers, the error it ends with and the bytes written to it.
  \<^item> \<^verbatim>\<open>ProxyTypes\<close> (\<^verbatim>\<open>types.go\<close>, \<^verbatim>\<open>constants.go\<close>) and \<^verbatim>\<open>ProxyState\<close> (\<^verbatim>\<open>state.go\<close>): the shared data.
  \<^item> \<^verbatim>\<open>Handshake\<close> (\<^verbatim>\<open>crypto.go\<close>): accepting a client's 64 bytes, generating the relay's, and the
    four key streams of a session. \<^verbatim>\<open>Splitter\<close> (\<^verbatim>\<open>splitter.go\<close>): cutting the client's stream at
    MTProto packets.
  \<^item> \<^verbatim>\<open>FakeTLSRecords\<close> and \<^verbatim>\<open>FakeTLSHello\<close> (\<^verbatim>\<open>fake_tls.go\<close>, \<^verbatim>\<open>fake_tls_profile.go\<close>): the record layer,
    the signed hello and its answer, and the relay of strangers to the masking site.
  \<^item> \<^verbatim>\<open>CFDomains\<close>, \<^verbatim>\<open>FallbackDials\<close>, \<^verbatim>\<open>DomainRefresh\<close> (\<^verbatim>\<open>cfproxy_domains.go\<close>): the lists of Cloudflare
    domains, the pool in the configuration with its cooldowns and reservations, its refresh.
  \<^item> \<^verbatim>\<open>TCPBackoff\<close> (\<^verbatim>\<open>tcp_backoff.go\<close>), \<^verbatim>\<open>WSPool\<close> (\<^verbatim>\<open>pool.go\<close>), \<^verbatim>\<open>WorkerPool\<close> (\<^verbatim>\<open>worker_pool.go\<close>): the
    shared state that several goroutines change. Each critical section is one definition;
    histories are lists of operations or an inductive relation, so the lemmas hold for every
    interleaving of the critical sections.
    \<^verbatim>\<open>PoolShutdown\<close> and \<^verbatim>\<open>WorkerShutdown\<close> hold the goroutines around the two pools and their end, \<^verbatim>\<open>FirstRead\<close>
    the hand-over of a pooled connection's first message.
  \<^item> \<^verbatim>\<open>Bridge\<close>, \<^verbatim>\<open>UpstreamDial\<close> (\<^verbatim>\<open>transport.go\<close>, \<^verbatim>\<open>tls.go\<close>): the two directions of a session as functions
    of the reads and of the outcome of each write; what a dial asks of the TLS library, and how
    it is cancelled.
  \<^item> \<^verbatim>\<open>Session\<close> (\<^verbatim>\<open>bridgeWS\<close>, \<^verbatim>\<open>tcpFallback\<close>), \<^verbatim>\<open>ServerDrain\<close> (\<^verbatim>\<open>serve\<close>) and \<^verbatim>\<open>ProgramExit\<close> (\<^verbatim>\<open>main\<close>, \<^verbatim>\<open>startPprof\<close>): the
    goroutines and channels of a session, of the server and of the whole program, as step
    relations, and how they end; \<^verbatim>\<open>Progress\<close> holds the contract of such a system.
  \<^item> \<^verbatim>\<open>Routing\<close>, \<^verbatim>\<open>Server\<close>, \<^verbatim>\<open>Startup\<close> (\<^verbatim>\<open>server.go\<close>, \<^verbatim>\<open>transport.go\<close>): a session's way through the pool
    and the fallbacks, one client, the accept loop, and \<^verbatim>\<open>main\<close> with its banner, its statistics and
    its shutdown. \<^verbatim>\<open>Delivery\<close> shows what a session delivers when nothing fails.
  \<^item> \<^verbatim>\<open>FlagParse\<close> and \<^verbatim>\<open>Flags\<close> (\<^verbatim>\<open>config.go\<close>): from the arguments of the program to the values of the flags,
    and from these to the configuration. \<^verbatim>\<open>StatsSummary\<close> (\<^verbatim>\<open>types.go\<close>, \<^verbatim>\<open>utils.go\<close>): the line of statistics.
    \<^verbatim>\<open>Observer\<close> (\<^verbatim>\<open>diagnostics.go\<close>), \<^verbatim>\<open>Limits\<close> (\<^verbatim>\<open>limits.go\<close>), \<^verbatim>\<open>LogRotation\<close> and \<^verbatim>\<open>LogCensor\<close> (\<^verbatim>\<open>logging.go\<close>).

  \<^bold>\<open>Interfaces.\<close> \<^verbatim>\<open>GoCrypto\<close> states what the proxy relies on of a key stream as a locale (applying it
  twice is the identity, a stream may be cut anywhere) and interprets it on counter mode over
  AES; \<^verbatim>\<open>GoNet\<close> states what \<^verbatim>\<open>io.ReadFull\<close> promises, interpreted on a raw connection and on the
  fake TLS layer; \<^verbatim>\<open>Splitter\<close> states what a packet length function must satisfy, interpreted on the
  three encodings, and what a splitter must keep of its stream, interpreted on \<^verbatim>\<open>msgSplitter\<close> and,
  in \<^verbatim>\<open>Bridge\<close>, on the optional splitter of a session; \<^verbatim>\<open>Reservation\<close> states the contract of a
  counted reservation, with or without a cooldown, interpreted on the fallback dials, the TCP
  backoff table and the refills of the worker pool, whose bounds it gives under every history;
  \<^verbatim>\<open>Progress\<close> states when concurrent code comes to its end (no step adds work, the program's own
  steps do some of it, one of them is always possible), shows that systems side by side are
  again such a system, and is interpreted on the goroutines of a session, on the refilling
  goroutines of the two pools, on a client and on all clients of the server, on the goroutines that
  work at every tick, on the pprof server, and on the program as a whole.

  \<^bold>\<open>What is shown.\<close> This theory: over every route Telegram decrypts a prefix of what the client
  said and the client a prefix of what Telegram said, also behind the fake TLS disguise from
  the signed hello on, and all of it when no write fails; and where the proxy cuts packets each one becomes one message.
  \<^verbatim>\<open>Session\<close>, \<^verbatim>\<open>ServerDrain\<close>, \<^verbatim>\<open>PoolShutdown\<close>, \<^verbatim>\<open>WorkerShutdown\<close>, \<^verbatim>\<open>ProgramExit\<close>: a session that is over, the
  server, the pools and the program come to their end, with nothing left open, whatever happens in
  between. \<^verbatim>\<open>GoURL\<close>: the time added to an address changes nothing else of its query. \<^verbatim>\<open>FirstRead\<close>: no message of a
  pooled connection is lost, repeated or read by two. \<^verbatim>\<open>FlagParse\<close>: what a command line says is
  what the program reads. \<^verbatim>\<open>Server\<close>, \<^verbatim>\<open>Startup\<close>: no input makes a client's goroutine panic, the
  session limit holds, the program serves only a valid configuration and shows a link that
  carries its key. \<^verbatim>\<open>Routing\<close>: the nested fallbacks refine a list of routes tried in order, and
  give back every reservation. \<^verbatim>\<open>Splitter\<close>: no byte is lost, added or reordered on any path, the
  buffer is bounded, packets come out one by one. \<^verbatim>\<open>Handshake\<close>: round trips with a client and
  with Telegram. \<^verbatim>\<open>FakeTLSRecords\<close>, \<^verbatim>\<open>FakeTLSHello\<close>: reading refines the stream of payloads, only
  signed and fresh hellos are served, all others see the masking site only. The state
  theories: invariants and bounds over all interleavings. \<^verbatim>\<open>Limits\<close>: the 64-bit computation is
  exact. \<^verbatim>\<open>LogRotation\<close>, \<^verbatim>\<open>LogCensor\<close>: rotation loses only the oldest file, host names are hidden;
  and a failed reopening ends the log for good.

  \<^bold>\<open>Loops and bounds.\<close> No definition has fuel. Loops over data are structural or have a measure (the
  bytes still to be read, the text still to be scanned); the loops that the program leaves
  only on an event take the events as a list, and a list that ends before the loop does stands
  for a loop that is still waiting. The rejection loop of \<^verbatim>\<open>generateRelayInit\<close> runs over the
  random draws and returns exactly when one of them is admissible. Words keep their width where
  wrap-around matters (packet lengths, key streams, the descriptor budget, the log's tick);
  byte counters and times are integers.

  Liveness is shown for runs of own steps of bounded length, and without fairness: after any run
  one of the bounded number of own steps that remain is possible. Where a ticker may fire while a
  goroutine ends, the number of its ticks is part of the state, and any number is admitted. That reads and writes of a
  closed connection and dials under a cancelled context return is part of the step relations.

  \<^bold>\<open>Not modelled.\<close> Deadlines beyond the error they produce; the goroutines' memory model (the critical
  sections are taken as atomic, which their mutexes ensure); sockets and their options, DNS, HTTP, the
  parser and the printer of whole URLs, x509 verification and the WebSocket library, which are
  arguments of the definitions that use them; floating point beyond the printing of byte counts: the text of
  \<^verbatim>\<open>--log-max-mb\<close> is an argument, and so is the limit of the log file in bytes; the text of the
  debugging lines of a session; what the pprof server answers.
\<close>

section \<open>From end to end\<close>

text \<open>
  The client encrypts its session with the stream it has announced in its handshake, after
  the 64 bytes of the handshake; Telegram does the same with the stream it derives from the
  relay's 64 bytes.
\<close>

definition clientCiphertext :: "bytes \<Rightarrow> bytes \<Rightarrow> bytes \<Rightarrow> bytes" where
  "clientCiphertext hs secret plain = fst (XORKeyStream (snd (XORKeyStream (clientSend hs secret) hs)) plain)"

definition telegramPlaintext :: "bytes \<Rightarrow> bytes list \<Rightarrow> bytes" where
  "telegramPlaintext r sent = fst (XORKeyStream (telegramRecv r) (concat sent))"

definition sessionCiphers :: "bytes \<Rightarrow> bytes \<Rightarrow> bytes \<Rightarrow> ciphers" where
  "sessionCiphers hs secret r =
     \<lparr>cltDec = snd (XORKeyStream (clientSend hs secret) hs), cltEnc = clientRecv hs secret,
      tgEnc = snd (XORKeyStream (telegramRecv r) r), tgDec = telegramSend r\<rparr>"

lemma served_route:
  assumes "tryHandshake hs secret = Some (Some hi)" and "list_all (\<lambda>d. length d = 64) draws"
    and "handleMTProtoClient env draws rnd2 hi secret px = Some (Served s, px')"
  obtains r where "generateRelayInit draws rnd2 (hiProtoTag hi) (signedDC (hiDC hi) (hiIsMedia hi)) = Some r"
    and "length r = 64" and "routeClient env hi r (sessionCiphers hs secret r) px = (Served s, px')"
  using assms(3) handleMTProtoClient_accepted [OF assms(1,2), of env rnd2 px] generateRelayInit_length [OF assms(2)]
  by (cases "generateRelayInit draws rnd2 (hiProtoTag hi) (signedDC (hiDC hi) (hiIsMedia hi))")
    (auto simp: sessionCiphers_def)

lemma served_faithful:
  assumes "tryHandshake hs secret = Some (Some hi)" and "list_all (\<lambda>d. length d = 64) draws" and "freshTCP env"
    and "handleMTProtoClient env draws rnd2 hi secret px = Some (Served s, px')"
  obtains r where "generateRelayInit draws rnd2 (hiProtoTag hi) (signedDC (hiDC hi) (hiIsMedia hi)) = Some r"
    and "length r = 64" and "faithful env (sessionCiphers hs secret r) r s"
  using served_route [OF assms(1,2,4)] routeClient_faithful [OF assms(3)] by metis

lemma telegram_decrypts:
  assumes "length r = 64"
  shows "drop 64 (telegramPlaintext r (r # up)) = fst (XORKeyStream (snd (XORKeyStream (telegramRecv r) r)) (concat up))"
  using assms by (simp add: telegramPlaintext_def ctr.xks_append_fst ctr.xks_length)

text \<open>
  The bridge reads a disguised client through the fake TLS layer: one \<^verbatim>\<open>Read\<close> per buffer size
  of \<^term>\<open>ns\<close>, up to the first error.
\<close>

fun tlsReads :: "fakeTLSConn \<Rightarrow> nat list \<Rightarrow> reads" where
  "tlsReads c [] = []"
| "tlsReads c (n # ns) =
     (case fakeTLS_Read c n of
        ((bs, Some e), c1) \<Rightarrow> [(bs, Some e)]
      | ((bs, None), c1) \<Rightarrow> (bs, None) # tlsReads c1 ns)"

lemma tlsReads_Reads: "map fst (tlsReads c ns) = fst (fakeTLS_Reads c ns)"
  by (induction ns arbitrary: c) (simp_all split: prod.splits option.splits)

lemma tlsReads_prefix:
  assumes "0 \<notin> set ns"
  shows "prefix (concat (map fst (tlsReads c ns))) (tls_pending c)"
  using fakeTLS_Reads_law [OF assms, of c] by (auto simp: tlsReads_Reads split: prod.splits option.splits)

text \<open>What a disguised session serves is the session \<^verbatim>\<open>handleMTProtoClient\<close> serves on the same handshake.\<close>

lemma disguised_served:
  assumes "FakeTLSDomain (pxCfg px) \<noteq> []"
    and "acceptFakeTLSClient (clAccept env) client secret (FakeTLSDomain (pxCfg px)) (fakeTLSAppDataLen (pxCfg px)) =
      Some (Some (w, hs), c1, site)"
    and "tryHandshake hs secret = Some (Some hi)"
    and "handleClient env client secret px = Some (Handled (Served s), px')"
  obtains px1 where "handleMTProtoClient (clRoute env) (clDraws env) (clRnd2 env) hi secret (bumpActive 1 px) = Some (Served s, px1)"
  using assms by (auto simp: handleClient_def handleHandshake_def)

lemma faithful_up:
  assumes "faithful env (sessionCiphers hs secret r) r s" and "length r = 64"
    and "prefix (fromClient env) (clientCiphertext hs secret plain)"
  shows "\<exists>up. sSent s = r # up \<and> prefix (drop 64 (telegramPlaintext r (sSent s))) plain"
proof -
  let ?dec = "snd (XORKeyStream (clientSend hs secret) hs)"
  from assms(1) obtain up p where up: "sSent s = r # up"
    "concat up = fst (XORKeyStream (snd (XORKeyStream (telegramRecv r) r)) p)"
    "prefix p (fst (XORKeyStream ?dec (fromClient env)))"
    by (auto simp: faithful_def sessionCiphers_def)
  have "drop 64 (telegramPlaintext r (sSent s)) = p"
    using telegram_decrypts [OF assms(2)] up by (simp add: ctr.xks_involutive)
  moreover have "prefix (fst (XORKeyStream ?dec (fromClient env))) plain"
    using xks_prefix [OF assms(3), of ?dec] by (simp add: clientCiphertext_def ctr.xks_involutive)
  ultimately show ?thesis using up(1,3) prefix_order.trans by blast
qed

lemma faithful_down:
  assumes "faithful env (sessionCiphers hs secret r) r s"
    and "fromTelegram env s = fst (XORKeyStream (telegramSend r) answer)"
  shows "prefix (fst (XORKeyStream (clientRecv hs secret) (concat (sClient s)))) answer"
proof -
  from assms(1) obtain q where q: "prefix q (fromTelegram env s)"
    "concat (sClient s) = recode (telegramSend r) (clientRecv hs secret) q"
    by (auto simp: faithful_def sessionCiphers_def)
  have "fst (XORKeyStream (clientRecv hs secret) (concat (sClient s))) = fst (XORKeyStream (telegramSend r) q)"
    using q(2) by (simp add: recode_def ctr.xks_involutive)
  with xks_prefix [OF q(1), of "telegramSend r"] assms(2) show ?thesis by (simp add: ctr.xks_involutive)
qed

section \<open>Properties\<close>

text \<open>
  C1. What the client says is what Telegram hears: for an accepted handshake, over whichever
  route the session ends up on (pooled WebSocket, Cloudflare Worker, Cloudflare proxy or TCP)
  and whatever reads and writes fail in it, the first message sent upstream is a relay init of
  64 bytes, and everything Telegram decrypts after it is a prefix of the client's plaintext.
\<close>

theorem telegram_hears_the_client:
  assumes "tryHandshake hs secret = Some (Some hi)" and "list_all (\<lambda>d. length d = 64) draws" and "freshTCP env"
    and "handleMTProtoClient env draws rnd2 hi secret px = Some (Served s, px')"
    and "fromClient env = clientCiphertext hs secret plain"
  shows "\<exists>r up. generateRelayInit draws rnd2 (hiProtoTag hi) (signedDC (hiDC hi) (hiIsMedia hi)) = Some r \<and>
    length r = 64 \<and> sSent s = r # up \<and> prefix (drop 64 (telegramPlaintext r (sSent s))) plain"
proof -
  obtain r where r: "generateRelayInit draws rnd2 (hiProtoTag hi) (signedDC (hiDC hi) (hiIsMedia hi)) = Some r"
    "length r = 64" and f: "faithful env (sessionCiphers hs secret r) r s"
    by (rule served_faithful [OF assms(1-4)])
  with faithful_up [OF f r(2), of plain] assms(5) show ?thesis by auto
qed

text \<open>
  C2. And what Telegram answers is what the client hears: over every route, the bytes written
  to the client decrypt, with the stream the client derives from its own handshake, to a
  prefix of what Telegram sent.
\<close>

theorem client_hears_telegram:
  assumes "tryHandshake hs secret = Some (Some hi)" and "list_all (\<lambda>d. length d = 64) draws" and "freshTCP env"
    and "handleMTProtoClient env draws rnd2 hi secret px = Some (Served s, px')"
    and "generateRelayInit draws rnd2 (hiProtoTag hi) (signedDC (hiDC hi) (hiIsMedia hi)) = Some r"
    and "fromTelegram env s = fst (XORKeyStream (telegramSend r) answer)"
  shows "prefix (fst (XORKeyStream (clientRecv hs secret) (concat (sClient s)))) answer"
proof -
  obtain r' where r': "generateRelayInit draws rnd2 (hiProtoTag hi) (signedDC (hiDC hi) (hiIsMedia hi)) = Some r'"
    and f: "faithful env (sessionCiphers hs secret r') r' s"
    by (rule served_faithful [OF assms(1-4)])
  from r' assms(5) have "r' = r" by simp
  with f assms(6) show ?thesis by (metis faithful_down)
qed

text \<open>
  C3. And nothing is lost on the way: over every route, when no write fails, a client that sends its
  session in any pieces and closes is heard by Telegram in full, and when Telegram's messages are
  read to their end the client hears all of them.
\<close>

theorem nothing_lost:
  assumes "tryHandshake hs secret = Some (Some hi)" and "list_all (\<lambda>d. length d = 64) draws" and "freshTCP env"
    and "handleMTProtoClient env draws rnd2 hi secret px = Some (Served s, px')"
    and "generateRelayInit draws rnd2 (hiProtoTag hi) (signedDC (hiDC hi) (hiIsMedia hi)) = Some r"
    and "upWriteErr (reBridge env) = (\<lambda>_. None)" and "closesAfter (upReads (reBridge env))"
    and "fromClient env = clientCiphertext hs secret plain"
    and "downWriteErr (reBridge env) = (\<lambda>_. None)" and "wholeAnswer env s"
    and "fromTelegram env s = fst (XORKeyStream (telegramSend r) answer)"
  shows "drop 64 (telegramPlaintext r (sSent s)) = plain \<and>
    fst (XORKeyStream (clientRecv hs secret) (concat (sClient s))) = answer"
proof -
  obtain r' where "generateRelayInit draws rnd2 (hiProtoTag hi) (signedDC (hiDC hi) (hiIsMedia hi)) = Some r'"
    and r': "length r' = 64" "routeClient env hi r' (sessionCiphers hs secret r') px = (Served s, px')"
    by (rule served_route [OF assms(1,2,4)])
  then have r: "r' = r" using assms(5) by simp
  have "complete env (sessionCiphers hs secret r) r s" using routeClient_complete [OF assms(3) r'(2)] r by simp
  then obtain up where up: "sSent s = r # up"
      "concat up = recode (snd (XORKeyStream (clientSend hs secret) hs)) (snd (XORKeyStream (telegramRecv r) r)) (fromClient env)"
      "concat (sClient s) = recode (telegramSend r) (clientRecv hs secret) (fromTelegram env s)"
    using assms(6,7,9,10) by (auto simp: complete_def sessionCiphers_def)
  show ?thesis
    using up telegram_decrypts [of r up] r'(1) r assms(8,11)
    by (simp add: recode_def clientCiphertext_def ctr.xks_involutive)
qed

text \<open>
  C4. The disguise changes nothing: a client behind fake TLS, which signs its hello within two
  minutes of the clock and sends its handshake and its encrypted session in TLS records cut
  anywhere, is served as a plain one. Whatever buffer sizes the bridge reads it with, Telegram
  decrypts a prefix of what the client said; and what the client unpacks from the records
  written back to it decrypts to a prefix of what Telegram answered.
\<close>

theorem disguised_session_faithful:
  assumes "okRandom (rnd (clAccept env))" and "\<not> ctxDone (clAccept env)" and "outErr client = None"
    and "helloRecord data" and "43 \<le> length data" and "data ! 5 = 0x01"
    and "\<bar>nowUnix (clAccept env) - uint ts\<bar> \<le> 120"
    and "inBytes client = signClientHello secret ts data @ concat (map wrapFakeTLSRecords ps)"
    and "concat ps = hs @ clientCiphertext hs secret plain" and "length hs = 64"
    and "tryHandshake hs secret = Some (Some hi)"
    and "list_all (\<lambda>d. length d = 64) (clDraws env)" and "freshTCP (clRoute env)"
    and "FakeTLSDomain (pxCfg px) \<noteq> []"
    and "acceptFakeTLSClient (clAccept env) client secret (FakeTLSDomain (pxCfg px)) (fakeTLSAppDataLen (pxCfg px)) =
      Some (Some (w, hs'), c1, site)"
    and "0 \<notin> set ns" and "upReads (reBridge (clRoute env)) = tlsReads w ns"
    and "handleClient env client secret px = Some (Handled (Served s), px')"
    and "generateRelayInit (clDraws env) (clRnd2 env) (hiProtoTag hi) (signedDC (hiDC hi) (hiIsMedia hi)) = Some r"
    and "fromTelegram (clRoute env) s = fst (XORKeyStream (telegramSend r) answer)"
  shows "(\<exists>up. sSent s = r # up \<and> prefix (drop 64 (telegramPlaintext r (sSent s))) plain) \<and>
    (\<exists>written. outBytes (raw (fakeTLS_Writes w (sClient s))) = outBytes (raw w) @ written \<and>
       prefix (fst (XORKeyStream (clientRecv hs secret) (deframe written))) answer)"
proof -
  have "64 \<le> length (concat ps)" using assms(9,10) by simp
  from accept_signed [OF assms(1-8) this, of "FakeTLSDomain (pxCfg px)" "fakeTLSAppDataLen (pxCfg px)"] assms(9,10,15)
  have w: "hs' = hs" "tls_pending w = clientCiphertext hs secret plain" "outErr (raw w) = None"
    by (auto simp: writeSide_def)
  obtain px1 where "handleMTProtoClient (clRoute env) (clDraws env) (clRnd2 env) hi secret (bumpActive 1 px) = Some (Served s, px1)"
    using disguised_served [OF assms(14,15) _ assms(18)] assms(11) w(1) by metis
  then obtain r' where r': "generateRelayInit (clDraws env) (clRnd2 env) (hiProtoTag hi) (signedDC (hiDC hi) (hiIsMedia hi)) = Some r'"
    "length r' = 64" "faithful (clRoute env) (sessionCiphers hs secret r') r' s"
    by (rule served_faithful [OF assms(11-13)])
  with assms(19) have r: "length r = 64" "faithful (clRoute env) (sessionCiphers hs secret r) r s" by simp_all
  have "prefix (fromClient (clRoute env)) (clientCiphertext hs secret plain)"
    using tlsReads_prefix [OF assms(16), of w] w(2) assms(17) by (simp add: fromClient_def)
  with r have up: "\<exists>up. sSent s = r # up \<and> prefix (drop 64 (telegramPlaintext r (sSent s))) plain"
    by (metis faithful_up)
  show ?thesis
    using up faithful_down [OF r(2) assms(20)] fakeTLS_Writes_out [OF w(3), of "sClient s"]
    by (simp add: deframe_wraps)
qed


section \<open>Witnesses\<close>

abbreviation sampleHS :: bytes where
  "sampleHS \<equiv> clientHandshake (replicate 56 7) [1] protoTagSecure 2 [9, 9]"

abbreviation sampleHi :: handshakeInfo where
  "sampleHi \<equiv> \<lparr>hiDC = 2, hiIsMedia = False, hiProtoTag = protoTagSecure, hiClientDecI = slice 8 56 (replicate 56 7)\<rparr>"

abbreviation sampleSession :: "reads \<Rightarrow> reads \<Rightarrow> routeEnv" where
  "sampleSession up down \<equiv> sampleRoute\<lparr>reBridge := sampleBridge\<lparr>upReads := up\<rparr>, reTCPDown := down\<rparr>"

abbreviation sampleRelay :: bytes where
  "sampleRelay \<equiv> relayInitFrom (replicate 64 5) [6, 6] protoTagSecure (signedDC 2 False)"

lemma sample_accepted: "tryHandshake sampleHS [1] = Some (Some sampleHi)"
  by (subst tryHandshake_clientHandshake) simp_all

lemma sample_relay: "generateRelayInit [replicate 64 5] [6, 6] protoTagSecure (signedDC 2 False) = Some sampleRelay"
proof -
  have "relayRandomOk (replicate 64 5)" by code_simp
  then show ?thesis by (simp add: generateRelayInit_def)
qed

abbreviation disguisedProxy :: proxy where
  "disguisedProxy \<equiv> sampleProxy\<lparr>pxCfg := zeroConfig\<lparr>FakeTLSDomain := ''example.org''\<rparr>\<rparr>"

lemma sample_served:
  assumes "px = sampleProxy \<or> px = bumpActive 1 disguisedProxy"
  obtains s px' where "handleMTProtoClient (sampleSession up down) [replicate 64 5] [6, 6] sampleHi [1] px =
      Some (Served s, px')" and "sUpstream s = ViaTCP ''149.154.167.51''"
proof -
  have ip: "fallbackIP 2 = ''149.154.167.51''" by code_simp
  have "\<exists>s px'. routeClient (sampleSession up down) sampleHi r c px = (Served s, px') \<and>
      sUpstream s = ViaTCP ''149.154.167.51''" for r c
    using assms
    by (elim disjE) (simp_all add: bumpActive_def routeClient_def sampleProxy_def zeroConfig_def getForDC_def doFallback_def fallbackOutcome_def
        hasCFProxyWorkerDomains_def orElse_def tryTCP_def asTried_def tcpFallback_def fallbackTarget_def ip
        connectTCPFallback_def tcpBackoff_begin_def tcpAttemptResult_def writeTCPRelayInit_def conn_Write_def
        sampleRoute_def sampleTcpEnv_def Let_def split_beta)
  with that handleMTProtoClient_accepted [OF sample_accepted, of "[replicate 64 5]" "sampleSession up down" "[6, 6]" px]
    sample_relay show ?thesis by (simp add: sessionCiphers_def) metis
qed

theorem telegram_hears_the_client_witness:
  "\<exists>s px' r up. handleMTProtoClient (sampleSession [(clientCiphertext sampleHS [1] [10, 20, 30], None)] [])
       [replicate 64 5] [6, 6] sampleHi [1] sampleProxy = Some (Served s, px') \<and>
     length r = 64 \<and> sSent s = r # up \<and> prefix (drop 64 (telegramPlaintext r (sSent s))) [10, 20, 30]"
proof -
  let ?env = "sampleSession [(clientCiphertext sampleHS [1] [10, 20, 30], None)] []"
  obtain s px' where s: "handleMTProtoClient ?env [replicate 64 5] [6, 6] sampleHi [1] sampleProxy = Some (Served s, px')"
    by (rule sample_served [of sampleProxy]) simp
  have "freshTCP ?env" "fromClient ?env = clientCiphertext sampleHS [1] [10, 20, 30]"
    by (simp_all add: freshTCP_def sampleRoute_def fromClient_def)
  with s telegram_hears_the_client [OF sample_accepted _ _ s, of "[10, 20, 30]"] show ?thesis by auto
qed

theorem client_hears_telegram_witness:
  "\<exists>s px'. handleMTProtoClient (sampleSession [] [(fst (XORKeyStream (telegramSend sampleRelay) [7, 8]), None)])
       [replicate 64 5] [6, 6] sampleHi [1] sampleProxy = Some (Served s, px') \<and>
     prefix (fst (XORKeyStream (clientRecv sampleHS [1]) (concat (sClient s)))) [7, 8]"
proof -
  let ?env = "sampleSession [] [(fst (XORKeyStream (telegramSend sampleRelay) [7, 8]), None)]"
  obtain s px' where s: "handleMTProtoClient ?env [replicate 64 5] [6, 6] sampleHi [1] sampleProxy = Some (Served s, px')"
    and up: "sUpstream s = ViaTCP ''149.154.167.51''" by (rule sample_served [of sampleProxy]) simp
  have "freshTCP ?env" by (simp add: freshTCP_def sampleRoute_def)
  moreover have "fromTelegram ?env s = fst (XORKeyStream (telegramSend sampleRelay) [7, 8])"
    using up by (simp add: fromTelegram_def)
  ultimately show ?thesis
    using s client_hears_telegram [OF sample_accepted _ _ s, of sampleRelay "[7, 8]"] sample_relay by auto
qed

theorem nothing_lost_witness:
  "\<exists>s px'. handleMTProtoClient (sampleSession [(clientCiphertext sampleHS [1] [10, 20, 30], None), ([], Some io_EOF)]
       [(fst (XORKeyStream (telegramSend sampleRelay) [7, 8]), None), ([], Some io_EOF)])
       [replicate 64 5] [6, 6] sampleHi [1] sampleProxy = Some (Served s, px') \<and>
     drop 64 (telegramPlaintext sampleRelay (sSent s)) = [10, 20, 30] \<and>
     fst (XORKeyStream (clientRecv sampleHS [1]) (concat (sClient s))) = [7, 8]"
proof -
  let ?c = "clientCiphertext sampleHS [1] [10, 20, 30]" and ?a = "fst (XORKeyStream (telegramSend sampleRelay) [7, 8])"
  let ?env = "sampleSession [(?c, None), ([], Some io_EOF)] [(?a, None), ([], Some io_EOF)]"
  obtain s px' where s: "handleMTProtoClient ?env [replicate 64 5] [6, 6] sampleHi [1] sampleProxy = Some (Served s, px')"
    and tcp: "sUpstream s = ViaTCP ''149.154.167.51''" by (rule sample_served [of sampleProxy]) simp
  have "length ?c = 3" "length ?a = 2" by (simp_all add: clientCiphertext_def ctr.xks_length)
  then have "?c \<noteq> []" "?a \<noteq> []" by auto
  then have whole: "closesAfter (upReads (reBridge ?env))" "wholeAnswer ?env s"
    using tcp by (simp_all add: closesAfter_def wholeAnswer_def)
  have env: "freshTCP ?env" "upWriteErr (reBridge ?env) = (\<lambda>_. None)" "downWriteErr (reBridge ?env) = (\<lambda>_. None)"
    "fromClient ?env = ?c" "fromTelegram ?env s = ?a"
    using tcp by (simp_all add: freshTCP_def sampleRoute_def sampleBridge_def fromClient_def fromTelegram_def)
  show ?thesis
    using s nothing_lost [OF sample_accepted _ env(1) s _ env(2) whole(1) env(4) env(3) whole(2) env(5)] sample_relay by auto
qed

text \<open>A client behind fake TLS with the same handshake; \<^term>\<open>w\<close> is its connection once it is accepted.\<close>

abbreviation disguisedRecords :: "bytes list" where
  "disguisedRecords \<equiv> [sampleHS, clientCiphertext sampleHS [1] [10, 20, 30]]"

abbreviation disguisedClient :: netConn where
  "disguisedClient \<equiv> sample_conn (signClientHello [1] 900 sampleHello @ concat (map wrapFakeTLSRecords disguisedRecords))"

abbreviation disguisedEnv :: "fakeTLSConn \<Rightarrow> clientEnv" where
  "disguisedEnv w \<equiv> \<lparr>clAccept = sampleEnv,
     clRoute = sampleSession (tlsReads w [2, 65536]) [(fst (XORKeyStream (telegramSend sampleRelay) [7, 8]), None)],
     clDraws = [replicate 64 5], clRnd2 = [6, 6]\<rparr>"

lemma disguised_accepted:
  obtains w where "acceptFakeTLSClient sampleEnv disguisedClient [1] ''example.org'' (fakeTLSAppDataLen (pxCfg disguisedProxy)) =
    Some (Some (w, sampleHS), raw w, None)"
proof -
  have "length sampleHS = 64" by simp
  with accept_signed [of sampleEnv disguisedClient sampleHello 900 "[1]" disguisedRecords "''example.org''"
      "fakeTLSAppDataLen (pxCfg disguisedProxy)"] okRandom_sample sampleHello_record that
  show ?thesis by (auto simp: sampleEnv_def)
qed

theorem disguised_session_faithful_witness:
  "\<exists>w s px' up written. handleClient (disguisedEnv w) disguisedClient [1] disguisedProxy = Some (Handled (Served s), px') \<and>
     sSent s = sampleRelay # up \<and> prefix (drop 64 (telegramPlaintext sampleRelay (sSent s))) [10, 20, 30] \<and>
     outBytes (raw (fakeTLS_Writes w (sClient s))) = outBytes (raw w) @ written \<and>
     prefix (fst (XORKeyStream (clientRecv sampleHS [1]) (deframe written))) [7, 8]"
proof -
  obtain w where w: "acceptFakeTLSClient sampleEnv disguisedClient [1] ''example.org''
      (fakeTLSAppDataLen (pxCfg disguisedProxy)) = Some (Some (w, sampleHS), raw w, None)"
    by (rule disguised_accepted)
  let ?env = "disguisedEnv w"
  obtain s px1 where s: "handleMTProtoClient (clRoute ?env) [replicate 64 5] [6, 6] sampleHi [1]
      (bumpActive 1 disguisedProxy) = Some (Served s, px1)" and tcp: "sUpstream s = ViaTCP ''149.154.167.51''"
    by (rule sample_served [of "bumpActive 1 disguisedProxy"]) simp_all
  have h: "handleClient ?env disguisedClient [1] disguisedProxy = Some (Handled (Served s), bumpActive (-1) px1)"
    using w s sample_accepted by (simp add: handleClient_def handleHandshake_def)
  have hello: "okRandom (rnd (clAccept ?env))" "\<not> ctxDone (clAccept ?env)" "outErr disguisedClient = None"
    "\<bar>nowUnix (clAccept ?env) - uint (900 :: 32 word)\<bar> \<le> 120"
    using okRandom_sample by (simp_all add: sampleEnv_def)
  have hs: "concat disguisedRecords = sampleHS @ clientCiphertext sampleHS [1] [10, 20, 30]" "length sampleHS = 64" by simp_all
  have rest: "list_all (\<lambda>d. length d = 64) (clDraws ?env)" "freshTCP (clRoute ?env)" "FakeTLSDomain (pxCfg disguisedProxy) \<noteq> []"
    "0 \<notin> set [2, 65536 :: nat]" "upReads (reBridge (clRoute ?env)) = tlsReads w [2, 65536]"
    by (simp_all add: freshTCP_def sampleRoute_def)
  have tg: "fromTelegram (clRoute ?env) s = fst (XORKeyStream (telegramSend sampleRelay) [7, 8])"
    using tcp by (simp add: fromTelegram_def)
  show ?thesis
    using h disguised_session_faithful [OF hello(1-3) sampleHello_record(1-3) hello(4) _ hs sample_accepted rest(1-3) _ rest(4,5) h _ tg]
      w sample_relay by auto
qed

text \<open>A configuration with one idle connection in the pool.\<close>

abbreviation pooledKey :: wsPoolKey where
  "pooledKey \<equiv> \<lparr>wkDC = 2, wkIsMedia = False, wkTargetIP = ''1.2.3.4''\<rparr>"

abbreviation pooledProxy :: proxy where
  "pooledProxy \<equiv> sampleProxy\<lparr>pxCfg := zeroConfig\<lparr>PoolSize := 1, DCPool := [(2, [''1.2.3.4''])]\<rparr>,
     pxPool := newWSPool\<lparr>idle := (\<lambda>_. [])(pooledKey := [newPooledWS 4 0])\<rparr>\<rparr>"

lemma pooled_served:
  obtains s px' where "handleMTProtoClient (sampleSession up down) [replicate 64 5] [6, 6] sampleHi [1] pooledProxy =
      Some (Served s, px')" and "cutsPackets s"
proof -
  have ov: "dcOverrides 2 = None" by (simp add: dcOverrides_def)
  have "\<exists>s px'. routeClient (sampleSession up down) sampleHi r c pooledProxy = (Served s, px') \<and> cutsPackets s" for r c
    by (simp add: routeClient_def getForDC_def ov wsPool_get.simps getSection_def scheduleRefill_def newWSPool_def stale_def wsPoolMaxAge_def
        sampleProxy_def zeroConfig_def sampleRoute_def startWS_def cutsPackets_def Let_def split_beta newPooledWS_def)
  with that handleMTProtoClient_accepted [OF sample_accepted, of "[replicate 64 5]" "sampleSession up down" "[6, 6]" pooledProxy]
    sample_relay show ?thesis by (simp add: sessionCiphers_def) metis
qed


end
